(* ===== verification/Xv6_Prelude.thy ===== *)
theory Xv6_Prelude
  imports "HOL-Library.Word" "HOL-Library.Multiset" "HOL-Library.While_Combinator"
begin

unbundle bit_operations_syntax

text \<open>
  Shared ground of the development: the C integer types of \<^verbatim>\<open>kernel/types.h\<close>,
  the result type of kernel code (a value and a new state, a panic, or a switch to
  the scheduler) with its sequencing operator and the two satisfaction predicates the
  component proofs use, and generic lemmas on words, functions and lists.
\<close>

named_theorems xv6_consts \<open>numeric constants of the kernel headers\<close>
named_theorems frame \<open>which parts of the state an operation leaves alone\<close>

subsection \<open>C integers\<close>

type_synonym u8 = "8 word"
type_synonym u16 = "16 word"
type_synonym u32 = "32 word"
type_synonym u64 = "64 word"

text \<open>A C \<^verbatim>\<open>int\<close> is a 32-bit word read with \<^verbatim>\<open>sint\<close> and compared with
  the signed orderings; \<^verbatim>\<open>short\<close> likewise at 16 bits.\<close>

type_synonym i32 = "32 word"
type_synonym i16 = "16 word"

text \<open>Conversion of a C \<^verbatim>\<open>int\<close> result to the \<^verbatim>\<open>uint64\<close> a system call returns
  (sign extension), and the truncation \<^verbatim>\<open>argint\<close> performs.\<close>

definition i2u64 :: "i32 \<Rightarrow> u64" where
  "i2u64 x = scast x"

definition u64_to_i :: "u64 \<Rightarrow> i32" where
  "u64_to_i x = ucast x"

subsection \<open>Results of kernel code\<close>

text \<open>
  \<^verbatim>\<open>Ret x s\<close>: the function returned \<^verbatim>\<open>x\<close> in state \<^verbatim>\<open>s\<close>.
  \<^verbatim>\<open>Panic m\<close>: the kernel called \<^verbatim>\<open>panic(m)\<close> (\<^verbatim>\<open>printf.c\<close>) and halted.
  \<^verbatim>\<open>Switch s\<close>: the calling thread gave up its CPU in \<^verbatim>\<open>sched()\<close>, in state
  \<^verbatim>\<open>s\<close>; it continues when the scheduler picks it again, or never.
  \<^verbatim>\<open>Diverge\<close>: a loop of the function never ends (following a cyclic list).
\<close>

datatype ('s, 'a) res = Ret 'a 's | Panic string | Switch 's | Diverge

fun bnd :: "('s, 'a) res \<Rightarrow> ('a \<Rightarrow> 's \<Rightarrow> ('s, 'b) res) \<Rightarrow> ('s, 'b) res" where
  "bnd (Ret x s) f = f x s"
| "bnd (Panic m) f = Panic m"
| "bnd (Switch s) f = Switch s"
| "bnd Diverge f = Diverge"

lemma bnd_cong [fundef_cong]:
  assumes "m = m'" and "\<And>x s. m' = Ret x s \<Longrightarrow> f x s = g x s"
  shows "bnd m f = bnd m' g"
  using assms by (cases m') auto

text \<open>A loop of the source as \<^verbatim>\<open>while_option\<close>: not terminating is divergence.\<close>

definition loop_res :: "('s \<Rightarrow> bool) \<Rightarrow> ('s \<Rightarrow> 's) \<Rightarrow> 's \<Rightarrow> ('s \<Rightarrow> ('t, 'a) res) \<Rightarrow> ('t, 'a) res" where
  "loop_res b c x f = (case while_option b c x of None \<Rightarrow> Diverge | Some y \<Rightarrow> f y)"

lemma bnd_Ret_iff:
  "bnd m f = Ret x s \<longleftrightarrow> (\<exists>y t. m = Ret y t \<and> f y t = Ret x s)"
  by (cases m) auto

lemma bnd_assoc: "bnd (bnd m f) g = bnd m (\<lambda>x s. bnd (f x s) g)"
  by (cases m) auto

lemma bnd_Ret_right [simp]: "bnd m Ret = m"
  by (cases m) auto

lemma bnd_RetE:
  assumes "bnd m f = Ret x s"
  obtains y t where "m = Ret y t" and "f y t = Ret x s"
  using assms by (auto simp: bnd_Ret_iff)

lemma bnd_if: "bnd (if b then m else n) f = (if b then bnd m f else bnd n f)"
  by simp

text \<open>
  \<^verbatim>\<open>returns m Q\<close>: the computation returns, and its result and final state satisfy
  \<^verbatim>\<open>Q\<close> (total correctness: no panic, no switch, no divergence). \<^verbatim>\<open>ensures m Q\<close>:
  wherever it returns, \<^verbatim>\<open>Q\<close> holds.
\<close>

definition returns :: "('s, 'a) res \<Rightarrow> ('a \<Rightarrow> 's \<Rightarrow> bool) \<Rightarrow> bool" where
  "returns m Q = (case m of Ret x s \<Rightarrow> Q x s | _ \<Rightarrow> False)"

definition ensures :: "('s, 'a) res \<Rightarrow> ('a \<Rightarrow> 's \<Rightarrow> bool) \<Rightarrow> bool" where
  "ensures m Q = (case m of Ret x s \<Rightarrow> Q x s | _ \<Rightarrow> True)"

lemma returns_Ret [simp]: "returns (Ret x s) Q = Q x s"
  and returns_Panic [simp]: "\<not> returns (Panic e) Q"
  and returns_Switch [simp]: "\<not> returns (Switch s) Q"
  and returns_Diverge [simp]: "\<not> returns Diverge Q"
  by (simp_all add: returns_def)

lemma ensures_Ret [simp]: "ensures (Ret x s) Q = Q x s"
  and ensures_Panic [simp]: "ensures (Panic e) Q"
  and ensures_Switch [simp]: "ensures (Switch s) Q"
  and ensures_Diverge [simp]: "ensures Diverge Q"
  by (simp_all add: ensures_def)

lemma returns_iff: "returns m Q \<longleftrightarrow> (\<exists>x s. m = Ret x s \<and> Q x s)"
  by (cases m) auto

lemma ensuresD: "ensures m Q \<Longrightarrow> m = Ret x s \<Longrightarrow> Q x s"
  by simp

lemma returns_bnd:
  assumes "returns m P" and "\<And>x s. P x s \<Longrightarrow> returns (f x s) Q"
  shows "returns (bnd m f) Q"
  using assms by (cases m) auto

lemma ensures_bnd:
  assumes "ensures m P" and "\<And>x s. P x s \<Longrightarrow> ensures (f x s) Q"
  shows "ensures (bnd m f) Q"
  using assms by (cases m) auto

lemma returns_weaken: "returns m P \<Longrightarrow> (\<And>x s. P x s \<Longrightarrow> Q x s) \<Longrightarrow> returns m Q"
  by (cases m) auto

lemma ensures_weaken: "ensures m P \<Longrightarrow> (\<And>x s. P x s \<Longrightarrow> Q x s) \<Longrightarrow> ensures m Q"
  by (cases m) auto

lemma returns_ensures: "returns m Q \<Longrightarrow> ensures m Q"
  by (cases m) auto

subsection \<open>Words\<close>

lemma word_less_incr: "(i :: 'a::len word) < n \<Longrightarrow> unat (i + 1) = Suc (unat i)"
  by unat_arith

lemma word_less_measure: "(i :: 'a::len word) < n \<Longrightarrow> unat n - unat (i + 1) < unat n - unat i"
  by unat_arith

lemma word_neq_0_decr: "(n :: 'a::len word) \<noteq> 0 \<Longrightarrow> unat (n - 1) < unat n"
  by unat_arith

lemma unat_of_nat_lt:
  "n < 2 ^ LENGTH('a) \<Longrightarrow> unat (of_nat n :: 'a::len word) = n"
  by (simp add: unat_of_nat)

lemma unat_bound: "unat (w :: 'a::len word) < 2 ^ LENGTH('a)"
  by (rule unsigned_less)

lemma unat_ucast: "unat (ucast (w :: 'a::len word) :: 'b::len word) = unat w mod 2 ^ LENGTH('b)"
  by (simp add: unsigned_ucast_eq take_bit_eq_mod)

lemma unat_ucast_up:
  "LENGTH('a) \<le> LENGTH('b) \<Longrightarrow> unat (ucast (w :: 'a::len word) :: 'b::len word) = unat w"
proof -
  assume "LENGTH('a) \<le> LENGTH('b)"
  then have "(2::nat) ^ LENGTH('a) \<le> 2 ^ LENGTH('b)" by simp
  then have "unat w < 2 ^ LENGTH('b)"
    using unat_bound [of w] by linarith
  then show ?thesis by (simp add: unat_ucast)
qed

lemma word_offset_eq:
  assumes "unat (of_nat k :: 'a::len word) = k"
  shows "((a :: 'a word) = d + of_nat k) = (unat (a - d) = k)"
proof
  assume "unat (a - d) = k"
  then have "a - d = of_nat k" by (metis of_nat_unat ucast_id)
  then show "a = d + of_nat k" by (simp add: algebra_simps)
qed (use assms in simp)

lemma uint_sint_64:
  fixes x :: u64
  shows "uint x = (if sint x < 0 then sint x + 2 ^ 64 else sint x)"
proof -
  have u: "uint x = sint x mod 2 ^ 64" by (simp add: uint_sint take_bit_eq_mod)
  have b: "- (2 ^ 63) \<le> sint x" "sint x < 2 ^ 63" using sint_ge [of x] sint_lt [of x] by simp_all
  show ?thesis
  proof (cases "sint x < 0")
    case True
    have "(sint x + 2 ^ 64) mod 2 ^ 64 = sint x + 2 ^ 64"
      by (rule mod_pos_pos_trivial) (use b True in simp_all)
    then have "sint x mod 2 ^ 64 = sint x + 2 ^ 64" by (simp only: mod_add_self2)
    with u True show ?thesis by simp
  next
    case False
    have "sint x mod 2 ^ 64 = sint x"
      by (rule mod_pos_pos_trivial) (use b False in simp_all)
    with u False show ?thesis by simp
  qed
qed

lemma and_not_mask: "(a :: 'a::len word) AND NOT (mask n) = a - take_bit n a"
proof -
  have "NOT a AND take_bit n a = 0"
    by (rule bit_word_eqI) (simp add: bit_and_iff bit_not_iff bit_take_bit_iff)
  then have "a - take_bit n a = a AND NOT (take_bit n a)"
    by (rule disjunctive_diff_eq_and_not)
  also have "\<dots> = a AND NOT (mask n)"
    by (rule bit_word_eqI) (auto simp: bit_and_iff bit_not_iff bit_take_bit_iff bit_mask_iff)
  finally show ?thesis by simp
qed

lemma unat_and_not_mask: "unat ((a :: 'a::len word) AND NOT (mask n)) = unat a - unat a mod 2 ^ n"
proof -
  have t: "unat (take_bit n a) = unat a mod 2 ^ n"
    by (simp add: unsigned_take_bit_eq flip: take_bit_eq_mod)
  then have "take_bit n a \<le> a" by (simp add: word_le_nat_alt)
  then show ?thesis by (simp add: and_not_mask unat_sub t)
qed

subsection \<open>Little-endian bytes of a word\<close>

text \<open>\<^verbatim>\<open>byte_of w i\<close> is byte \<^verbatim>\<open>i\<close> of \<^verbatim>\<open>w\<close> in memory order;
  \<^verbatim>\<open>le_word n f\<close> is the word whose bytes are \<^verbatim>\<open>f 0\<close> to \<^verbatim>\<open>f (n - 1)\<close>.\<close>

definition byte_of :: "'a::len word \<Rightarrow> nat \<Rightarrow> u8" where
  "byte_of w i = ucast (drop_bit (8 * i) w)"

fun le_word :: "nat \<Rightarrow> (nat \<Rightarrow> u8) \<Rightarrow> 'a::len word" where
  "le_word 0 f = 0"
| "le_word (Suc n) f = le_word n f OR push_bit (8 * n) (ucast (f n))"

lemma bit_le_word:
  "bit (le_word n f :: 'a::len word) k \<longleftrightarrow>
     k < LENGTH('a) \<and> k < 8 * n \<and> bit (f (k div 8)) (k mod 8)"
proof (induction n)
  case 0
  then show ?case by simp
next
  case (Suc n)
  have "k div 8 = n \<and> k mod 8 = k - 8 * n" if "8 * n \<le> k" "k < 8 * Suc n"
  proof -
    obtain r where "k = 8 * n + r" using \<open>8 * n \<le> k\<close> le_Suc_ex by blast
    with \<open>k < 8 * Suc n\<close> show ?thesis by simp
  qed
  moreover have "k < 8 + 8 * n" if "8 * n \<le> k" "bit (f n) (k - 8 * n)"
    using that bit_imp_le_length [of "f n" "k - 8 * n"] by auto
  ultimately show ?case
    by (auto simp: bit_or_iff bit_push_bit_iff bit_ucast_iff Suc)
qed

lemma bit_byte_of: "bit (byte_of (w :: 'a::len word) i) k \<longleftrightarrow> k < 8 \<and> bit w (8 * i + k)"
  by (auto simp: byte_of_def bit_ucast_iff bit_drop_bit_eq)

lemma le_word_byte_of:
  assumes "LENGTH('a) \<le> 8 * n"
  shows "le_word n (byte_of (w :: 'a::len word)) = w"
  by (rule bit_word_eqI) (use assms in \<open>auto simp: bit_le_word bit_byte_of\<close>)

lemma le_word_cong: "(\<And>i. i < n \<Longrightarrow> f i = g i) \<Longrightarrow> le_word n f = le_word n g"
  by (induction n) auto

subsection \<open>Lists and functions\<close>

lemma takeWhile_id: "list_all P xs \<Longrightarrow> takeWhile P xs = xs"
  by (induction xs) auto

end
