(* ===== verification/Kstring.thy ===== *)
theory Kstring
  imports Xv6_Prelude
begin

text \<open>
  \<^verbatim>\<open>kernel/string.c\<close> and the byte-addressed memory it works on. The raw-memory
  routines (\<^verbatim>\<open>memset\<close>, \<^verbatim>\<open>memmove\<close>, \<^verbatim>\<open>memcmp\<close>) act on a memory
  \<^verbatim>\<open>u64 \<Rightarrow> u8\<close>; the string routines act on char arrays as byte lists, where
  reading at or past the end of a list yields NUL. Each loop is one recursive function.
  The lemmas give closed forms of the loops: in particular \<^verbatim>\<open>memmove\<close> is a
  simultaneous copy even when source and destination overlap.
\<close>

unbundle bit_operations_syntax

type_synonym mem = "u64 \<Rightarrow> u8"

subsection \<open>Raw memory\<close>

fun memset_loop :: "mem \<Rightarrow> u64 \<Rightarrow> u8 \<Rightarrow> nat \<Rightarrow> nat \<Rightarrow> mem" where
  "memset_loop m dst c i 0 = m"
| "memset_loop m dst c i (Suc left) =
     memset_loop (m(dst + of_nat i := c)) dst c (Suc i) left"

definition memset :: "mem \<Rightarrow> u64 \<Rightarrow> u8 \<Rightarrow> u32 \<Rightarrow> mem" where
  "memset m dst c n = memset_loop m dst c 0 (unat n)"

fun memmove_fwd :: "mem \<Rightarrow> u64 \<Rightarrow> u64 \<Rightarrow> nat \<Rightarrow> mem" where
  "memmove_fwd m d s 0 = m"
| "memmove_fwd m d s (Suc n) = memmove_fwd (m(d := m s)) (d + 1) (s + 1) n"

fun memmove_bwd :: "mem \<Rightarrow> u64 \<Rightarrow> u64 \<Rightarrow> nat \<Rightarrow> mem" where
  "memmove_bwd m d s 0 = m"
| "memmove_bwd m d s (Suc n) = memmove_bwd (m(d - 1 := m (s - 1))) (d - 1) (s - 1) n"

definition memmove :: "mem \<Rightarrow> u64 \<Rightarrow> u64 \<Rightarrow> u32 \<Rightarrow> mem" where
  "memmove m dst src n =
     (if n = 0 then m
      else if src < dst \<and> src + ucast n > dst
      then memmove_bwd m (dst + ucast n) (src + ucast n) (unat n)
      else memmove_fwd m dst src (unat n))"

definition memcpy :: "mem \<Rightarrow> u64 \<Rightarrow> u64 \<Rightarrow> u32 \<Rightarrow> mem" where
  "memcpy m dst src n = memmove m dst src n"

fun memcmp_loop :: "mem \<Rightarrow> u64 \<Rightarrow> u64 \<Rightarrow> nat \<Rightarrow> int" where
  "memcmp_loop m s1 s2 0 = 0"
| "memcmp_loop m s1 s2 (Suc n) =
     (if m s1 \<noteq> m s2 then uint (m s1) - uint (m s2)
      else memcmp_loop m (s1 + 1) (s2 + 1) n)"

definition memcmp :: "mem \<Rightarrow> u64 \<Rightarrow> u64 \<Rightarrow> u32 \<Rightarrow> int" where
  "memcmp m v1 v2 n = memcmp_loop m v1 v2 (unat n)"

text \<open>A 64-bit load and store through a \<^verbatim>\<open>uint64\<close> pointer (RISC-V is little-endian).\<close>

definition load64 :: "mem \<Rightarrow> u64 \<Rightarrow> u64" where
  "load64 m a = le_word 8 (\<lambda>i. m (a + of_nat i))"

definition store64 :: "mem \<Rightarrow> u64 \<Rightarrow> u64 \<Rightarrow> mem" where
  "store64 m a v = (\<lambda>x. if unat (x - a) < 8 then byte_of v (unat (x - a)) else m x)"

subsection \<open>Char arrays\<close>

definition deref :: "u8 list \<Rightarrow> u8" where
  "deref xs = (case xs of [] \<Rightarrow> 0 | c # _ \<Rightarrow> c)"

lemma deref_simps [simp]: "deref [] = 0" "deref (c # cs) = c"
  by (simp_all add: deref_def)

fun strncmp :: "u8 list \<Rightarrow> u8 list \<Rightarrow> nat \<Rightarrow> int" where
  "strncmp p q n =
     (if n > 0 \<and> deref p \<noteq> 0 \<and> deref p = deref q then strncmp (tl p) (tl q) (n - 1)
      else if n = 0 then 0
      else uint (deref p) - uint (deref q))"

declare strncmp.simps [simp del]

text \<open>The two loops of \<^verbatim>\<open>strncpy\<close>: copy until a NUL has been stored, then zero the rest.
  The first argument is what is left of the destination array.\<close>

fun zero_fill :: "u8 list \<Rightarrow> nat \<Rightarrow> u8 list" where
  "zero_fill s 0 = s"
| "zero_fill s (Suc n) = 0 # zero_fill (tl s) n"

fun strncpy :: "u8 list \<Rightarrow> u8 list \<Rightarrow> nat \<Rightarrow> u8 list" where
  "strncpy s t 0 = s"
| "strncpy s t (Suc n) =
     deref t # (if deref t \<noteq> 0 then strncpy (tl s) (tl t) n else zero_fill (tl s) n)"

fun safestrcpy_loop :: "u8 list \<Rightarrow> u8 list \<Rightarrow> nat \<Rightarrow> u8 list" where
  "safestrcpy_loop s t 0 = 0 # tl s"
| "safestrcpy_loop s t (Suc n) =
     deref t # (if deref t \<noteq> 0 then safestrcpy_loop (tl s) (tl t) n else 0 # tl (tl s))"

definition safestrcpy :: "u8 list \<Rightarrow> u8 list \<Rightarrow> nat \<Rightarrow> u8 list" where
  "safestrcpy s t n = (if n = 0 then s else safestrcpy_loop s t (n - 1))"

fun strlen :: "u8 list \<Rightarrow> nat" where
  "strlen [] = 0"
| "strlen (c # cs) = (if c = 0 then 0 else Suc (strlen cs))"

text \<open>The C string held by a char array: its bytes before the first NUL.\<close>

definition cstr :: "u8 list \<Rightarrow> u8 list" where
  "cstr xs = takeWhile (\<lambda>c. c \<noteq> 0) xs"

subsection \<open>Closed forms of the memory loops\<close>

lemma memset_loop_eq:
  "i + left < 2 ^ 64 \<Longrightarrow>
   memset_loop m dst c i left =
     (\<lambda>a. if i \<le> unat (a - dst) \<and> unat (a - dst) < i + left then c else m a)"
proof (induction left arbitrary: m i)
  case 0
  then show ?case by (auto simp: fun_eq_iff)
next
  case (Suc left)
  have i: "unat (of_nat i :: u64) = i"
    using Suc.prems by (simp add: unat_of_nat_lt)
  have eq: "(a = dst + of_nat i) = (unat (a - dst) = i)" for a
    by (rule word_offset_eq [OF i])
  show ?case
    using Suc.prems by (auto simp: Suc.IH fun_eq_iff eq)
qed

lemma memset_eq:
  "memset m dst c n = (\<lambda>a. if unat (a - dst) < unat n then c else m a)"
proof -
  have "0 + unat n < 2 ^ 64"
    using unsigned_less [of n, where ?'a = nat] by simp
  then show ?thesis
    by (simp add: memset_def memset_loop_eq)
qed

lemma memmove_fwd_eq:
  "k < 2 ^ 64 \<Longrightarrow> d = s \<or> k \<le> unat (d - s) \<Longrightarrow>
   memmove_fwd m d s k = (\<lambda>a. if unat (a - d) < k then m (s + (a - d)) else m a)"
proof (induction k arbitrary: m d s)
  case 0
  then show ?case by auto
next
  case (Suc k)
  have IH: "memmove_fwd (m(d := m s)) (d + 1) (s + 1) k =
      (\<lambda>a. if unat (a - (d + 1)) < k then (m(d := m s)) (s + 1 + (a - (d + 1))) else (m(d := m s)) a)"
    using Suc.prems by (intro Suc.IH) auto
  have "memmove_fwd m d s (Suc k) a = (if unat (a - d) < Suc k then m (s + (a - d)) else m a)" for a
  proof (cases "a = d")
    case True
    have "\<not> unat (-1 :: u64) < k"
      using Suc.prems(1) by (simp add: unsigned_minus_1_eq_mask mask_eq_exp_minus_1)
    with True show ?thesis by (simp add: IH)
  next
    case False
    then have pos: "unat (a - (d + 1)) = unat (a - d) - 1" "unat (a - d) > 0"
      by (unat_arith; simp)+
    show ?thesis
    proof (cases "unat (a - d) < Suc k")
      case True
      have "s + (a - d) \<noteq> d"
      proof
        assume "s + (a - d) = d"
        then have "a - d = d - s" by (simp add: algebra_simps)
        with Suc.prems(2) True False show False by auto
      qed
      moreover have "s + 1 + (a - (d + 1)) = s + (a - d)" by simp
      ultimately show ?thesis
        using True pos False by (auto simp: IH)
    next
      case c: False
      then have "\<not> unat (a - (d + 1)) < k" using pos by linarith
      with c False show ?thesis by (simp add: IH)
    qed
  qed
  then show ?case by (rule ext)
qed

lemma memmove_bwd_eq:
  "k < 2 ^ 64 \<Longrightarrow> d = s \<or> k \<le> unat (s - d) \<Longrightarrow>
   memmove_bwd m (d + of_nat k) (s + of_nat k) k =
     (\<lambda>a. if unat (a - d) < k then m (s + (a - d)) else m a)"
proof (induction k arbitrary: m)
  case 0
  then show ?case by (auto simp: fun_eq_iff)
next
  case (Suc k)
  let ?dk = "d + of_nat k" and ?sk = "s + of_nat k"
  have IH: "memmove_bwd (m(?dk := m ?sk)) ?dk ?sk k =
      (\<lambda>a. if unat (a - d) < k then (m(?dk := m ?sk)) (s + (a - d)) else (m(?dk := m ?sk)) a)"
    using Suc.prems by (intro Suc.IH) auto
  have k: "unat (of_nat k :: u64) = k"
    using Suc.prems(1) by (simp add: unat_of_nat_lt)
  have eq: "(a = ?dk) = (unat (a - d) = k)" for a
    by (rule word_offset_eq [OF k])
  have clobber: "s + (a - d) \<noteq> ?dk" if a: "unat (a - d) < k" for a
  proof
    assume "s + (a - d) = ?dk"
    then have e: "of_nat k - (a - d) = s - d" by (simp add: algebra_simps)
    have "unat (of_nat k - (a - d)) = k - unat (a - d)"
      using a k by (subst unat_sub) (auto simp: word_le_nat_alt)
    then have sd: "unat (s - d) = k - unat (a - d)" by (simp only: e)
    from Suc.prems(2) show False
    proof
      assume "d = s"
      with sd a show False by simp
    next
      assume "Suc k \<le> unat (s - d)"
      with sd show False by linarith
    qed
  qed
  have "memmove_bwd m (d + of_nat (Suc k)) (s + of_nat (Suc k)) (Suc k) =
      memmove_bwd (m(?dk := m ?sk)) ?dk ?sk k"
    by (simp add: algebra_simps)
  also have "\<dots> = (\<lambda>a. if unat (a - d) < Suc k then m (s + (a - d)) else m a)"
    using clobber by (auto simp: IH fun_eq_iff eq less_Suc_eq simp flip: eq)
  finally show ?case .
qed

text \<open>\<^bold>\<open>C30\<close> \<^verbatim>\<open>memmove\<close> copies as if through an intermediate buffer: every
  destination byte gets the byte the source held before the call, also where the two
  ranges overlap, and no other byte changes. The source range must not reach the end of
  the address space.\<close>

theorem memmove_simultaneous:
  assumes "unat src + unat n < 2 ^ 64"
  shows "memmove m dst src n = (\<lambda>a. if unat (a - dst) < unat n then m (src + (a - dst)) else m a)"
proof (cases "n = 0")
  case True
  then show ?thesis by (simp add: memmove_def fun_eq_iff)
next
  case False
  have n: "unat n < 2 ^ 32" using unsigned_less [of n, where ?'a = nat] by simp
  have un: "unat (ucast n :: u64) = unat n" by (simp add: unat_ucast_up)
  have sum: "unat (src + ucast n) = unat src + unat n"
    using assms un by (subst unat_add_lem [THEN iffD1]) auto
  show ?thesis
  proof (cases "src < dst \<and> src + ucast n > dst")
    case True
    then have lt: "unat src < unat dst" "unat dst < unat src + unat n"
      using sum by (auto simp: word_less_nat_alt)
    have "unat (src - dst) + unat dst = 2 ^ 64 + unat src"
      using lt unat_bound [of dst] by (subst unat_sub_if') simp
    then have far: "dst = src \<or> unat n \<le> unat (src - dst)"
      using lt n by simp
    have "memmove m dst src n =
        memmove_bwd m (dst + of_nat (unat n)) (src + of_nat (unat n)) (unat n)"
      using True False by (simp add: memmove_def)
    also have "\<dots> = (\<lambda>a. if unat (a - dst) < unat n then m (src + (a - dst)) else m a)"
      using n by (intro memmove_bwd_eq far) simp
    finally show ?thesis .
  next
    case c: False
    have "dst = src \<or> unat n \<le> unat (dst - src)"
    proof (cases "src < dst")
      case True
      with c sum have "unat src + unat n \<le> unat dst"
        by (simp add: word_less_nat_alt)
      then show ?thesis by (intro disjI2) (simp add: unat_sub_if')
    next
      case d: False
      then have "unat dst \<le> unat src" by (simp add: word_less_nat_alt)
      with assms show ?thesis
        by (auto simp: unat_sub_if' word_unat_eq_iff)
    qed
    with n have "memmove_fwd m dst src (unat n) =
        (\<lambda>a. if unat (a - dst) < unat n then m (src + (a - dst)) else m a)"
      by (intro memmove_fwd_eq) auto
    with c False show ?thesis by (auto simp: memmove_def)
  qed
qed

theorem memmove_simultaneous_witness:
  "memmove (\<lambda>a. ucast a) 12 10 5 = (\<lambda>a. if unat (a - 12) < 5 then ucast (10 + (a - 12)) else ucast a)"
  using memmove_simultaneous [of 10 5 "\<lambda>a. ucast a" 12] by simp

lemma load64_store64 [simp]: "load64 (store64 m a v) a = v"
proof -
  have "load64 (store64 m a v) a = le_word 8 (byte_of v)"
    unfolding load64_def
    by (rule le_word_cong) (simp add: store64_def unat_of_nat_lt)
  then show ?thesis by (simp add: le_word_byte_of)
qed

lemma load64_cong:
  "(\<And>x. unat (x - a) < 8 \<Longrightarrow> m x = m' x) \<Longrightarrow> load64 m a = load64 m' a"
  unfolding load64_def by (rule le_word_cong) (simp add: unat_of_nat_lt)

subsection \<open>What the string routines compute\<close>

lemma cstr_simps [simp]: "cstr [] = []" "cstr (c # cs) = (if c = 0 then [] else c # cstr cs)"
  by (simp_all add: cstr_def)

lemma strlen_cstr: "strlen xs = length (cstr xs)"
  by (induction xs) auto

lemma memcmp_loop_0:
  "memcmp_loop m s1 s2 n = 0 \<longleftrightarrow> (\<forall>i<n. m (s1 + of_nat i) = m (s2 + of_nat i))"
proof (induction n arbitrary: s1 s2)
  case 0
  then show ?case by simp
next
  case (Suc n)
  have "(\<forall>i<Suc n. P i) \<longleftrightarrow> P 0 \<and> (\<forall>i<n. P (Suc i))" for P
    using less_Suc_eq_0_disj by auto
  note split = this [of "\<lambda>i. m (s1 + of_nat i) = m (s2 + of_nat i)"]
  show ?case
    by (simp add: split Suc.IH algebra_simps unsigned_word_eqI [of "m s1" "m s2"])
      (metis unsigned_word_eqI)
qed

lemma strncmp_0_iff: "strncmp p q n = 0 \<longleftrightarrow> take n (cstr p) = take n (cstr q)"
proof (induction p q n rule: strncmp.induct)
  case (1 p q n)
  show ?case
  proof (cases n)
    case 0
    then show ?thesis by (simp add: strncmp.simps)
  next
    case (Suc k)
    have eq: "uint a - uint b = 0 \<longleftrightarrow> a = b" for a b :: u8
      by (metis right_minus_eq unsigned_word_eqI)
    show ?thesis
      using Suc "1" eq unfolding strncmp.simps [of p q n]
      by (cases p; cases q) (auto simp: uint_0_iff)
  qed
qed

lemma zero_fill_eq: "zero_fill s n = replicate n 0 @ drop n s"
  by (induction n arbitrary: s) (auto simp: drop_Suc)

lemma strncpy_eq: "strncpy s t n = take n (cstr t @ replicate n 0) @ drop n s"
proof (induction n arbitrary: s t)
  case 0
  then show ?case by simp
next
  case (Suc n)
  have "take n (cstr t' @ replicate (Suc n) 0) = take n (cstr t' @ replicate n 0)" for t'
    by (simp add: take_replicate min_def del: replicate.simps)
  then show ?case
    by (cases t) (auto simp: Suc.IH zero_fill_eq drop_Suc)
qed

lemma length_strncpy [simp]: "n \<le> length s \<Longrightarrow> length (strncpy s t n) = length s"
  by (simp add: strncpy_eq)

lemma safestrcpy_loop_props:
  "n < length s \<Longrightarrow>
   cstr (safestrcpy_loop s t n) = take n (cstr t) \<and> length (safestrcpy_loop s t n) = length s"
proof (induction n arbitrary: s t)
  case 0
  then show ?case by (cases s) auto
next
  case (Suc n)
  obtain x y zs where s: "s = x # y # zs"
    using Suc.prems by (cases s; cases "tl s") auto
  have "cstr (safestrcpy_loop (y # zs) t' n) = take n (cstr t') \<and>
      length (safestrcpy_loop (y # zs) t' n) = length (y # zs)" for t'
    using Suc.prems s by (intro Suc.IH) simp
  then show ?case
    by (cases t) (auto simp: s)
qed

lemma safestrcpy_props:
  assumes "0 < n" and "n \<le> length s"
  shows "cstr (safestrcpy s t n) = take (n - 1) (cstr t)"
    and "length (safestrcpy s t n) = length s"
  using assms safestrcpy_loop_props [of "n - 1" s t] by (auto simp: safestrcpy_def)

end
