(* ===== verification/Kernel_State.thy ===== *)
theory Kernel_State
  imports Kstring
begin

text \<open>
  The data of the kernel: the constants and structs of \<^verbatim>\<open>param.h\<close>,
  \<^verbatim>\<open>memlayout.h\<close>, \<^verbatim>\<open>riscv.h\<close>, \<^verbatim>\<open>proc.h\<close>, \<^verbatim>\<open>fs.h\<close>,
  \<^verbatim>\<open>buf.h\<close>, \<^verbatim>\<open>file.h\<close> and of the \<^verbatim>\<open>.c\<close> files that own global
  variables, collected in one record \<^verbatim>\<open>kernel\<close>. It is the state as one CPU sees it
  while it runs kernel code: fixed-size C arrays are functions of the index, pointers
  into such arrays are optional indices (\<^verbatim>\<open>None\<close> is the null pointer), pages
  handed out by \<^verbatim>\<open>kalloc\<close> are physical addresses (0 is the null pointer), and
  \<^verbatim>\<open>held\<close> is the set of spinlocks this CPU holds.
\<close>

subsection \<open>Constants\<close>

abbreviation (input) NPROC :: nat where "NPROC \<equiv> 64"
abbreviation (input) NCPU :: nat where "NCPU \<equiv> 8"
abbreviation (input) NOFILE :: nat where "NOFILE \<equiv> 16"
abbreviation (input) NFILE :: nat where "NFILE \<equiv> 100"
abbreviation (input) NINODE :: nat where "NINODE \<equiv> 50"
abbreviation (input) NDEV :: nat where "NDEV \<equiv> 10"
abbreviation (input) ROOTDEV :: u32 where "ROOTDEV \<equiv> 1"
abbreviation (input) MAXARG :: nat where "MAXARG \<equiv> 32"
abbreviation (input) MAXOPBLOCKS :: int where "MAXOPBLOCKS \<equiv> 10"
abbreviation (input) LOGBLOCKS :: int where "LOGBLOCKS \<equiv> 30"
abbreviation (input) NBUF :: nat where "NBUF \<equiv> 30"
abbreviation (input) MAXPATH :: nat where "MAXPATH \<equiv> 128"

abbreviation (input) PGSIZE :: u64 where "PGSIZE \<equiv> 4096"
abbreviation (input) KERNBASE :: u64 where "KERNBASE \<equiv> 0x80000000"
abbreviation (input) PHYSTOP :: u64 where "PHYSTOP \<equiv> 0x88000000"
abbreviation (input) MAXVA :: u64 where "MAXVA \<equiv> 0x4000000000"
abbreviation (input) TRAMPOLINE :: u64 where "TRAMPOLINE \<equiv> 0x3FFFFFF000"
abbreviation (input) TRAPFRAME :: u64 where "TRAPFRAME \<equiv> 0x3FFFFFE000"

definition KSTACK :: "nat \<Rightarrow> u64" where
  "KSTACK p = TRAMPOLINE - (of_nat p + 1) * 2 * PGSIZE"

abbreviation (input) BSIZE :: nat where "BSIZE \<equiv> 1024"
abbreviation (input) NDIRECT :: nat where "NDIRECT \<equiv> 12"
abbreviation (input) NINDIRECT :: nat where "NINDIRECT \<equiv> 256"
abbreviation (input) MAXFILE :: nat where "MAXFILE \<equiv> 268"
abbreviation (input) DIRSIZ :: nat where "DIRSIZ \<equiv> 14"
abbreviation (input) PIPESIZE :: nat where "PIPESIZE \<equiv> 512"

subsection \<open>Locks and wait channels\<close>

text \<open>The sleep-locks of the kernel: one per buffer and one per in-memory inode.\<close>

datatype sleepid = BufSL nat | InodeSL nat

text \<open>The spinlocks of the kernel, named by the variable that holds them.\<close>

datatype lockid =
    KmemLock | PidLock | WaitLock | TicksLock | ProcLock nat | BcacheLock | LogLock
  | ItableLock | FtableLock | PipeLock u64 | ConsLock | TxLock | PrLock | VdiskLock
  | SleepLk sleepid

text \<open>Wait channels, named by the address the source passes to \<^verbatim>\<open>sleep\<close>.\<close>

datatype wchan =
    ChProc nat | ChTicks | ChLog | ChPipeRead u64 | ChPipeWrite u64 | ChSleepLock sleepid
  | ChBuf nat | ChDiskFree | ChCons | ChTx

record sleeplock =
  sl_locked :: bool
  sl_pid :: i32

subsection \<open>Processes and CPUs (proc.h)\<close>

datatype ctxreg =
    C_ra | C_sp | C_s0 | C_s1 | C_s2 | C_s3 | C_s4 | C_s5 | C_s6 | C_s7 | C_s8 | C_s9 | C_s10 | C_s11

type_synonym kcontext = "ctxreg \<Rightarrow> u64"

datatype (plugins only: code size) tfreg =
    kernel_satp | kernel_sp | kernel_trap | epc | kernel_hartid
  | T_ra | T_sp | T_gp | T_tp | T_t0 | T_t1 | T_t2 | T_s0 | T_s1
  | T_a0 | T_a1 | T_a2 | T_a3 | T_a4 | T_a5 | T_a6 | T_a7
  | T_s2 | T_s3 | T_s4 | T_s5 | T_s6 | T_s7 | T_s8 | T_s9 | T_s10 | T_s11
  | T_t3 | T_t4 | T_t5 | T_t6

type_synonym trapframe = "tfreg \<Rightarrow> u64"

datatype procstate = UNUSED | USED | SLEEPING | RUNNABLE | RUNNING | ZOMBIE

abbreviation (input) POWER_NORMAL :: i32 where "POWER_NORMAL \<equiv> 0"
abbreviation (input) POWER_ECO :: i32 where "POWER_ECO \<equiv> 1"
abbreviation (input) ECO_SKIP_INTERVAL :: i32 where "ECO_SKIP_INTERVAL \<equiv> 3"
abbreviation (input) CPU_BUDGET_WINDOW_TICKS :: u32 where "CPU_BUDGET_WINDOW_TICKS \<equiv> 50"

record proc =
  p_state :: procstate
  p_chan :: "wchan option"
  p_killed :: bool
  p_xstate :: i32
  p_pid :: i32
  p_parent :: "nat option"
  p_kstack :: u64
  p_sz :: u64
  p_pagetable :: u64
  p_trapframe :: u64
  p_context :: kcontext
  p_ofile :: "nat \<Rightarrow> nat option"
  p_cwd :: "nat option"
  p_name :: "u8 list"
  p_power_mode :: i32
  p_cpu_budget :: i32
  p_ticks_used :: i32
  p_ticks_total :: i32
  p_budget_window_start :: u32
  p_eco_skip_counter :: i32
  p_cpu_ticks :: u64
  p_cpu_ticks_limit :: u64
  p_sched_count :: u64
  p_disk_writes :: u64

record cpu =
  c_proc :: "nat option"
  c_context :: kcontext

record proccostinfo =
  pc_pid :: i32
  pc_name :: "u8 list"
  pc_cpu_ticks :: u64
  pc_sched_count :: u64
  pc_disk_writes :: u64
  pc_cost :: u64

record syshealth =
  sh_uptime_ticks :: u32
  sh_active_ticks :: u32
  sh_idle_ticks :: u32
  sh_context_switches :: u32
  sh_nproc_running :: u32
  sh_nproc_total :: u32
  sh_free_pages :: u32

subsection \<open>Files, inodes, buffers, pipes, the log\<close>

type_synonym block = "nat \<Rightarrow> u8"

datatype filetype = FD_NONE | FD_PIPE | FD_INODE | FD_DEVICE

record kfile =
  f_type :: filetype
  f_ref :: i32
  f_readable :: bool
  f_writable :: bool
  f_pipe :: u64
  f_ip :: "nat option"
  f_off :: u32
  f_major :: i16

record inode =
  i_dev :: u32
  i_inum :: u32
  i_ref :: i32
  i_lock :: sleeplock
  i_valid :: bool
  i_type :: i16
  i_major :: i16
  i_minor :: i16
  i_nlink :: i16
  i_size :: u32
  i_addrs :: "nat \<Rightarrow> u32"

record buf =
  b_valid :: bool
  b_disk :: bool
  b_dev :: u32
  b_blockno :: u32
  b_lock :: sleeplock
  b_refcnt :: u32
  b_data :: block

text \<open>The nodes of the buffer cache's circular list: its head and the buffers.\<close>

datatype bptr = BHead | Buf nat

record superblock =
  sb_magic :: u32
  sb_size :: u32
  sb_nblocks :: u32
  sb_ninodes :: u32
  sb_nlog :: u32
  sb_logstart :: u32
  sb_inodestart :: u32
  sb_bmapstart :: u32

record pipe =
  pi_data :: "nat \<Rightarrow> u8"
  pi_nread :: u32
  pi_nwrite :: u32
  pi_readopen :: bool
  pi_writeopen :: bool

record log =
  lg_start :: u32
  lg_outstanding :: int
  lg_committing :: bool
  lg_dev :: u32
  lg_n :: int
  lg_block :: "nat \<Rightarrow> u32"

text \<open>The virtio disk driver: descriptors, the two rings it shares with the device, and its
  own book-keeping. A descriptor's address points to a request header, to a buffer's data
  or to a status byte.\<close>

datatype vaddr = VNone | VOps nat | VData nat | VStatus nat

record virtq_desc =
  d_addr :: vaddr
  d_len :: u32
  d_flags :: u16
  d_next :: u16

record virtio_blk_req =
  q_type :: u32
  q_reserved :: u32
  q_sector :: u64

record vdisk =
  vd_desc :: "nat \<Rightarrow> virtq_desc"
  vd_avail_idx :: u16
  vd_avail_ring :: "nat \<Rightarrow> u16"
  vd_dev_idx :: u16
  vd_used_ring :: "nat \<Rightarrow> u32"
  vd_free :: "nat \<Rightarrow> bool"
  vd_used_idx :: u16
  vd_info_b :: "nat \<Rightarrow> nat option"
  vd_info_status :: "nat \<Rightarrow> u8"
  vd_ops :: "nat \<Rightarrow> virtio_blk_req"
  vd_writes :: "(nat \<times> u32) list"

subsection \<open>Machine registers and linker symbols\<close>

datatype csr = Sstatus | Sepc | Scause | Stval | Stvec | Satp | Stimecmp | Time

datatype ksymbol =
    Sym_end | Sym_etext | Sym_trampoline | Sym_uservec | Sym_userret | Sym_forkret
  | Sym_kernelvec | Sym_usertrap

subsection \<open>The kernel state\<close>

text \<open>\<^verbatim>\<open>dwrites\<close> is a history variable: the blocks written to the disk so far, in order.
  \<^verbatim>\<open>devsw i\<close> says that the console's read and write functions are installed in entry
  \<^verbatim>\<open>i\<close> of the device switch; \<^verbatim>\<open>forkret_first\<close> is the static variable of
  \<^verbatim>\<open>forkret\<close>; \<^verbatim>\<open>junk\<close> is what uninitialised stack memory happens to hold.
  In \<^verbatim>\<open>vdisk\<close>, \<^verbatim>\<open>vd_dev_idx\<close> is the index the device maintains in the used ring, and
  \<^verbatim>\<open>vd_writes\<close> records the values written to the device's registers.\<close>

record kernel =
  hartid :: nat
  csrs :: "csr \<Rightarrow> u64"
  ksym :: "ksymbol \<Rightarrow> u64"
  held :: "lockid set"
  cpus :: "nat \<Rightarrow> cpu"
  pmem :: mem
  freelist :: u64
  procs :: "nat \<Rightarrow> proc"
  initproc :: "nat option"
  nextpid :: i32
  context_switches :: u32
  tframes :: "u64 \<Rightarrow> trapframe"
  ticks :: u32
  active_ticks :: u32
  idle_ticks :: u32
  kernel_pagetable :: u64
  pipes :: "u64 \<Rightarrow> pipe"
  files :: "nat \<Rightarrow> kfile"
  inodes :: "nat \<Rightarrow> inode"
  sb :: superblock
  bufs :: "nat \<Rightarrow> buf"
  lru_next :: "bptr \<Rightarrow> bptr"
  lru_prev :: "bptr \<Rightarrow> bptr"
  klog :: log
  disk :: "u32 \<Rightarrow> block"
  dwrites :: "(u32 \<times> block) list"
  devsw :: "nat \<Rightarrow> bool"
  forkret_first :: bool
  junk :: "nat \<Rightarrow> u8"
  vdisk :: vdisk
  cons_buf :: "nat \<Rightarrow> u8"
  cons_r :: u32
  cons_w :: u32
  cons_e :: u32
  tx_busy :: bool
  uart_out :: "u8 list"

type_synonym 'a kres = "(kernel, 'a) res"

text \<open>The state before \<^verbatim>\<open>main\<close> initialises anything: zeroed globals, hart 0, no
  lock held.\<close>

definition proc0 :: proc where
  "proc0 = \<lparr>p_state = UNUSED, p_chan = None, p_killed = False, p_xstate = 0, p_pid = 0,
     p_parent = None, p_kstack = 0, p_sz = 0, p_pagetable = 0, p_trapframe = 0,
     p_context = (\<lambda>_. 0), p_ofile = (\<lambda>_. None), p_cwd = None, p_name = replicate 16 0,
     p_power_mode = 0, p_cpu_budget = 0, p_ticks_used = 0, p_ticks_total = 0,
     p_budget_window_start = 0, p_eco_skip_counter = 0, p_cpu_ticks = 0,
     p_cpu_ticks_limit = 0, p_sched_count = 0, p_disk_writes = 0\<rparr>"

definition file0 :: kfile where
  "file0 = \<lparr>f_type = FD_NONE, f_ref = 0, f_readable = False, f_writable = False, f_pipe = 0,
     f_ip = None, f_off = 0, f_major = 0\<rparr>"

definition inode0 :: inode where
  "inode0 = \<lparr>i_dev = 0, i_inum = 0, i_ref = 0, i_lock = \<lparr>sl_locked = False, sl_pid = 0\<rparr>,
     i_valid = False, i_type = 0, i_major = 0, i_minor = 0, i_nlink = 0, i_size = 0,
     i_addrs = (\<lambda>_. 0)\<rparr>"

definition buf0 :: buf where
  "buf0 = \<lparr>b_valid = False, b_disk = False, b_dev = 0, b_blockno = 0,
     b_lock = \<lparr>sl_locked = False, sl_pid = 0\<rparr>, b_refcnt = 0, b_data = (\<lambda>_. 0)\<rparr>"

definition vdisk0 :: vdisk where
  "vdisk0 = \<lparr>vd_desc = (\<lambda>_. \<lparr>d_addr = VNone, d_len = 0, d_flags = 0, d_next = 0\<rparr>), vd_avail_idx = 0,
     vd_avail_ring = (\<lambda>_. 0), vd_dev_idx = 0, vd_used_ring = (\<lambda>_. 0), vd_free = (\<lambda>_. False),
     vd_used_idx = 0, vd_info_b = (\<lambda>_. None), vd_info_status = (\<lambda>_. 0),
     vd_ops = (\<lambda>_. \<lparr>q_type = 0, q_reserved = 0, q_sector = 0\<rparr>), vd_writes = []\<rparr>"

definition kernel0 :: kernel where
  "kernel0 = \<lparr>hartid = 0, csrs = (\<lambda>_. 0), ksym = (\<lambda>_. 0), held = {},
     cpus = (\<lambda>_. \<lparr>c_proc = None, c_context = (\<lambda>_. 0)\<rparr>), pmem = (\<lambda>_. 0), freelist = 0,
     procs = (\<lambda>_. proc0), initproc = None, nextpid = 1, context_switches = 0,
     tframes = (\<lambda>_ _. 0), ticks = 0, active_ticks = 0, idle_ticks = 0, kernel_pagetable = 0,
     pipes = (\<lambda>_. \<lparr>pi_data = (\<lambda>_. 0), pi_nread = 0, pi_nwrite = 0, pi_readopen = False,
       pi_writeopen = False\<rparr>),
     files = (\<lambda>_. file0), inodes = (\<lambda>_. inode0),
     sb = \<lparr>sb_magic = 0, sb_size = 0, sb_nblocks = 0, sb_ninodes = 0, sb_nlog = 0,
       sb_logstart = 0, sb_inodestart = 0, sb_bmapstart = 0\<rparr>,
     bufs = (\<lambda>_. buf0), lru_next = (\<lambda>_. BHead), lru_prev = (\<lambda>_. BHead),
     klog = \<lparr>lg_start = 0, lg_outstanding = 0, lg_committing = False, lg_dev = 0, lg_n = 0,
       lg_block = (\<lambda>_. 0)\<rparr>,
     disk = (\<lambda>_ _. 0), dwrites = [], devsw = (\<lambda>_. False), forkret_first = True, junk = (\<lambda>_. 0),
     vdisk = vdisk0, cons_buf = (\<lambda>_. 0), cons_r = 0, cons_w = 0, cons_e = 0,
     tx_busy = False, uart_out = []\<rparr>"

definition upd_proc :: "nat \<Rightarrow> (proc \<Rightarrow> proc) \<Rightarrow> kernel \<Rightarrow> kernel" where
  "upd_proc i f s = s\<lparr>procs := (procs s)(i := f (procs s i))\<rparr>"

end
