(* ===== verification/Sync.thy ===== *)
theory Sync
  imports Kernel_State
begin

text \<open>
  Synchronisation as the rest of the kernel uses it: spinlocks through the set of locks
  this CPU holds (the contract that theory \<^verbatim>\<open>Spinlock\<close> establishes for
  \<^verbatim>\<open>spinlock.c\<close>), the context switch \<^verbatim>\<open>sched\<close>, \<^verbatim>\<open>yield\<close>,
  \<^verbatim>\<open>sleep\<close>, \<^verbatim>\<open>wakeup\<close>, \<^verbatim>\<open>killed\<close> of \<^verbatim>\<open>proc.c\<close>, and the
  sleep-locks of \<^verbatim>\<open>sleeplock.c\<close>. A call that reaches \<^verbatim>\<open>swtch\<close> ends in
  \<^verbatim>\<open>Switch\<close>; the code after the switch is the function's \<^verbatim>\<open>_resume\<close> half.
  Acquiring a lock that another CPU holds spins; the model starts the critical section
  at the moment the lock is obtained.
\<close>

subsection \<open>Spinlocks held by this CPU\<close>

definition acquire :: "lockid \<Rightarrow> kernel \<Rightarrow> unit kres" where
  "acquire lk s =
     (if lk \<in> held s then Panic ''acquire'' else Ret () (s\<lparr>held := insert lk (held s)\<rparr>))"

definition release :: "lockid \<Rightarrow> kernel \<Rightarrow> unit kres" where
  "release lk s =
     (if lk \<notin> held s then Panic ''release'' else Ret () (s\<lparr>held := held s - {lk}\<rparr>))"

definition holding :: "lockid \<Rightarrow> kernel \<Rightarrow> bool" where
  "holding lk s \<longleftrightarrow> lk \<in> held s"

lemma acquire_free [simp]:
  "lk \<notin> held s \<Longrightarrow> acquire lk s = Ret () (s\<lparr>held := insert lk (held s)\<rparr>)"
  by (simp add: acquire_def)

lemma release_held [simp]:
  "lk \<in> held s \<Longrightarrow> release lk s = Ret () (s\<lparr>held := held s - {lk}\<rparr>)"
  by (simp add: release_def)

subsection \<open>The current process\<close>

definition myproc :: "kernel \<Rightarrow> nat option" where
  "myproc s = c_proc (cpus s (hartid s))"

text \<open>A use of \<^verbatim>\<open>myproc()->\<close> with no current process faults in the kernel, which
  \<^verbatim>\<open>kerneltrap\<close> turns into a panic.\<close>

definition with_proc :: "kernel \<Rightarrow> (nat \<Rightarrow> 'a kres) \<Rightarrow> 'a kres" where
  "with_proc s f = (case myproc s of None \<Rightarrow> Panic ''kerneltrap'' | Some p \<Rightarrow> f p)"

lemma with_proc_Some [simp]: "myproc s = Some p \<Longrightarrow> with_proc s f = f p"
  by (simp add: with_proc_def)

text \<open>Bit 1 of \<^verbatim>\<open>sstatus\<close> is SIE. In this view of the state it is the interrupt
  enable outside critical sections (what \<^verbatim>\<open>pop_off\<close> restores); while a spinlock is
  held interrupts are off.\<close>

definition intr_get :: "kernel \<Rightarrow> bool" where
  "intr_get s \<longleftrightarrow> held s = {} \<and> bit (csrs s Sstatus) 1"

definition intr_on :: "kernel \<Rightarrow> kernel" where
  "intr_on s = s\<lparr>csrs := (csrs s)(Sstatus := csrs s Sstatus OR 2)\<rparr>"

definition intr_off :: "kernel \<Rightarrow> kernel" where
  "intr_off s = s\<lparr>csrs := (csrs s)(Sstatus := csrs s Sstatus AND NOT 2)\<rparr>"

subsection \<open>Giving up the CPU\<close>

definition sched :: "kernel \<Rightarrow> unit kres" where
  "sched s = with_proc s (\<lambda>p.
     if \<not> holding (ProcLock p) s then Panic ''sched p->lock''
     else if card (held s) \<noteq> 1 then Panic ''sched locks''
     else if p_state (procs s p) = RUNNING then Panic ''sched RUNNING''
     else if intr_get s then Panic ''sched interruptible''
     else Switch s)"

definition yield :: "kernel \<Rightarrow> unit kres" where
  "yield s = with_proc s (\<lambda>p.
     bnd (acquire (ProcLock p) s) (\<lambda>_ s.
     sched (upd_proc p (\<lambda>q. q\<lparr>p_state := RUNNABLE\<rparr>) s)))"

definition yield_resume :: "nat \<Rightarrow> kernel \<Rightarrow> unit kres" where
  "yield_resume p s = release (ProcLock p) s"

definition sleep :: "wchan \<Rightarrow> lockid \<Rightarrow> kernel \<Rightarrow> unit kres" where
  "sleep chan lk s = with_proc s (\<lambda>p.
     bnd (acquire (ProcLock p) s) (\<lambda>_ s.
     bnd (release lk s) (\<lambda>_ s.
     sched (upd_proc p (\<lambda>q. q\<lparr>p_chan := Some chan, p_state := SLEEPING\<rparr>) s))))"

definition sleep_resume :: "nat \<Rightarrow> lockid \<Rightarrow> kernel \<Rightarrow> unit kres" where
  "sleep_resume p lk s =
     bnd (release (ProcLock p) (upd_proc p (\<lambda>q. q\<lparr>p_chan := None\<rparr>) s)) (\<lambda>_ s.
     acquire lk s)"

fun wakeup_loop :: "wchan \<Rightarrow> nat list \<Rightarrow> kernel \<Rightarrow> unit kres" where
  "wakeup_loop chan [] s = Ret () s"
| "wakeup_loop chan (p # ps) s =
     (if Some p \<noteq> myproc s then
        bnd (acquire (ProcLock p) s) (\<lambda>_ s.
        bnd (release (ProcLock p)
              (if p_state (procs s p) = SLEEPING \<and> p_chan (procs s p) = Some chan
               then upd_proc p (\<lambda>q. q\<lparr>p_state := RUNNABLE\<rparr>) s else s)) (\<lambda>_ s.
        wakeup_loop chan ps s))
      else wakeup_loop chan ps s)"

definition wakeup :: "wchan \<Rightarrow> kernel \<Rightarrow> unit kres" where
  "wakeup chan s = wakeup_loop chan [0..<NPROC] s"

definition setkilled :: "nat \<Rightarrow> kernel \<Rightarrow> unit kres" where
  "setkilled p s =
     bnd (acquire (ProcLock p) s) (\<lambda>_ s.
     release (ProcLock p) (upd_proc p (\<lambda>q. q\<lparr>p_killed := True\<rparr>) s))"

definition killed :: "nat \<Rightarrow> kernel \<Rightarrow> bool kres" where
  "killed p s =
     bnd (acquire (ProcLock p) s) (\<lambda>_ s.
     let k = p_killed (procs s p) in
     bnd (release (ProcLock p) s) (\<lambda>_ s. Ret k s))"

subsection \<open>Sleep-locks\<close>

fun get_sl :: "sleepid \<Rightarrow> kernel \<Rightarrow> sleeplock" where
  "get_sl (BufSL b) s = b_lock (bufs s b)"
| "get_sl (InodeSL i) s = i_lock (inodes s i)"

fun set_sl :: "sleepid \<Rightarrow> sleeplock \<Rightarrow> kernel \<Rightarrow> kernel" where
  "set_sl (BufSL b) l s = s\<lparr>bufs := (bufs s)(b := (bufs s b)\<lparr>b_lock := l\<rparr>)\<rparr>"
| "set_sl (InodeSL i) l s = s\<lparr>inodes := (inodes s)(i := (inodes s i)\<lparr>i_lock := l\<rparr>)\<rparr>"

definition initsleeplock :: "sleepid \<Rightarrow> kernel \<Rightarrow> kernel" where
  "initsleeplock l s = set_sl l \<lparr>sl_locked = False, sl_pid = 0\<rparr> s"

definition acquiresleep :: "sleepid \<Rightarrow> kernel \<Rightarrow> unit kres" where
  "acquiresleep l s =
     bnd (acquire (SleepLk l) s) (\<lambda>_ s.
     if sl_locked (get_sl l s) then sleep (ChSleepLock l) (SleepLk l) s
     else with_proc s (\<lambda>p.
       release (SleepLk l)
         (set_sl l \<lparr>sl_locked = True, sl_pid = p_pid (procs s p)\<rparr> s)))"

definition releasesleep :: "sleepid \<Rightarrow> kernel \<Rightarrow> unit kres" where
  "releasesleep l s =
     bnd (acquire (SleepLk l) s) (\<lambda>_ s.
     bnd (wakeup (ChSleepLock l) (set_sl l \<lparr>sl_locked = False, sl_pid = 0\<rparr> s)) (\<lambda>_ s.
     release (SleepLk l) s))"

definition holdingsleep :: "sleepid \<Rightarrow> kernel \<Rightarrow> bool kres" where
  "holdingsleep l s =
     bnd (acquire (SleepLk l) s) (\<lambda>_ s.
     with_proc s (\<lambda>p.
     let r = sl_locked (get_sl l s) \<and> sl_pid (get_sl l s) = p_pid (procs s p) in
     bnd (release (SleepLk l) s) (\<lambda>_ s. Ret r s)))"

subsection \<open>What wakeup does to the process table\<close>

text \<open>The effect of \<^verbatim>\<open>wakeup\<close> on the table, as one function update.\<close>

definition wake :: "wchan \<Rightarrow> nat option \<Rightarrow> nat set \<Rightarrow> (nat \<Rightarrow> proc) \<Rightarrow> nat \<Rightarrow> proc" where
  "wake chan me ps pt = (\<lambda>p.
     if p \<in> ps \<and> Some p \<noteq> me \<and> p_state (pt p) = SLEEPING \<and> p_chan (pt p) = Some chan
     then (pt p)\<lparr>p_state := RUNNABLE\<rparr> else pt p)"

text \<open>\<^verbatim>\<open>wakeup\<close> may run when this CPU holds no process lock but its own process's.\<close>

definition plocks_free :: "kernel \<Rightarrow> bool" where
  "plocks_free s \<longleftrightarrow> (\<forall>p < NPROC. Some p \<noteq> myproc s \<longrightarrow> ProcLock p \<notin> held s)"

lemma wakeup_loop_eq:
  assumes "distinct ps" and "\<forall>p \<in> set ps. Some p \<noteq> myproc s \<longrightarrow> ProcLock p \<notin> held s"
  shows "wakeup_loop chan ps s = Ret () (s\<lparr>procs := wake chan (myproc s) (set ps) (procs s)\<rparr>)"
  using assms
proof (induction ps arbitrary: s)
  case Nil
  then show ?case by (simp add: wake_def)
next
  case (Cons p ps)
  show ?case
  proof (cases "Some p = myproc s")
    case True
    then have eq: "wake chan (myproc s) (set (p # ps)) (procs s) = wake chan (myproc s) (set ps) (procs s)"
      by (auto simp: wake_def fun_eq_iff)
    have "wakeup_loop chan (p # ps) s = wakeup_loop chan ps s"
      using True by simp
    also have "\<dots> = Ret () (s\<lparr>procs := wake chan (myproc s) (set ps) (procs s)\<rparr>)"
      using Cons.prems by (intro Cons.IH) auto
    finally show ?thesis by (simp only: eq)
  next
    case False
    with Cons.prems have free: "ProcLock p \<notin> held s" by auto
    define t where "t = (if p_state (procs s p) = SLEEPING \<and> p_chan (procs s p) = Some chan
        then upd_proc p (\<lambda>q. q\<lparr>p_state := RUNNABLE\<rparr>) s else s)"
    have my: "myproc t = myproc s" and h: "held t = held s"
      by (auto simp: t_def upd_proc_def myproc_def)
    have "wakeup_loop chan (p # ps) s = wakeup_loop chan ps t"
      using False free by (auto simp: t_def upd_proc_def)
    also have "\<dots> = Ret () (t\<lparr>procs := wake chan (myproc t) (set ps) (procs t)\<rparr>)"
      using Cons.prems my h by (intro Cons.IH) auto
    also have "\<dots> = Ret () (s\<lparr>procs := wake chan (myproc s) (set (p # ps)) (procs s)\<rparr>)"
    proof -
      have "wake chan (myproc s) (set ps) (procs t) = wake chan (myproc s) (set (p # ps)) (procs s)"
        using Cons.prems(1) False by (auto simp: wake_def t_def upd_proc_def fun_eq_iff)
      then show ?thesis by (simp add: my) (simp add: t_def upd_proc_def)
    qed
    finally show ?thesis .
  qed
qed

lemma wakeup_eq:
  "plocks_free s \<Longrightarrow>
   wakeup chan s = Ret () (s\<lparr>procs := wake chan (myproc s) {..<NPROC} (procs s)\<rparr>)"
  unfolding wakeup_def by (subst wakeup_loop_eq) (auto simp: plocks_free_def lessThan_atLeast0)

lemma plocks_free_simps [simp]:
  "plocks_free (s\<lparr>procs := x1\<rparr>) = plocks_free s"
  "plocks_free (s\<lparr>klog := x2\<rparr>) = plocks_free s"
  "plocks_free (s\<lparr>pipes := x3\<rparr>) = plocks_free s"
  "plocks_free (s\<lparr>bufs := x4\<rparr>) = plocks_free s"
  "plocks_free (s\<lparr>inodes := x5\<rparr>) = plocks_free s"
  "plocks_free (s\<lparr>files := x6\<rparr>) = plocks_free s"
  "plocks_free (s\<lparr>ticks := x7\<rparr>) = plocks_free s"
  by (auto simp: plocks_free_def myproc_def)

lemma myproc_simps [simp]:
  "myproc (s\<lparr>procs := x1\<rparr>) = myproc s"
  "myproc (s\<lparr>held := x2\<rparr>) = myproc s"
  "myproc (s\<lparr>klog := x3\<rparr>) = myproc s"
  "myproc (s\<lparr>pipes := x4\<rparr>) = myproc s"
  "myproc (s\<lparr>bufs := x5\<rparr>) = myproc s"
  "myproc (s\<lparr>inodes := x6\<rparr>) = myproc s"
  "myproc (s\<lparr>files := x7\<rparr>) = myproc s"
  "myproc (s\<lparr>pmem := x8\<rparr>) = myproc s"
  "myproc (s\<lparr>freelist := x9\<rparr>) = myproc s"
  "myproc (s\<lparr>ticks := x10\<rparr>) = myproc s"
  "myproc (s\<lparr>disk := x11\<rparr>) = myproc s"
  "myproc (s\<lparr>lru_next := x12\<rparr>) = myproc s"
  "myproc (s\<lparr>lru_prev := x13\<rparr>) = myproc s"
  "myproc (upd_proc p f s) = myproc s"
  by (simp_all add: myproc_def upd_proc_def)

lemma plocks_free_insert [simp]:
  "(\<And>p. lk \<noteq> ProcLock p) \<Longrightarrow> plocks_free (s\<lparr>held := insert lk A\<rparr>) = plocks_free (s\<lparr>held := A\<rparr>)"
  by (auto simp: plocks_free_def)

lemma wake_idem [simp]: "wake c me A (wake c me A pt) = wake c me A pt"
  by (auto simp: wake_def fun_eq_iff)

lemma wake_other [simp]:
  "p_pid (wake c me ps pt p) = p_pid (pt p)"
  "p_chan (wake c me ps pt p) = p_chan (pt p)"
  "p_killed (wake c me ps pt p) = p_killed (pt p)"
  "p_parent (wake c me ps pt p) = p_parent (pt p)"
  by (simp_all add: wake_def)

subsection \<open>Sleeping and waking\<close>

lemma sleep_switch:
  assumes "myproc s = Some p" "held s = {lk}" "lk \<noteq> ProcLock p"
  shows "sleep chan lk s = Switch (upd_proc p (\<lambda>q. q\<lparr>p_chan := Some chan, p_state := SLEEPING\<rparr>)
    (s\<lparr>held := {ProcLock p}\<rparr>))"
  using assms
  by (simp add: sleep_def acquire_def release_def sched_def holding_def intr_get_def upd_proc_def
      with_proc_def insert_Diff_if)

lemma sleep_locks:
  assumes "myproc s = Some p" "finite (held s)" "lk \<in> held s" "held s \<noteq> {lk}" "ProcLock p \<notin> held s"
  shows "sleep chan lk s = Panic ''sched locks''"
proof -
  have eq: "insert (ProcLock p) (held s) - {lk} = insert (ProcLock p) (held s - {lk})"
    using assms(3,5) by auto
  have "held s - {lk} \<noteq> {}" using assms(3,4) by auto
  then have "card (insert (ProcLock p) (held s - {lk})) \<noteq> 1"
    using assms(2,5) by (simp add: card_gt_0_iff)
  then show ?thesis
    using assms eq by (simp add: sleep_def sched_def holding_def with_proc_def upd_proc_def)
qed

text \<open>\<^verbatim>\<open>wakeup(chan)\<close> makes runnable exactly the processes that sleep on
  \<^verbatim>\<open>chan\<close>, other than the caller, and changes nothing else.\<close>

lemma wakeup_exact:
  assumes "plocks_free s"
  shows "wakeup chan s = Ret () (s\<lparr>procs := \<lambda>p.
    if p < NPROC \<and> Some p \<noteq> myproc s \<and> p_state (procs s p) = SLEEPING \<and> p_chan (procs s p) = Some chan
    then (procs s p)\<lparr>p_state := RUNNABLE\<rparr> else procs s p\<rparr>)"
  using wakeup_eq [OF assms, of chan] by (simp add: wake_def)


definition sleeper :: kernel where
  "sleeper = kernel0\<lparr>held := {TicksLock}, cpus := (cpus kernel0)(0 := (cpus kernel0 0)\<lparr>c_proc := Some 5\<rparr>)\<rparr>"


text \<open>Sleeping while a second spinlock is held is caught: the kernel panics instead of
  switching away with the lock.\<close>

lemma sleep_second_lock:
  assumes "myproc s = Some p" "finite (held s)" "lk \<in> held s" "held s \<noteq> {lk}" "ProcLock p \<notin> held s"
  shows "sleep chan lk s = Panic ''sched locks''"
  by (rule sleep_locks [OF assms])

end
