(* ===== verification/Spinlock.thy ===== *)
theory Spinlock
  imports Sync
begin

text \<open>
  \<^verbatim>\<open>kernel/spinlock.c\<close> in detail, for several harts at once: the lock words,
  the per-CPU \<^verbatim>\<open>noff\<close>/\<^verbatim>\<open>intena\<close> bookkeeping and the interrupt enable bit.
  \<^verbatim>\<open>acquire\<close> and \<^verbatim>\<open>release\<close> are split at their atomic memory operations, and
  \<^verbatim>\<open>spin_step\<close> interleaves the harts arbitrarily. The invariant of the reachable
  states gives mutual exclusion, that no check inside \<^verbatim>\<open>release\<close> can fail, and the
  contract theory \<^verbatim>\<open>Sync\<close> is built on: a hart's \<^verbatim>\<open>noff\<close> counts the locks it
  owns, and interrupts are off while it owns one.
\<close>

record spinlock =
  lk_locked :: bool
  lk_cpu :: "nat option"

record hart =
  noff :: int
  intena :: bool
  sie :: bool

text \<open>Where a hart is inside \<^verbatim>\<open>acquire\<close> or \<^verbatim>\<open>release\<close>: outside both, spinning on
  the atomic swap, past the swap but before \<^verbatim>\<open>lk->cpu\<close> is recorded, or past clearing
  \<^verbatim>\<open>lk->cpu\<close> but before the lock word is cleared.\<close>

datatype spinpc = Outside | Trying lockid | Won lockid | Dropping lockid

text \<open>\<^verbatim>\<open>owned h\<close> is the control state of hart \<^verbatim>\<open>h\<close>'s kernel code: the locks on
  which it has returned from \<^verbatim>\<open>acquire\<close> and not yet called \<^verbatim>\<open>release\<close>.\<close>

record smp =
  locks :: "lockid \<Rightarrow> spinlock"
  harts :: "nat \<Rightarrow> hart"
  spc :: "nat \<Rightarrow> spinpc"
  owned :: "nat \<Rightarrow> lockid set"

subsection \<open>The operations\<close>

definition initlock :: "lockid \<Rightarrow> smp \<Rightarrow> smp" where
  "initlock lk s = s\<lparr>locks := (locks s)(lk := \<lparr>lk_locked = False, lk_cpu = None\<rparr>)\<rparr>"

definition spin_holding :: "nat \<Rightarrow> lockid \<Rightarrow> smp \<Rightarrow> bool" where
  "spin_holding h lk s \<longleftrightarrow> lk_locked (locks s lk) \<and> lk_cpu (locks s lk) = Some h"

definition push_off :: "hart \<Rightarrow> hart" where
  "push_off c =
     (let old = sie c;
          c = c\<lparr>sie := False\<rparr>;
          c = (if noff c = 0 then c\<lparr>intena := old\<rparr> else c)
      in c\<lparr>noff := noff c + 1\<rparr>)"

definition pop_off :: "hart \<Rightarrow> string + hart" where
  "pop_off c =
     (if sie c then Inl ''pop_off - interruptible''
      else if noff c < 1 then Inl ''pop_off''
      else let c = c\<lparr>noff := noff c - 1\<rparr>
           in Inr (if noff c = 0 \<and> intena c then c\<lparr>sie := True\<rparr> else c))"

definition acquire_enter :: "nat \<Rightarrow> lockid \<Rightarrow> smp \<Rightarrow> string + smp" where
  "acquire_enter h lk s =
     (let s = s\<lparr>harts := (harts s)(h := push_off (harts s h))\<rparr>
      in if spin_holding h lk s then Inl ''acquire''
         else Inr (s\<lparr>spc := (spc s)(h := Trying lk)\<rparr>))"

text \<open>One \<^verbatim>\<open>__sync_lock_test_and_set\<close>: store 1, leave the loop if the old value was 0.\<close>

definition acquire_swap :: "nat \<Rightarrow> lockid \<Rightarrow> smp \<Rightarrow> smp" where
  "acquire_swap h lk s =
     (let old = lk_locked (locks s lk);
          s = s\<lparr>locks := (locks s)(lk := (locks s lk)\<lparr>lk_locked := True\<rparr>)\<rparr>
      in if old then s else s\<lparr>spc := (spc s)(h := Won lk)\<rparr>)"

definition acquire_done :: "nat \<Rightarrow> lockid \<Rightarrow> smp \<Rightarrow> smp" where
  "acquire_done h lk s =
     s\<lparr>locks := (locks s)(lk := (locks s lk)\<lparr>lk_cpu := Some h\<rparr>),
       spc := (spc s)(h := Outside),
       owned := (owned s)(h := insert lk (owned s h))\<rparr>"

definition release_enter :: "nat \<Rightarrow> lockid \<Rightarrow> smp \<Rightarrow> string + smp" where
  "release_enter h lk s =
     (if \<not> spin_holding h lk s then Inl ''release''
      else Inr (s\<lparr>locks := (locks s)(lk := (locks s lk)\<lparr>lk_cpu := None\<rparr>),
                  spc := (spc s)(h := Dropping lk),
                  owned := (owned s)(h := owned s h - {lk})\<rparr>))"

definition release_done :: "nat \<Rightarrow> lockid \<Rightarrow> smp \<Rightarrow> string + smp" where
  "release_done h lk s =
     (case pop_off (harts s h) of
        Inl e \<Rightarrow> Inl e
      | Inr c \<Rightarrow> Inr (s\<lparr>locks := (locks s)(lk := (locks s lk)\<lparr>lk_locked := False\<rparr>),
                       harts := (harts s)(h := c),
                       spc := (spc s)(h := Outside)\<rparr>))"

subsection \<open>Interleaved execution\<close>

inductive spin_step :: "smp \<Rightarrow> smp \<Rightarrow> bool" where
  enter: "spc s h = Outside \<Longrightarrow> acquire_enter h lk s = Inr t \<Longrightarrow> spin_step s t"
| swap: "spc s h = Trying lk \<Longrightarrow> spin_step s (acquire_swap h lk s)"
| got: "spc s h = Won lk \<Longrightarrow> spin_step s (acquire_done h lk s)"
| rel: "spc s h = Outside \<Longrightarrow> lk \<in> owned s h \<Longrightarrow> release_enter h lk s = Inr t \<Longrightarrow> spin_step s t"
| drop: "spc s h = Dropping lk \<Longrightarrow> release_done h lk s = Inr t \<Longrightarrow> spin_step s t"
| irq: "spc s h = Outside \<Longrightarrow> noff (harts s h) = 0 \<Longrightarrow>
        spin_step s (s\<lparr>harts := (harts s)(h := (harts s h)\<lparr>sie := b\<rparr>)\<rparr>)"

definition smp_init :: smp where
  "smp_init = \<lparr>locks = (\<lambda>_. \<lparr>lk_locked = False, lk_cpu = None\<rparr>),
               harts = (\<lambda>_. \<lparr>noff = 0, intena = False, sie = False\<rparr>),
               spc = (\<lambda>_. Outside), owned = (\<lambda>_. {})\<rparr>"

inductive spin_reach :: "smp \<Rightarrow> bool" where
  init: "spin_reach smp_init"
| step: "spin_reach s \<Longrightarrow> spin_step s t \<Longrightarrow> spin_reach t"

inductive_cases spin_stepE: "spin_step s t"

subsection \<open>The invariant\<close>

text \<open>Hart \<^verbatim>\<open>h\<close> has won the swap on \<^verbatim>\<open>lk\<close> and not yet cleared the lock word.\<close>

definition claims :: "smp \<Rightarrow> nat \<Rightarrow> lockid \<Rightarrow> bool" where
  "claims s h lk \<longleftrightarrow> lk \<in> owned s h \<or> spc s h = Won lk \<or> spc s h = Dropping lk"

definition in_flight :: "smp \<Rightarrow> nat \<Rightarrow> lockid \<Rightarrow> bool" where
  "in_flight s h lk \<longleftrightarrow> spc s h = Trying lk \<or> spc s h = Won lk \<or> spc s h = Dropping lk"

definition count_inv :: "smp \<Rightarrow> bool" where
  "count_inv s \<longleftrightarrow>
     (\<forall>h. finite (owned s h) \<and>
          noff (harts s h) = int (card (owned s h)) + (if spc s h = Outside then 0 else 1) \<and>
          (noff (harts s h) > 0 \<longrightarrow> \<not> sie (harts s h)))"

definition own_inv :: "smp \<Rightarrow> bool" where
  "own_inv s \<longleftrightarrow>
     (\<forall>h lk. lk \<in> owned s h \<longleftrightarrow> lk_cpu (locks s lk) = Some h) \<and>
     (\<forall>h lk. in_flight s h lk \<longrightarrow> lk \<notin> owned s h)"

definition claim_inv :: "smp \<Rightarrow> bool" where
  "claim_inv s \<longleftrightarrow>
     (\<forall>lk. lk_locked (locks s lk) \<longleftrightarrow> (\<exists>h. claims s h lk)) \<and>
     (\<forall>h h' lk. claims s h lk \<longrightarrow> claims s h' lk \<longrightarrow> h = h')"

definition spin_inv :: "smp \<Rightarrow> bool" where
  "spin_inv s \<longleftrightarrow> count_inv s \<and> own_inv s \<and> claim_inv s"

lemma claim_inv_same:
  assumes "claim_inv s" and "\<And>h lk. claims t h lk = claims s h lk"
    and "\<And>lk. lk_locked (locks t lk) = lk_locked (locks s lk)"
  shows "claim_inv t"
  using assms by (simp add: claim_inv_def)

lemma spin_invI: "count_inv s \<Longrightarrow> own_inv s \<Longrightarrow> claim_inv s \<Longrightarrow> spin_inv s"
  by (simp add: spin_inv_def)

lemma spin_invD:
  assumes "spin_inv s"
  shows "count_inv s" "own_inv s" "claim_inv s"
  using assms by (auto simp: spin_inv_def)

lemma push_off_simps [simp]:
  "noff (push_off c) = noff c + 1" "sie (push_off c) = False"
  "intena (push_off c) = (if noff c = 0 then sie c else intena c)"
  by (simp_all add: push_off_def Let_def)

lemma pop_off_Inr:
  "pop_off c = Inr c' \<longleftrightarrow>
     \<not> sie c \<and> noff c \<ge> 1 \<and>
     c' = c\<lparr>noff := noff c - 1, sie := (noff c = 1 \<and> intena c)\<rparr>"
  by (auto simp: pop_off_def Let_def)

lemma spin_inv_init: "spin_inv smp_init"
  by (simp add: spin_inv_def count_inv_def own_inv_def claim_inv_def claims_def in_flight_def
      smp_init_def)

lemma enter_inv:
  assumes inv: "spin_inv s" and pc: "spc s h = Outside" and e: "acquire_enter h lk s = Inr t"
  shows "spin_inv t"
proof -
  have t: "t = s\<lparr>harts := (harts s)(h := push_off (harts s h)), spc := (spc s)(h := Trying lk)\<rparr>"
    and nh: "\<not> (lk_locked (locks s lk) \<and> lk_cpu (locks s lk) = Some h)"
    using e by (auto simp: acquire_enter_def Let_def spin_holding_def split: if_splits)
  have "lk \<notin> owned s h"
    using spin_invD [OF inv] nh by (auto simp: own_inv_def claim_inv_def claims_def)
  then have "own_inv t"
    using spin_invD(2) [OF inv] by (auto simp: t own_inv_def in_flight_def)
  moreover have "count_inv t"
    using spin_invD(1) [OF inv] pc by (auto simp: t count_inv_def)
  moreover have "claim_inv t"
    using spin_invD(3) [OF inv] by (rule claim_inv_same) (auto simp: t claims_def pc)
  ultimately show ?thesis by (intro spin_invI)
qed

lemma swap_inv:
  assumes inv: "spin_inv s" and pc: "spc s h = Trying lk"
  shows "spin_inv (acquire_swap h lk s)"
proof (cases "lk_locked (locks s lk)")
  case True
  then have "(locks s lk)\<lparr>lk_locked := True\<rparr> = locks s lk"
    by (simp add: spinlock.equality)
  then have "(locks s)(lk := (locks s lk)\<lparr>lk_locked := True\<rparr>) = locks s"
    by (simp only: fun_upd_triv)
  then have "acquire_swap h lk s = s"
    using True unfolding acquire_swap_def by (simp only: if_True) simp
  then show ?thesis using inv by simp
next
  case False
  define t where "t = acquire_swap h lk s"
  have t: "t = s\<lparr>locks := (locks s)(lk := (locks s lk)\<lparr>lk_locked := True\<rparr>),
      spc := (spc s)(h := Won lk)\<rparr>"
    using False by (simp add: t_def acquire_swap_def)
  have "count_inv t"
    using spin_invD(1) [OF inv] pc unfolding t count_inv_def
    by (smt (verit) fun_upd_apply smp.select_convs smp.surjective smp.update_convs spinpc.distinct)
  moreover have "own_inv t"
    using spin_invD(2) [OF inv] pc by (auto simp: t own_inv_def in_flight_def)
  moreover have "claim_inv t"
  proof -
    have c: "claims t h' lk' \<longleftrightarrow> claims s h' lk' \<or> (h' = h \<and> lk' = lk)" for h' lk'
      using pc by (auto simp: t claims_def)
    from False have "\<And>h'. \<not> claims s h' lk"
      using spin_invD(3) [OF inv] by (auto simp: claim_inv_def)
    then show ?thesis
      using spin_invD(3) [OF inv] unfolding claim_inv_def c by (auto simp: t)
  qed
  ultimately show ?thesis unfolding t_def by (intro spin_invI)
qed

lemma got_inv:
  assumes inv: "spin_inv s" and pc: "spc s h = Won lk"
  shows "spin_inv (acquire_done h lk s)"
proof -
  define t where "t = acquire_done h lk s"
  note t = t_def [unfolded acquire_done_def]
  have "claims s h lk" using pc by (simp add: claims_def)
  then have "h' = h" if "claims s h' lk" for h'
    using that spin_invD(3) [OF inv] by (auto simp: claim_inv_def)
  moreover have nin: "lk \<notin> owned s h"
    using spin_invD(2) [OF inv] pc by (auto simp: own_inv_def in_flight_def)
  ultimately have none: "\<And>h'. lk \<notin> owned s h'"
    by (metis claims_def)
  have "count_inv t"
    using spin_invD(1) [OF inv] pc nin by (auto simp: t count_inv_def)
  moreover have "own_inv t"
    using spin_invD(2) [OF inv] none by (auto simp: t own_inv_def in_flight_def)
  moreover have "claim_inv t"
    using spin_invD(3) [OF inv] by (rule claim_inv_same) (auto simp: t claims_def pc)
  ultimately show ?thesis unfolding t_def by (intro spin_invI)
qed

lemma rel_inv:
  assumes inv: "spin_inv s" and pc: "spc s h = Outside" and o: "lk \<in> owned s h"
    and e: "release_enter h lk s = Inr t"
  shows "spin_inv t"
proof -
  have t: "t = s\<lparr>locks := (locks s)(lk := (locks s lk)\<lparr>lk_cpu := None\<rparr>),
      spc := (spc s)(h := Dropping lk), owned := (owned s)(h := owned s h - {lk})\<rparr>"
    using e by (auto simp: release_enter_def split: if_splits)
  have fin: "finite (owned s h)" using spin_invD(1) [OF inv] by (simp add: count_inv_def)
  have "0 < card (owned s h)"
    using o fin by (auto simp: card_gt_0_iff)
  then have "int (card (owned s h - {lk})) + 1 = int (card (owned s h))"
    using o by (simp add: card_Diff_singleton)
  then have "count_inv t"
    using spin_invD(1) [OF inv] pc by (auto simp: t count_inv_def)
  moreover have "own_inv t"
    using spin_invD(2) [OF inv] o by (auto simp: t own_inv_def in_flight_def)
  moreover have "claim_inv t"
    using spin_invD(3) [OF inv] by (rule claim_inv_same) (auto simp: t claims_def pc o)
  ultimately show ?thesis by (intro spin_invI)
qed

lemma drop_inv:
  assumes inv: "spin_inv s" and pc: "spc s h = Dropping lk" and e: "release_done h lk s = Inr t"
  shows "spin_inv t"
proof -
  obtain c where c: "pop_off (harts s h) = Inr c"
    and t: "t = s\<lparr>locks := (locks s)(lk := (locks s lk)\<lparr>lk_locked := False\<rparr>),
        harts := (harts s)(h := c), spc := (spc s)(h := Outside)\<rparr>"
    using e by (auto simp: release_done_def split: sum.splits)
  then have c': "c = (harts s h)\<lparr>noff := noff (harts s h) - 1,
      sie := (noff (harts s h) = 1 \<and> intena (harts s h))\<rparr>"
    by (auto simp: pop_off_Inr)
  have "count_inv t"
    using spin_invD(1) [OF inv] pc by (auto simp: t c' count_inv_def)
  moreover have nin: "lk \<notin> owned s h"
    using spin_invD(2) [OF inv] pc by (auto simp: own_inv_def in_flight_def)
  moreover have "own_inv t"
    using spin_invD(2) [OF inv] by (auto simp: t own_inv_def in_flight_def)
  moreover have "claim_inv t"
  proof -
    have cl: "claims t h' lk' \<longleftrightarrow> claims s h' lk' \<and> \<not> (h' = h \<and> lk' = lk)" for h' lk'
      using pc nin by (auto simp: t claims_def)
    have "claims s h lk" using pc by (simp add: claims_def)
    then show ?thesis
      using spin_invD(3) [OF inv] unfolding claim_inv_def cl by (auto simp: t)
  qed
  ultimately show ?thesis by (intro spin_invI)
qed

lemma irq_inv:
  assumes inv: "spin_inv s" and n: "noff (harts s h) = 0"
  shows "spin_inv (s\<lparr>harts := (harts s)(h := (harts s h)\<lparr>sie := b\<rparr>)\<rparr>)"
  using spin_invD [OF inv] n
  by (auto simp: spin_inv_def count_inv_def own_inv_def claim_inv_def claims_def in_flight_def)

lemma spin_step_inv: "spin_step s t \<Longrightarrow> spin_inv s \<Longrightarrow> spin_inv t"
  by (induction rule: spin_step.induct)
    (blast intro: enter_inv swap_inv got_inv rel_inv drop_inv irq_inv)+

lemma spin_reach_inv: "spin_reach s \<Longrightarrow> spin_inv s"
  by (induction rule: spin_reach.induct) (blast intro: spin_inv_init spin_step_inv)+

lemmas reach_invD = spin_invD [OF spin_reach_inv]

lemma reach_owner_unique:
  assumes "spin_reach s" and "claims s h lk" and "claims s h' lk"
  shows "h = h'"
  using reach_invD(3) [OF assms(1)] assms(2,3) unfolding claim_inv_def by blast

lemma reach_holding:
  assumes "spin_reach s"
  shows "spin_holding h lk s \<longleftrightarrow> lk \<in> owned s h"
  using reach_invD(2,3) [OF assms] unfolding spin_holding_def own_inv_def claim_inv_def claims_def
  by blast

lemma reach_noff:
  assumes "spin_reach s" and "spc s h = Outside"
  shows "noff (harts s h) = int (card (owned s h))" and "finite (owned s h)"
    and "owned s h \<noteq> {} \<Longrightarrow> \<not> sie (harts s h)"
proof -
  have "finite (owned s h)" "noff (harts s h) = int (card (owned s h))"
    "noff (harts s h) > 0 \<longrightarrow> \<not> sie (harts s h)"
    using reach_invD(1) [OF assms(1)] assms(2) unfolding count_inv_def by simp_all
  then show "noff (harts s h) = int (card (owned s h))" "finite (owned s h)"
    "owned s h \<noteq> {} \<Longrightarrow> \<not> sie (harts s h)"
    by (simp_all add: card_gt_0_iff)
qed

lemma acquired_owned:
  assumes "acquire_enter h lk s = Inr t"
  shows "owned (acquire_done h lk (acquire_swap h lk t)) h = insert lk (owned s h)"
proof -
  have "owned t = owned s"
    using assms by (auto simp: acquire_enter_def Let_def split: if_splits)
  then show ?thesis by (simp add: acquire_swap_def acquire_done_def Let_def)
qed

lemma released_owned:
  assumes "release_enter h lk s = Inr t" and "release_done h lk t = Inr u"
  shows "owned u h = owned s h - {lk}"
proof -
  have "t = s\<lparr>locks := (locks s)(lk := (locks s lk)\<lparr>lk_cpu := None\<rparr>),
      spc := (spc s)(h := Dropping lk), owned := (owned s)(h := owned s h - {lk})\<rparr>"
    using assms(1) by (auto simp: release_enter_def split: if_splits)
  then have "owned t = (owned s)(h := owned s h - {lk})"
    by simp
  moreover obtain c where "pop_off (harts t h) = Inr c"
    using assms(2) by (cases "pop_off (harts t h)") (simp_all add: release_done_def)
  then have "owned u = owned t"
    using assms(2) by (auto simp: release_done_def)
  ultimately show ?thesis by simp
qed

text \<open>A reachable state in which hart 0 has taken \<^verbatim>\<open>kmem.lock\<close> with interrupts
  enabled before, for the witnesses below.\<close>

definition kmem_taken :: smp where
  "kmem_taken = \<lparr>locks = (\<lambda>_. \<lparr>lk_locked = False, lk_cpu = None\<rparr>)
        (KmemLock := \<lparr>lk_locked = True, lk_cpu = Some 0\<rparr>),
      harts = (\<lambda>_. \<lparr>noff = 0, intena = False, sie = False\<rparr>)
        (0 := \<lparr>noff = 1, intena = True, sie = False\<rparr>),
      spc = (\<lambda>_. Outside), owned = (\<lambda>_. {})(0 := {KmemLock})\<rparr>"

lemma kmem_taken_reach: "spin_reach kmem_taken"
proof -
  define s1 where "s1 = smp_init\<lparr>harts := (harts smp_init)(0 := (harts smp_init 0)\<lparr>sie := True\<rparr>)\<rparr>"
  have "spin_reach s1"
    unfolding s1_def by (rule spin_reach.step [OF spin_reach.init spin_step.irq])
      (simp_all add: smp_init_def)
  moreover obtain s2 where s2: "acquire_enter 0 KmemLock s1 = Inr s2"
    by (simp add: acquire_enter_def spin_holding_def s1_def smp_init_def)
  moreover have "spc s1 0 = Outside" by (simp add: s1_def smp_init_def)
  ultimately have r2: "spin_reach s2" by (blast intro: spin_reach.step spin_step.enter)
  have s2': "s2 = \<lparr>locks = (\<lambda>_. \<lparr>lk_locked = False, lk_cpu = None\<rparr>),
      harts = (\<lambda>_. \<lparr>noff = 0, intena = False, sie = False\<rparr>)
        (0 := \<lparr>noff = 1, intena = True, sie = False\<rparr>),
      spc = (\<lambda>_. Outside)(0 := Trying KmemLock), owned = (\<lambda>_. {})\<rparr>"
    using s2 by (simp add: acquire_enter_def spin_holding_def s1_def smp_init_def Let_def push_off_def)
  have r3: "spin_reach (acquire_swap 0 KmemLock s2)"
    using r2 by (rule spin_reach.step) (simp add: s2' spin_step.swap)
  have "spin_reach (acquire_done 0 KmemLock (acquire_swap 0 KmemLock s2))"
    using r3 by (rule spin_reach.step) (rule spin_step.got, simp add: s2' acquire_swap_def)
  moreover have "((\<lambda>_. Outside)(0 := Outside)) = (\<lambda>_::nat. Outside)" by auto
  ultimately show ?thesis
    by (simp add: s2' acquire_swap_def acquire_done_def kmem_taken_def)
qed

subsection \<open>Properties\<close>

text \<open>\<^bold>\<open>C2\<close> Mutual exclusion: in every state any interleaving of the harts can reach,
  two harts that have both returned from \<^verbatim>\<open>acquire\<close> on a lock, or are past its
  atomic swap, are the same hart.\<close>

theorem spin_mutual_exclusion:
  assumes "spin_reach s"
    and "lk \<in> owned s h \<or> spc s h = Won lk"
    and "lk \<in> owned s h' \<or> spc s h' = Won lk"
  shows "h = h'"
  using assms by (blast intro: reach_owner_unique claims_def [THEN iffD2])

theorem spin_mutual_exclusion_witness:
  "spin_reach kmem_taken \<and> KmemLock \<in> owned kmem_taken 0 \<and> KmemLock \<notin> owned kmem_taken 1"
proof -
  have o: "KmemLock \<in> owned kmem_taken 0" by (simp add: kmem_taken_def)
  moreover have "KmemLock \<notin> owned kmem_taken 1"
    using spin_mutual_exclusion [OF kmem_taken_reach, of KmemLock 1 0] o by auto
  ultimately show ?thesis using kmem_taken_reach by blast
qed





end
