(* ===== verification/Kalloc.thy ===== *)
theory Kalloc
  imports Sync
begin

text \<open>
  \<^verbatim>\<open>kernel/kalloc.c\<close>: the physical page allocator. The free list is threaded
  through the free pages themselves: the first eight bytes of a free page hold the
  address of the next one. \<^verbatim>\<open>chain\<close> reads that list out of memory, \<^verbatim>\<open>kmem_inv\<close>
  says it is a duplicate-free list of proper pages, and the lemmas show that
  \<^verbatim>\<open>kalloc\<close> pops it, \<^verbatim>\<open>kfree\<close> pushes on it, and \<^verbatim>\<open>kfreepages\<close>
  returns its length. The locale \<^verbatim>\<open>page_allocator\<close> is the interface the page-table
  code relies on.
\<close>

definition PGROUNDUP :: "u64 \<Rightarrow> u64" where
  "PGROUNDUP sz = (sz + PGSIZE - 1) AND NOT (PGSIZE - 1)"

definition PGROUNDDOWN :: "u64 \<Rightarrow> u64" where
  "PGROUNDDOWN a = a AND NOT (PGSIZE - 1)"

subsection \<open>The operations\<close>

definition kfree :: "u64 \<Rightarrow> kernel \<Rightarrow> unit kres" where
  "kfree pa s =
     (if pa mod PGSIZE \<noteq> 0 \<or> pa < ksym s Sym_end \<or> PHYSTOP \<le> pa then Panic ''kfree''
      else let s = s\<lparr>pmem := memset (pmem s) pa 1 (ucast PGSIZE)\<rparr> in
        bnd (acquire KmemLock s) (\<lambda>_ s.
        release KmemLock (s\<lparr>pmem := store64 (pmem s) pa (freelist s), freelist := pa\<rparr>)))"

definition kalloc :: "kernel \<Rightarrow> u64 kres" where
  "kalloc s =
     bnd (acquire KmemLock s) (\<lambda>_ s.
     let r = freelist s;
         s = (if r \<noteq> 0 then s\<lparr>freelist := load64 (pmem s) r\<rparr> else s) in
     bnd (release KmemLock s) (\<lambda>_ s.
     Ret r (if r \<noteq> 0 then s\<lparr>pmem := memset (pmem s) r 5 (ucast PGSIZE)\<rparr> else s)))"

definition kfreepages :: "kernel \<Rightarrow> u32 kres" where
  "kfreepages s =
     bnd (acquire KmemLock s) (\<lambda>_ s.
     loop_res (\<lambda>(r, n). r \<noteq> 0) (\<lambda>(r, n). (load64 (pmem s) r, n + 1)) (freelist s, 0) (\<lambda>(r, n).
     bnd (release KmemLock s) (\<lambda>_ s. Ret n s)))"

text \<open>The loop of \<^verbatim>\<open>freerange\<close>; the pointer comparison does not wrap around.\<close>

function freerange_loop :: "u64 \<Rightarrow> u64 \<Rightarrow> kernel \<Rightarrow> unit kres" where
  "freerange_loop p pa_end s =
     (if unat p + unat PGSIZE \<le> unat pa_end
      then bnd (kfree p s) (\<lambda>_ s. freerange_loop (p + PGSIZE) pa_end s)
      else Ret () s)"
  by pat_completeness auto
termination
proof (relation "measure (\<lambda>(p, e, s). unat e - unat p)")
  fix p pa_end :: u64 and s :: kernel and x :: unit and t :: kernel
  assume "unat p + unat PGSIZE \<le> unat pa_end"
  moreover from this have "unat (p + PGSIZE) = unat p + unat PGSIZE"
    using unat_bound [of pa_end] by (intro unat_add_lem [THEN iffD1]) simp
  ultimately show "((p + PGSIZE, pa_end, t), (p, pa_end, s)) \<in> measure (\<lambda>(p, e, s). unat e - unat p)"
    by simp
qed simp

declare freerange_loop.simps [simp del]

definition freerange :: "u64 \<Rightarrow> u64 \<Rightarrow> kernel \<Rightarrow> unit kres" where
  "freerange pa_start pa_end s = freerange_loop (PGROUNDUP pa_start) pa_end s"

definition kinit :: "kernel \<Rightarrow> unit kres" where
  "kinit s = freerange (ksym s Sym_end) PHYSTOP s"

subsection \<open>Pages\<close>

definition in_page :: "u64 \<Rightarrow> u64 \<Rightarrow> bool" where
  "in_page p a \<longleftrightarrow> unat (a - p) < 4096"

definition aligned :: "u64 \<Rightarrow> bool" where
  "aligned p \<longleftrightarrow> 4096 dvd unat p"

lemma mod_PGSIZE_aligned: "p mod PGSIZE = 0 \<longleftrightarrow> aligned p"
proof -
  have "unat (p mod PGSIZE) = unat p mod 4096" by (simp add: unat_mod)
  then show ?thesis by (simp add: aligned_def dvd_eq_mod_eq_0 flip: unat_eq_0)
qed

lemma in_page_div:
  assumes "aligned p"
  shows "in_page p a \<longleftrightarrow> unat a div 4096 = unat p div 4096"
proof -
  obtain k where k: "unat p = 4096 * k" using assms by (auto simp: aligned_def)
  have b: "unat p < 2 ^ 64" "unat a < 2 ^ 64" using unat_bound [of p] unat_bound [of a] by simp_all
  show ?thesis
  proof (cases "unat p \<le> unat a")
    case True
    then have "unat (a - p) = unat a - 4096 * k" by (simp add: unat_sub_if' k)
    moreover obtain r where "unat a = 4096 * k + r" using True k le_Suc_ex by metis
    ultimately show ?thesis using k by (simp add: in_page_def div_eq_0_iff)
  next
    case False
    then have "unat (a - p) + unat p = 2 ^ 64 + unat a"
      using b by (subst unat_sub_if') simp
    moreover have "k < 2 ^ 52" using b(1) k by simp
    then have "4096 * k + 4096 \<le> 2 ^ 64" by simp
    ultimately have "\<not> unat (a - p) < 4096" using k by linarith
    moreover have "unat a div 4096 < k" using False k by (simp add: less_mult_imp_div_less)
    ultimately show ?thesis using k by (simp add: in_page_def)
  qed
qed

lemma in_page_disjoint:
  assumes "aligned p" "aligned q" "in_page p a" "in_page q a"
  shows "p = q"
proof -
  from assms have "unat p div 4096 = unat q div 4096" by (simp add: in_page_div)
  with assms(1,2) have "unat p = unat q" by (auto simp: aligned_def)
  then show ?thesis by (simp add: word_unat_eq_iff)
qed

lemma in_page_self [simp]: "in_page p p"
  by (simp add: in_page_def)

lemma mask_12: "mask 12 = (4095 :: u64)"
  by (simp add: mask_eq_exp_minus_1)

lemma unat_PGROUNDDOWN: "unat (PGROUNDDOWN a) = unat a - unat a mod 4096"
  using unat_and_not_mask [of a 12] by (simp add: PGROUNDDOWN_def mask_12)

lemma aligned_PGROUNDDOWN [simp]: "aligned (PGROUNDDOWN a)"
  by (simp add: aligned_def unat_PGROUNDDOWN dvd_minus_mod)

lemma PGROUNDDOWN_le: "PGROUNDDOWN a \<le> a"
  by (simp add: word_le_nat_alt unat_PGROUNDDOWN)

lemma PGROUNDDOWN_off: "unat (a - PGROUNDDOWN a) = unat a mod 4096"
  using PGROUNDDOWN_le [of a] by (simp add: unat_sub unat_PGROUNDDOWN)

lemma PGROUNDDOWN_aligned [simp]: "aligned a \<Longrightarrow> PGROUNDDOWN a = a"
  by (simp add: word_unat_eq_iff unat_PGROUNDDOWN aligned_def dvd_eq_mod_eq_0)

lemma unat_PGROUNDUP:
  assumes "unat a + 4095 < 2 ^ 64"
  shows "unat (PGROUNDUP a) = (unat a + 4095) div 4096 * 4096"
proof -
  have "unat (a + 4095) = unat a + 4095"
    using assms by (subst unat_add_lem [THEN iffD1]) auto
  then have "unat (PGROUNDUP a) = (unat a + 4095) - (unat a + 4095) mod 4096"
    using unat_and_not_mask [of "a + 4095" 12] by (simp add: PGROUNDUP_def mask_12 algebra_simps)
  then show ?thesis by (simp add: minus_mod_eq_div_mult)
qed

lemma aligned_PGROUNDUP [simp]: "aligned (PGROUNDUP a)"
proof -
  have "PGROUNDUP a = PGROUNDDOWN (a + 4095)"
    by (simp add: PGROUNDUP_def PGROUNDDOWN_def algebra_simps)
  then show ?thesis by simp
qed

lemma PGROUNDUP_ge:
  assumes "unat a + 4095 < 2 ^ 64"
  shows "a \<le> PGROUNDUP a"
  using assms by (simp add: word_le_nat_alt unat_PGROUNDUP)

text \<open>A memory that differs from another one only inside a page.\<close>

definition outside :: "u64 \<Rightarrow> mem \<Rightarrow> mem \<Rightarrow> bool" where
  "outside p m m' \<longleftrightarrow> (\<forall>a. \<not> in_page p a \<longrightarrow> m' a = m a)"

lemma outside_refl [simp]: "outside p m m"
  by (simp add: outside_def)

lemma outside_trans: "outside p m m' \<Longrightarrow> outside p m' m'' \<Longrightarrow> outside p m m''"
  by (simp add: outside_def)

lemma memset_page:
  "memset m p c 4096 = (\<lambda>a. if in_page p a then c else m a)"
  by (simp add: memset_eq in_page_def)

lemma outside_memset [simp]: "outside p m (memset m p c 4096)"
  by (simp add: outside_def memset_page)

lemma outside_store64: "in_page p a \<Longrightarrow> unat (a - p) + 8 \<le> 4096 \<Longrightarrow> outside p m (store64 m a v)"
proof -
  assume a: "in_page p a" "unat (a - p) + 8 \<le> 4096"
  have "in_page p x" if "unat (x - a) < 8" for x
  proof -
    have "unat ((x - a) + (a - p)) = unat (x - a) + unat (a - p)"
      using that a by (intro unat_add_lem [THEN iffD1]) simp
    then show ?thesis using that a by (simp add: in_page_def)
  qed
  then show ?thesis by (auto simp: outside_def store64_def)
qed

lemma outside_store64_base [simp]: "outside p m (store64 m p v)"
  by (rule outside_store64) simp_all

lemma load64_outside:
  assumes "outside p m m'" and "aligned p" "aligned q" "p \<noteq> q"
    and "unat (a - q) + 8 \<le> 4096"
  shows "load64 m' a = load64 m a"
proof (rule load64_cong)
  fix x assume x: "unat (x - a) < 8"
  have "unat ((x - a) + (a - q)) = unat (x - a) + unat (a - q)"
    using x assms(5) by (intro unat_add_lem [THEN iffD1]) simp
  then have "in_page q x" using x assms(5) by (simp add: in_page_def)
  then have "\<not> in_page p x" using assms(2,3,4) in_page_disjoint by blast
  then show "m' x = m x" using assms(1) by (simp add: outside_def)
qed

text \<open>Nothing but memory contents and the head of the free list changed.\<close>

definition only_mem :: "kernel \<Rightarrow> kernel \<Rightarrow> bool" where
  "only_mem s t \<longleftrightarrow> t = s\<lparr>pmem := pmem t, freelist := freelist t\<rparr>"

lemma only_mem_upd [simp]: "only_mem s (s\<lparr>pmem := m, freelist := f\<rparr>)"
  by (simp add: only_mem_def)

lemma only_memE:
  assumes "only_mem s t"
  obtains m f where "t = s\<lparr>pmem := m, freelist := f\<rparr>"
  using assms unfolding only_mem_def by blast

lemma only_mem_refl [simp]: "only_mem s s"
  by (simp add: only_mem_def)

lemma only_mem_pmem [simp]: "only_mem s (s\<lparr>pmem := m\<rparr>)"
  by (simp add: only_mem_def)

lemma only_mem_trans [trans]: "only_mem s t \<Longrightarrow> only_mem t u \<Longrightarrow> only_mem s u"
  by (elim only_memE) simp

lemma only_memD:
  assumes "only_mem s t"
  shows "held t = held s" "ksym t = ksym s" "procs t = procs s" "myproc t = myproc s"
    "csrs t = csrs s" "tframes t = tframes s"
  using assms by (auto elim!: only_memE)

subsection \<open>The free list\<close>

fun chain :: "mem \<Rightarrow> u64 \<Rightarrow> u64 list \<Rightarrow> bool" where
  "chain m p [] \<longleftrightarrow> p = 0"
| "chain m p (x # xs) \<longleftrightarrow> p = x \<and> x \<noteq> 0 \<and> chain m (load64 m x) xs"

definition good_page :: "kernel \<Rightarrow> u64 \<Rightarrow> bool" where
  "good_page s p \<longleftrightarrow> aligned p \<and> ksym s Sym_end \<le> p \<and> p < PHYSTOP \<and> p \<noteq> 0"

definition kmem_inv :: "kernel \<Rightarrow> u64 list \<Rightarrow> bool" where
  "kmem_inv s xs \<longleftrightarrow>
     chain (pmem s) (freelist s) xs \<and> distinct xs \<and> (\<forall>p \<in> set xs. good_page s p)"

lemma chain_unique: "chain m p xs \<Longrightarrow> chain m p ys \<Longrightarrow> xs = ys"
proof (induction xs arbitrary: p ys)
  case Nil
  then show ?case by (cases ys) auto
next
  case (Cons x xs)
  then show ?case by (cases ys) auto
qed

lemma chain_outside:
  assumes "chain m p xs" "outside q m m'" "aligned q" "q \<notin> set xs" "\<forall>x \<in> set xs. aligned x"
  shows "chain m' p xs"
  using assms
proof (induction xs arbitrary: p)
  case Nil
  then show ?case by simp
next
  case (Cons x xs)
  have "load64 m' x = load64 m x"
    using Cons.prems by (intro load64_outside [of q m m' x]) auto
  then show ?case using Cons by auto
qed

lemma kmem_inv_outside:
  assumes "kmem_inv s xs" "outside q (pmem s) (pmem t)" "aligned q" "q \<notin> set xs"
    and "freelist t = freelist s" "ksym t = ksym s"
  shows "kmem_inv t xs"
  using assms chain_outside [of "pmem s" "freelist s" xs q "pmem t"]
  by (auto simp: kmem_inv_def good_page_def)

lemma kmem_inv_simps [simp]:
  "kmem_inv (s\<lparr>held := h\<rparr>) xs = kmem_inv s xs"
  "kmem_inv (s\<lparr>procs := pt\<rparr>) xs = kmem_inv s xs"
  by (simp_all add: kmem_inv_def good_page_def)

subsection \<open>The operations on the free list\<close>

lemma kfree_eq:
  assumes "good_page s p" and "KmemLock \<notin> held s"
  shows "kfree p s =
    Ret () (s\<lparr>pmem := store64 (memset (pmem s) p 1 4096) p (freelist s), freelist := p\<rparr>)"
  using assms by (auto simp: kfree_def good_page_def mod_PGSIZE_aligned)

lemma kalloc_eq:
  assumes "KmemLock \<notin> held s"
  shows "kalloc s = Ret (freelist s) (if freelist s = 0 then s
    else s\<lparr>freelist := load64 (pmem s) (freelist s), pmem := memset (pmem s) (freelist s) 5 4096\<rparr>)"
  using assms by (simp add: kalloc_def Let_def)

lemma kfree_inv:
  assumes "kmem_inv s xs" and "good_page s p" "p \<notin> set xs" and "KmemLock \<notin> held s"
  shows "returns (kfree p s) (\<lambda>_ t. kmem_inv t (p # xs) \<and> outside p (pmem s) (pmem t) \<and>
     only_mem s t)"
proof -
  define m where "m = store64 (memset (pmem s) p 1 4096) p (freelist s)"
  have out: "outside p (pmem s) m"
    unfolding m_def by (rule outside_trans [OF outside_memset outside_store64_base])
  have "chain m (freelist s) xs"
    by (rule chain_outside [OF _ out]) (use assms in \<open>auto simp: kmem_inv_def good_page_def\<close>)
  moreover have "load64 m p = freelist s" by (simp add: m_def)
  ultimately have "kmem_inv (s\<lparr>pmem := m, freelist := p\<rparr>) (p # xs)"
    using assms by (auto simp: kmem_inv_def good_page_def)
  moreover have "kfree p s = Ret () (s\<lparr>pmem := m, freelist := p\<rparr>)"
    unfolding m_def by (rule kfree_eq [OF assms(2,4)])
  ultimately show ?thesis using out by simp
qed

lemma kalloc_Cons:
  assumes "kmem_inv s (x # xs)" and "KmemLock \<notin> held s"
  shows "returns (kalloc s) (\<lambda>p t. p = x \<and> good_page s x \<and> kmem_inv t xs \<and>
     outside x (pmem s) (pmem t) \<and> (\<forall>a. in_page x a \<longrightarrow> pmem t a = 5) \<and>
     only_mem s t)"
proof -
  have f: "freelist s = x" "x \<noteq> 0" "x \<notin> set xs" "good_page s x"
    and c: "chain (pmem s) (load64 (pmem s) x) xs" "\<forall>p \<in> set xs. aligned p"
    using assms(1) by (auto simp: kmem_inv_def good_page_def)
  have "chain (memset (pmem s) x 5 4096) (load64 (pmem s) x) xs"
    by (rule chain_outside [OF c(1) outside_memset]) (use c f in \<open>auto simp: good_page_def\<close>)
  then have "kmem_inv (s\<lparr>freelist := load64 (pmem s) x, pmem := memset (pmem s) x 5 4096\<rparr>) xs"
    using assms(1) by (auto simp: kmem_inv_def good_page_def)
  moreover have "kalloc s =
      Ret x (s\<lparr>freelist := load64 (pmem s) x, pmem := memset (pmem s) x 5 4096\<rparr>)"
    using kalloc_eq [OF assms(2)] f by simp
  ultimately show ?thesis using f by (simp add: memset_page outside_def only_mem_def)
qed

lemma kalloc_Nil:
  assumes "kmem_inv s []" and "KmemLock \<notin> held s"
  shows "kalloc s = Ret 0 s"
  using assms by (simp add: kalloc_eq kmem_inv_def)

lemma count_chain:
  "chain m p xs \<Longrightarrow>
   while_option (\<lambda>(r, n). r \<noteq> 0) (\<lambda>(r, n). (load64 m r, n + 1)) (p, n :: u32) =
     Some (0, n + of_nat (length xs))"
proof (induction xs arbitrary: p n)
  case Nil
  then show ?case by (simp add: while_option_unfold)
next
  case (Cons x xs)
  then have p: "p = x" "x \<noteq> 0" "chain m (load64 m x) xs" by auto
  show ?case
    using p Cons.IH [OF p(3), of "n + 1"]
    by (subst while_option_unfold) (simp add: algebra_simps)
qed

lemma kfreepages_eq:
  assumes "kmem_inv s xs" and "KmemLock \<notin> held s"
  shows "kfreepages s = Ret (of_nat (length xs)) s"
proof -
  have "chain (pmem s) (freelist s) xs" using assms(1) by (simp add: kmem_inv_def)
  from count_chain [OF this, of 0] show ?thesis
    using assms(2) by (simp add: kfreepages_def loop_res_def)
qed

subsection \<open>Building the list at boot\<close>

lemma freerange_loop_inv:
  assumes "kmem_inv s xs" and "\<forall>x \<in> set xs. x < p" and "aligned p" and "0 < p"
    and "ksym s Sym_end \<le> p" and "KmemLock \<notin> held s" and "e \<le> PHYSTOP"
  shows "returns (freerange_loop p e s) (\<lambda>_ t. \<exists>ys. kmem_inv t (ys @ xs) \<and>
     only_mem s t \<and> length ys = (unat e - unat p) div 4096 \<and>
     set ys = {q. aligned q \<and> p \<le> q \<and> unat q + 4096 \<le> unat e})"
  using assms
proof (induction p e s arbitrary: xs rule: freerange_loop.induct)
  case (1 p e s)
  show ?case
  proof (cases "unat p + unat PGSIZE \<le> unat e")
    case False
    then have "{q. aligned q \<and> p \<le> q \<and> unat q + 4096 \<le> unat e} = {}"
      by (auto simp: word_le_nat_alt)
    with False show ?thesis
      using 1 by (subst freerange_loop.simps) (auto intro!: exI [of _ "[]"])
  next
    case True
    have e: "unat e \<le> 0x88000000" using 1 by (simp add: word_le_nat_alt)
    have n: "unat (p + PGSIZE) = unat p + 4096"
      using True unat_bound [of e] by (subst unat_add_lem [THEN iffD1]) auto
    have good: "good_page s p"
      using 1 True e by (auto simp: good_page_def word_less_nat_alt)
    moreover have "p \<notin> set xs" using 1(3) by auto
    ultimately obtain t where t: "kfree p s = Ret () t" "kmem_inv t (p # xs)"
      "only_mem s t"
      using kfree_inv [OF 1(2) _ _ 1(7), of p] by (auto simp: returns_iff)
    note tk = only_memD [OF t(3)]
    have "returns (freerange_loop (p + PGSIZE) e t) (\<lambda>_ u. \<exists>ys. kmem_inv u (ys @ (p # xs)) \<and>
       only_mem t u \<and> length ys = (unat e - unat (p + PGSIZE)) div 4096 \<and>
       set ys = {q. aligned q \<and> p + PGSIZE \<le> q \<and> unat q + 4096 \<le> unat e})"
    proof (rule 1(1) [OF True t(1,2)])
      show "\<forall>x \<in> set (p # xs). x < p + PGSIZE"
        using 1(3) n by (auto simp: word_less_nat_alt)
      show "aligned (p + PGSIZE)" using 1(4) n by (simp add: aligned_def)
      show "0 < p + PGSIZE" using n by (simp add: word_less_nat_alt)
      show "ksym t Sym_end \<le> p + PGSIZE" using 1(6) n by (simp add: tk word_le_nat_alt)
    qed (use 1 tk in simp_all)
    then obtain u ys where u: "freerange_loop (p + PGSIZE) e t = Ret () u" "kmem_inv u (ys @ p # xs)"
      "length ys = (unat e - unat (p + PGSIZE)) div 4096" "only_mem t u"
      and set_ys: "set ys = {q. aligned q \<and> p + PGSIZE \<le> q \<and> unat q + 4096 \<le> unat e}"
      by (auto simp: returns_iff)
    have step: "p \<le> q \<longleftrightarrow> q = p \<or> p + PGSIZE \<le> q" if "aligned q" for q
      using that 1(4) n by (auto simp: aligned_def word_le_nat_alt word_unat_eq_iff elim!: dvdE)
    have "set (ys @ [p]) = {q. aligned q \<and> p \<le> q \<and> unat q + 4096 \<le> unat e}"
      using set_ys step 1(4) True by auto
    moreover have "length (ys @ [p]) = (unat e - unat p) div 4096"
      using u(3) n True by (simp add: le_div_geq)
    moreover have "freerange_loop p e s = Ret () u"
      using True t(1) u(1) by (subst freerange_loop.simps) simp
    moreover have "kmem_inv u ((ys @ [p]) @ xs)" using u(2) by simp
    moreover have "only_mem s u" by (rule only_mem_trans [OF t(3) u(4)])
    ultimately show ?thesis unfolding returns_iff by blast
  qed
qed

lemma kinit_inv:
  assumes "kmem_inv s []" and "0 < ksym s Sym_end" "ksym s Sym_end \<le> PHYSTOP" and "KmemLock \<notin> held s"
  shows "returns (kinit s) (\<lambda>_ t. \<exists>xs. kmem_inv t xs \<and> only_mem s t \<and>
     length xs = (unat PHYSTOP - unat (PGROUNDUP (ksym s Sym_end))) div 4096 \<and>
     set xs = {q. aligned q \<and> ksym s Sym_end \<le> q \<and> q < PHYSTOP})"
proof -
  let ?e = "ksym s Sym_end"
  let ?p = "PGROUNDUP ?e"
  have small: "unat ?e \<le> 0x88000000" using assms(3) by (simp add: word_le_nat_alt)
  then have fit: "unat ?e + 4095 < 2 ^ 64" by simp
  have ge: "?e \<le> ?p" by (rule PGROUNDUP_ge [OF fit])
  have "0 < ?p" using ge assms(2) by simp
  then have r: "returns (freerange_loop ?p PHYSTOP s) (\<lambda>_ t. \<exists>ys. kmem_inv t (ys @ []) \<and>
     only_mem s t \<and> length ys = (unat PHYSTOP - unat ?p) div 4096 \<and>
     set ys = {q. aligned q \<and> ?p \<le> q \<and> unat q + 4096 \<le> unat PHYSTOP})"
    using assms ge by (intro freerange_loop_inv) simp_all
  have "(?p \<le> q \<and> unat q + 4096 \<le> unat PHYSTOP) = (?e \<le> q \<and> q < PHYSTOP)" if "aligned q" for q
  proof -
    obtain k where k: "unat q = 4096 * k" using \<open>aligned q\<close> by (auto simp: aligned_def)
    have "(unat ?e + 4095) div 4096 < k + 1 \<longleftrightarrow> unat ?e + 4095 < (k + 1) * 4096"
      by (rule div_less_iff_less_mult) simp
    then have "(unat ?e + 4095) div 4096 * 4096 \<le> 4096 * k \<longleftrightarrow> unat ?e \<le> 4096 * k" by auto
    then show ?thesis
      using k by (auto simp: word_le_nat_alt word_less_nat_alt unat_PGROUNDUP [OF fit])
  qed
  then have "{q. aligned q \<and> ?p \<le> q \<and> unat q + 4096 \<le> unat PHYSTOP} =
      {q. aligned q \<and> ?e \<le> q \<and> q < PHYSTOP}" by blast
  with r show ?thesis by (simp add: kinit_def freerange_def)
qed

subsection \<open>The allocator as an interface\<close>

text \<open>What the code that builds page tables and user memory relies on: an allocation
  takes the first page of a pool and touches nothing outside it, a freed page joins the
  pool, and the pool does not depend on memory outside its pages.\<close>

locale page_allocator =
  fixes alloc :: "kernel \<Rightarrow> u64 kres"
    and dealloc :: "u64 \<Rightarrow> kernel \<Rightarrow> unit kres"
    and pool :: "kernel \<Rightarrow> u64 list \<Rightarrow> bool"
  assumes alloc_empty: "pool s [] \<Longrightarrow> KmemLock \<notin> held s \<Longrightarrow> alloc s = Ret 0 s"
    and alloc_take: "pool s (x # xs) \<Longrightarrow> KmemLock \<notin> held s \<Longrightarrow>
      returns (alloc s) (\<lambda>p t. p = x \<and> pool t xs \<and> outside x (pmem s) (pmem t) \<and>
        only_mem s t)"
    and dealloc_put: "pool s xs \<Longrightarrow> good_page s p \<Longrightarrow> p \<notin> set xs \<Longrightarrow> KmemLock \<notin> held s \<Longrightarrow>
      returns (dealloc p s) (\<lambda>_ t. pool t (p # xs) \<and> outside p (pmem s) (pmem t) \<and>
        only_mem s t)"
    and pool_good: "pool s xs \<Longrightarrow> distinct xs \<and> (\<forall>p \<in> set xs. good_page s p)"
    and pool_frame: "pool s xs \<Longrightarrow> outside q (pmem s) (pmem t) \<Longrightarrow> aligned q \<Longrightarrow> q \<notin> set xs \<Longrightarrow>
      freelist t = freelist s \<Longrightarrow> ksym t = ksym s \<Longrightarrow> pool t xs"
begin

text \<open>Allocate a page and clear it: how every page table page and every user page starts.\<close>

lemma alloc_zeroed:
  assumes "pool s xs" and "KmemLock \<notin> held s"
  shows "(xs = [] \<and> alloc s = Ret 0 s) \<or>
    (\<exists>x ys t m. xs = x # ys \<and> x \<noteq> 0 \<and> good_page s x \<and> alloc s = Ret x t \<and>
       m = memset (pmem t) x 0 4096 \<and> pool (t\<lparr>pmem := m\<rparr>) ys \<and> outside x (pmem s) m \<and>
       (\<forall>a. in_page x a \<longrightarrow> m a = 0) \<and> only_mem s (t\<lparr>pmem := m\<rparr>))"
proof (cases xs)
  case Nil
  then show ?thesis using alloc_empty assms by simp
next
  case (Cons x ys)
  then obtain t where t: "alloc s = Ret x t" "pool t ys" "outside x (pmem s) (pmem t)"
    and om: "only_mem s t"
    using alloc_take [of s x ys] assms by (auto simp: returns_iff)
  have good: "good_page s x" "x \<notin> set ys" using pool_good [OF assms(1)] Cons by auto
  define m where "m = memset (pmem t) x 0 4096"
  have "pool (t\<lparr>pmem := m\<rparr>) ys"
    by (rule pool_frame [OF t(2), of x]) (use good in \<open>simp_all add: m_def good_page_def\<close>)
  moreover have "outside x (pmem s) m"
    unfolding m_def by (rule outside_trans [OF t(3) outside_memset])
  moreover have "\<forall>a. in_page x a \<longrightarrow> m a = 0" by (simp add: m_def memset_page)
  moreover have "only_mem s (t\<lparr>pmem := m\<rparr>)"
    by (rule only_mem_trans [OF om only_mem_pmem])
  moreover have "x \<noteq> 0" using good by (simp add: good_page_def)
  ultimately show ?thesis using Cons t(1) good m_def by blast
qed

text \<open>A page given back right after its allocation, as the error paths do, leaves the pool
  as it was.\<close>

lemma alloc_dealloc:
  assumes "pool s (x # xs)" and "KmemLock \<notin> held s"
  shows "returns (bnd (alloc s) (\<lambda>p t. dealloc p t))
    (\<lambda>_ u. pool u (x # xs) \<and> outside x (pmem s) (pmem u))"
proof -
  obtain t where t: "alloc s = Ret x t" "pool t xs" "outside x (pmem s) (pmem t)"
    and om: "only_mem s t"
    using alloc_take [OF assms] by (auto simp: returns_iff)
  have "good_page t x" "x \<notin> set xs" "KmemLock \<notin> held t"
    using pool_good [OF assms(1)] assms(2) only_memD [OF om] by (auto simp: good_page_def)
  from dealloc_put [OF t(2) this] show ?thesis
    unfolding t(1) bnd.simps by (rule returns_weaken) (use t(3) outside_trans in blast)
qed

end

interpretation kmem: page_allocator kalloc kfree kmem_inv
proof
  show "distinct xs \<and> (\<forall>p \<in> set xs. good_page s p)" if "kmem_inv s xs" for s xs
    using that by (simp add: kmem_inv_def)
  show "returns (kalloc s) (\<lambda>p t. p = x \<and> kmem_inv t xs \<and> outside x (pmem s) (pmem t) \<and>
      only_mem s t)"
    if "kmem_inv s (x # xs)" "KmemLock \<notin> held s" for s x xs
    using kalloc_Cons [OF that] by (rule returns_weaken) blast
  show "returns (kfree p s) (\<lambda>_ t. kmem_inv t (p # xs) \<and> outside p (pmem s) (pmem t) \<and>
      only_mem s t)"
    if "kmem_inv s xs" "good_page s p" "p \<notin> set xs" "KmemLock \<notin> held s" for s xs p
    using kfree_inv [OF that] by (rule returns_weaken) blast
  show "kalloc s = Ret 0 s" if "kmem_inv s []" "KmemLock \<notin> held s" for s
    by (rule kalloc_Nil [OF that])
  show "kmem_inv t xs"
    if "kmem_inv s xs" "outside q (pmem s) (pmem t)" "aligned q" "q \<notin> set xs"
      "freelist t = freelist s" "ksym t = ksym s" for s t xs q
    by (rule kmem_inv_outside [OF that])
qed

subsection \<open>Properties\<close>

lemma load64_zero [simp]: "load64 (\<lambda>_. 0) a = 0"
  by (rule bit_word_eqI) (simp add: load64_def bit_le_word)

lemma aligned_numeral: "aligned (numeral n) \<longleftrightarrow> unat (numeral n :: u64) mod 4096 = 0"
  by (simp add: aligned_def dvd_eq_mod_eq_0)

text \<open>One free page at \<^verbatim>\<open>0x80001000\<close>, everything else as at boot.\<close>

lemma one_page_inv: "kmem_inv (kernel0\<lparr>freelist := 0x80001000\<rparr>) [0x80001000]"
  by (simp add: kmem_inv_def good_page_def kernel0_def aligned_numeral)

text \<open>\<^bold>\<open>C5\<close> \<^verbatim>\<open>kalloc\<close> on a well-formed free list: with no page left it returns
  null and changes nothing; otherwise it returns the first page, which is a page between
  \<^verbatim>\<open>end\<close> and \<^verbatim>\<open>PHYSTOP\<close>, leaves the rest of the list well-formed, fills the
  page with 5s, writes nowhere outside it, and changes no other part of the kernel.\<close>

theorem kalloc_pops:
  assumes "kmem_inv s xs" and "KmemLock \<notin> held s"
  shows "case xs of
      [] \<Rightarrow> kalloc s = Ret 0 s
    | x # ys \<Rightarrow> returns (kalloc s) (\<lambda>p t. p = x \<and> good_page s x \<and> kmem_inv t ys \<and>
        outside x (pmem s) (pmem t) \<and> (\<forall>a. in_page x a \<longrightarrow> pmem t a = 5) \<and>
        only_mem s t)"
proof (cases xs)
  case Nil
  then show ?thesis using kmem.alloc_empty assms by simp
next
  case (Cons x ys)
  then show ?thesis using kalloc_Cons [of s x ys] assms by simp
qed

theorem kalloc_pops_witness:
  "returns (kalloc (kernel0\<lparr>freelist := 0x80001000\<rparr>)) (\<lambda>p t. p = 0x80001000 \<and> kmem_inv t [])"
  using kalloc_pops [OF one_page_inv] by (auto simp: kernel0_def intro: returns_weaken)

text \<open>\<^bold>\<open>C23\<close> \<^verbatim>\<open>kfree\<close>: an address that is not a page between \<^verbatim>\<open>end\<close> and
  \<^verbatim>\<open>PHYSTOP\<close> is refused with a panic; a page that is not already free becomes the
  head of the free list, which stays well-formed, and nothing outside that page
  changes.\<close>

theorem kfree_pushes:
  assumes "kmem_inv s xs" and "KmemLock \<notin> held s" and "0 < ksym s Sym_end" and "p \<notin> set xs"
  shows "if aligned p \<and> ksym s Sym_end \<le> p \<and> p < PHYSTOP
    then returns (kfree p s) (\<lambda>_ t. kmem_inv t (p # xs) \<and> outside p (pmem s) (pmem t) \<and>
      only_mem s t)
    else kfree p s = Panic ''kfree''"
proof (cases "aligned p \<and> ksym s Sym_end \<le> p \<and> p < PHYSTOP")
  case True
  then have "good_page s p" using assms(3) by (auto simp: good_page_def)
  from kmem.dealloc_put [OF assms(1) this assms(4,2)] show ?thesis using True by simp
next
  case False
  then show ?thesis by (auto simp: kfree_def mod_PGSIZE_aligned)
qed

definition kernel1 :: kernel where
  "kernel1 = kernel0\<lparr>ksym := \<lambda>_. 0x80021000\<rparr>"

lemma kernel1_empty: "kmem_inv kernel1 []" "KmemLock \<notin> held kernel1" "0 < ksym kernel1 Sym_end"
  "ksym kernel1 Sym_end \<le> PHYSTOP"
  by (simp_all add: kmem_inv_def kernel1_def kernel0_def)

theorem kfree_pushes_witness:
  "returns (kfree 0x80022000 kernel1) (\<lambda>_ t. kmem_inv t [0x80022000])"
  using kfree_pushes [OF kernel1_empty(1,2,3), where p = "0x80022000"]
  by (auto simp: kernel1_def aligned_numeral intro: returns_weaken)

text \<open>\<^bold>\<open>C24\<close> After \<^verbatim>\<open>kinit\<close> the free list holds exactly the aligned pages between
  \<^verbatim>\<open>end\<close> and \<^verbatim>\<open>PHYSTOP\<close>, and \<^verbatim>\<open>kfreepages\<close> (the free page count of
  \<^verbatim>\<open>getsyshealth\<close>) returns their number.\<close>

theorem kinit_kfreepages:
  assumes "kmem_inv s []" and "0 < ksym s Sym_end" "ksym s Sym_end \<le> PHYSTOP" and "KmemLock \<notin> held s"
  shows "returns (kinit s) (\<lambda>_ t. \<exists>xs. kmem_inv t xs \<and>
     set xs = {q. aligned q \<and> ksym s Sym_end \<le> q \<and> q < PHYSTOP} \<and>
     kfreepages t = Ret (of_nat (card {q. aligned q \<and> ksym s Sym_end \<le> q \<and> q < PHYSTOP})) t)"
proof -
  obtain t xs where t: "kinit s = Ret () t" "kmem_inv t xs" "only_mem s t"
    "set xs = {q. aligned q \<and> ksym s Sym_end \<le> q \<and> q < PHYSTOP}"
    using kinit_inv [OF assms] by (auto simp: returns_iff)
  have "kfreepages t = Ret (of_nat (length xs)) t"
    using t(2) only_memD(1) [OF t(3)] assms(4) by (intro kfreepages_eq) simp_all
  moreover have "length xs = card {q. aligned q \<and> ksym s Sym_end \<le> q \<and> q < PHYSTOP}"
    using t(2,4) by (metis distinct_card kmem_inv_def)
  ultimately show ?thesis unfolding t(1) returns_Ret using t(2,4) by metis
qed

theorem kinit_kfreepages_witness:
  "returns (kinit kernel1) (\<lambda>_ t. \<exists>xs. kmem_inv t xs \<and> 0x80021000 \<in> set xs \<and> 0x87FFF000 \<in> set xs)"
  using kinit_kfreepages [OF kernel1_empty(1,3,4,2)]
  by (rule returns_weaken) (auto simp: kernel1_def aligned_numeral)

end
