(* ===== verification/Vm.thy ===== *)
theory Vm
  imports Kalloc
begin

text \<open>
  \<^verbatim>\<open>kernel/vm.c\<close> over byte-addressed physical memory: Sv39 page tables built and
  walked in memory, user address spaces, copying between kernel and user space, and
  lazy allocation on a fault. The page-table macros are those of \<^verbatim>\<open>riscv.h\<close>.
  \<^verbatim>\<open>pt_tree\<close> describes a page table whose pages do not overlap; on such a table the
  lemmas read \<^verbatim>\<open>walk\<close>, \<^verbatim>\<open>mappages\<close>, \<^verbatim>\<open>copyin\<close> and \<^verbatim>\<open>copyout\<close> as
  operations on the map from virtual pages to page-table entries.
\<close>

unbundle bit_operations_syntax

subsection \<open>Page-table entries (riscv.h)\<close>

abbreviation (input) PTE_V :: u64 where "PTE_V \<equiv> 1"
abbreviation (input) PTE_R :: u64 where "PTE_R \<equiv> 2"
abbreviation (input) PTE_W :: u64 where "PTE_W \<equiv> 4"
abbreviation (input) PTE_X :: u64 where "PTE_X \<equiv> 8"
abbreviation (input) PTE_U :: u64 where "PTE_U \<equiv> 16"

definition PA2PTE :: "u64 \<Rightarrow> u64" where
  "PA2PTE pa = push_bit 10 (drop_bit 12 pa)"

definition PTE2PA :: "u64 \<Rightarrow> u64" where
  "PTE2PA pte = push_bit 12 (drop_bit 10 pte)"

definition PTE_FLAGS :: "u64 \<Rightarrow> u64" where
  "PTE_FLAGS pte = pte AND 0x3FF"

definition PX :: "nat \<Rightarrow> u64 \<Rightarrow> u64" where
  "PX level va = drop_bit (12 + 9 * level) va AND 0x1FF"

definition MAKE_SATP :: "u64 \<Rightarrow> u64" where
  "MAKE_SATP pagetable = push_bit 60 8 OR drop_bit 12 pagetable"

subsection \<open>Walking and mapping\<close>

text \<open>The loop of \<^verbatim>\<open>walk\<close>, from the given level down to level 0.\<close>

fun walk_loop :: "nat \<Rightarrow> u64 \<Rightarrow> u64 \<Rightarrow> bool \<Rightarrow> kernel \<Rightarrow> u64 kres" where
  "walk_loop 0 pagetable va alloc s = Ret (pagetable + 8 * PX 0 va) s"
| "walk_loop (Suc level) pagetable va alloc s =
     (let pte = pagetable + 8 * PX (Suc level) va in
      if load64 (pmem s) pte AND PTE_V \<noteq> 0
      then walk_loop level (PTE2PA (load64 (pmem s) pte)) va alloc s
      else if \<not> alloc then Ret 0 s
      else bnd (kalloc s) (\<lambda>pg s.
        if pg = 0 then Ret 0 s
        else let s = s\<lparr>pmem := memset (pmem s) pg 0 4096\<rparr>;
                 s = s\<lparr>pmem := store64 (pmem s) pte (PA2PTE pg OR PTE_V)\<rparr>
             in walk_loop level pg va alloc s))"

definition walk :: "u64 \<Rightarrow> u64 \<Rightarrow> bool \<Rightarrow> kernel \<Rightarrow> u64 kres" where
  "walk pagetable va alloc s =
     (if MAXVA \<le> va then Panic ''walk'' else walk_loop 2 pagetable va alloc s)"

definition walkaddr :: "u64 \<Rightarrow> u64 \<Rightarrow> kernel \<Rightarrow> u64 kres" where
  "walkaddr pagetable va s =
     (if MAXVA \<le> va then Ret 0 s
      else bnd (walk pagetable va False s) (\<lambda>pte s.
        if pte = 0 then Ret 0 s
        else let e = load64 (pmem s) pte in
          if e AND PTE_V = 0 then Ret 0 s
          else if e AND PTE_U = 0 then Ret 0 s
          else Ret (PTE2PA e) s))"

lemma walk_Ret_bound: "walk pagetable va alloc s = Ret x t \<Longrightarrow> va < MAXVA"
  by (auto simp: walk_def split: if_splits)

lemma page_step_measure:
  assumes "(a :: u64) < MAXVA"
  shows "unat MAXVA - unat (a + PGSIZE) < unat MAXVA - unat a"
proof -
  have "unat a < 0x4000000000" using assms by (simp add: word_less_nat_alt)
  moreover from this have "unat (a + PGSIZE) = unat a + 4096"
    by (subst unat_add_lem [THEN iffD1]) auto
  ultimately show ?thesis by simp
qed

function mappages_loop :: "u64 \<Rightarrow> u64 \<Rightarrow> u64 \<Rightarrow> u64 \<Rightarrow> u64 \<Rightarrow> kernel \<Rightarrow> i32 kres" where
  "mappages_loop pagetable a lastpg pa perm s =
     bnd (walk pagetable a True s) (\<lambda>pte s.
     if pte = 0 then Ret (-1) s
     else if load64 (pmem s) pte AND PTE_V \<noteq> 0 then Panic ''mappages: remap''
     else let s = s\<lparr>pmem := store64 (pmem s) pte (PA2PTE pa OR perm OR PTE_V)\<rparr> in
       if a = lastpg then Ret 0 s
       else mappages_loop pagetable (a + PGSIZE) lastpg (pa + PGSIZE) perm s)"
  by pat_completeness auto
termination
  by (relation "measure (\<lambda>(pt, a, l, pa, pm, s). unat MAXVA - unat a)")
    (use walk_Ret_bound page_step_measure in auto)

declare mappages_loop.simps [simp del]

definition mappages :: "u64 \<Rightarrow> u64 \<Rightarrow> u64 \<Rightarrow> u64 \<Rightarrow> u64 \<Rightarrow> kernel \<Rightarrow> i32 kres" where
  "mappages pagetable va sz pa perm s =
     (if va mod PGSIZE \<noteq> 0 then Panic ''mappages: va not aligned''
      else if sz mod PGSIZE \<noteq> 0 then Panic ''mappages: size not aligned''
      else if sz = 0 then Panic ''mappages: size''
      else mappages_loop pagetable va (va + sz - PGSIZE) pa perm s)"

lemma mappages_Ret_bound: "mappages pagetable va sz pa perm s = Ret x t \<Longrightarrow> va < MAXVA"
  unfolding mappages_def
  by (auto simp: mappages_loop.simps [of pagetable va] walk_def split: if_splits)

definition uvmcreate :: "kernel \<Rightarrow> u64 kres" where
  "uvmcreate s =
     bnd (kalloc s) (\<lambda>pagetable s.
     if pagetable = 0 then Ret 0 s
     else Ret pagetable (s\<lparr>pmem := memset (pmem s) pagetable 0 4096\<rparr>))"

subsection \<open>Unmapping, growing and shrinking\<close>

function uvmunmap_loop :: "u64 \<Rightarrow> u64 \<Rightarrow> u64 \<Rightarrow> bool \<Rightarrow> kernel \<Rightarrow> unit kres" where
  "uvmunmap_loop pagetable a lim do_free s =
     (if a < lim then
        bnd (walk pagetable a False s) (\<lambda>pte s.
        if pte = 0 \<or> load64 (pmem s) pte AND PTE_V = 0
        then uvmunmap_loop pagetable (a + PGSIZE) lim do_free s
        else bnd (if do_free then kfree (PTE2PA (load64 (pmem s) pte)) s else Ret () s) (\<lambda>_ s.
          uvmunmap_loop pagetable (a + PGSIZE) lim do_free
            (s\<lparr>pmem := store64 (pmem s) pte 0\<rparr>)))
      else Ret () s)"
  by pat_completeness auto
termination
  by (relation "measure (\<lambda>(pt, a, l, f, s). unat MAXVA - unat a)")
    (use walk_Ret_bound page_step_measure in auto)

declare uvmunmap_loop.simps [simp del]

definition uvmunmap :: "u64 \<Rightarrow> u64 \<Rightarrow> u64 \<Rightarrow> bool \<Rightarrow> kernel \<Rightarrow> unit kres" where
  "uvmunmap pagetable va npages do_free s =
     (if va mod PGSIZE \<noteq> 0 then Panic ''uvmunmap: not aligned''
      else uvmunmap_loop pagetable va (va + npages * PGSIZE) do_free s)"

text \<open>\<^verbatim>\<open>int npages\<close> truncates the page count to 32 bits before it is widened again.\<close>

definition uvmdealloc :: "u64 \<Rightarrow> u64 \<Rightarrow> u64 \<Rightarrow> kernel \<Rightarrow> u64 kres" where
  "uvmdealloc pagetable oldsz newsz s =
     (if newsz \<ge> oldsz then Ret oldsz s
      else bnd (if PGROUNDUP newsz < PGROUNDUP oldsz
                then let npages = (ucast ((PGROUNDUP oldsz - PGROUNDUP newsz) div PGSIZE) :: i32)
                     in uvmunmap pagetable (PGROUNDUP newsz) (scast npages) True s
                else Ret () s) (\<lambda>_ s.
        Ret newsz s))"

function uvmalloc_loop :: "u64 \<Rightarrow> u64 \<Rightarrow> u64 \<Rightarrow> u64 \<Rightarrow> u64 \<Rightarrow> kernel \<Rightarrow> u64 kres" where
  "uvmalloc_loop pagetable a oldsz newsz xperm s =
     (if a < newsz then
        bnd (kalloc s) (\<lambda>mem s.
        if mem = 0 then bnd (uvmdealloc pagetable a oldsz s) (\<lambda>_ s. Ret 0 s)
        else let s = s\<lparr>pmem := memset (pmem s) mem 0 4096\<rparr> in
          bnd (mappages pagetable a PGSIZE mem (PTE_R OR PTE_U OR xperm) s) (\<lambda>r s.
          if r \<noteq> 0
          then bnd (kfree mem s) (\<lambda>_ s. bnd (uvmdealloc pagetable a oldsz s) (\<lambda>_ s. Ret 0 s))
          else uvmalloc_loop pagetable (a + PGSIZE) oldsz newsz xperm s))
      else Ret newsz s)"
  by pat_completeness auto
termination
  by (relation "measure (\<lambda>(pt, a, os, n, x, s). unat MAXVA - unat a)")
    (use mappages_Ret_bound page_step_measure in auto)

declare uvmalloc_loop.simps [simp del]

definition uvmalloc :: "u64 \<Rightarrow> u64 \<Rightarrow> u64 \<Rightarrow> u64 \<Rightarrow> kernel \<Rightarrow> u64 kres" where
  "uvmalloc pagetable oldsz newsz xperm s =
     (if newsz < oldsz then Ret oldsz s
      else let oldsz = PGROUNDUP oldsz in uvmalloc_loop pagetable oldsz oldsz newsz xperm s)"

text \<open>\<^verbatim>\<open>freewalk\<close> recurses into the children of a page-table page. The first argument
  bounds the depth of the recursion; a three-level table needs three.\<close>

function freewalk :: "nat \<Rightarrow> u64 \<Rightarrow> kernel \<Rightarrow> unit kres"
  and freewalk_entries :: "nat \<Rightarrow> u64 \<Rightarrow> nat list \<Rightarrow> kernel \<Rightarrow> unit kres" where
  "freewalk 0 pagetable s = Diverge"
| "freewalk (Suc d) pagetable s =
     bnd (freewalk_entries d pagetable [0..<512] s) (\<lambda>_ s. kfree pagetable s)"
| "freewalk_entries d pagetable [] s = Ret () s"
| "freewalk_entries d pagetable (i # is) s =
     (let pte = load64 (pmem s) (pagetable + 8 * of_nat i) in
      if pte AND PTE_V \<noteq> 0 \<and> pte AND (PTE_R OR PTE_W OR PTE_X) = 0 then
        bnd (freewalk d (PTE2PA pte) s) (\<lambda>_ s.
        freewalk_entries d pagetable is
          (s\<lparr>pmem := store64 (pmem s) (pagetable + 8 * of_nat i) 0\<rparr>))
      else if pte AND PTE_V \<noteq> 0 then Panic ''freewalk: leaf''
      else freewalk_entries d pagetable is s)"
  by pat_completeness auto
termination
  by (relation "measures [\<lambda>x. case x of Inl (d, p, s) \<Rightarrow> 2 * d | Inr (d, p, is, s) \<Rightarrow> 2 * d + 1,
      \<lambda>x. case x of Inl _ \<Rightarrow> 0 | Inr (d, p, is, s) \<Rightarrow> length is]") auto

definition uvmfree :: "u64 \<Rightarrow> u64 \<Rightarrow> kernel \<Rightarrow> unit kres" where
  "uvmfree pagetable sz s =
     bnd (if sz > 0 then uvmunmap pagetable 0 (PGROUNDUP sz div PGSIZE) True s else Ret () s) (\<lambda>_ s.
     freewalk 3 pagetable s)"

definition uvmcopy_err :: "u64 \<Rightarrow> u64 \<Rightarrow> kernel \<Rightarrow> i32 kres" where
  "uvmcopy_err new i s = bnd (uvmunmap new 0 (i div PGSIZE) True s) (\<lambda>_ s. Ret (-1) s)"

function uvmcopy_loop :: "u64 \<Rightarrow> u64 \<Rightarrow> u64 \<Rightarrow> u64 \<Rightarrow> kernel \<Rightarrow> i32 kres" where
  "uvmcopy_loop old new sz i s =
     (if i < sz then
        bnd (walk old i False s) (\<lambda>pte s.
        if pte = 0 \<or> load64 (pmem s) pte AND PTE_V = 0
        then uvmcopy_loop old new sz (i + PGSIZE) s
        else let pa = PTE2PA (load64 (pmem s) pte); flags = PTE_FLAGS (load64 (pmem s) pte) in
          bnd (kalloc s) (\<lambda>mem s.
          if mem = 0 then uvmcopy_err new i s
          else let s = s\<lparr>pmem := memmove (pmem s) mem pa 4096\<rparr> in
            bnd (mappages new i PGSIZE mem flags s) (\<lambda>r s.
            if r \<noteq> 0 then bnd (kfree mem s) (\<lambda>_ s. uvmcopy_err new i s)
            else uvmcopy_loop old new sz (i + PGSIZE) s)))
      else Ret 0 s)"
  by pat_completeness auto
termination
  by (relation "measure (\<lambda>(old, new, sz, i, s). unat MAXVA - unat i)")
    (use walk_Ret_bound page_step_measure in auto)

declare uvmcopy_loop.simps [simp del]

definition uvmcopy :: "u64 \<Rightarrow> u64 \<Rightarrow> u64 \<Rightarrow> kernel \<Rightarrow> i32 kres" where
  "uvmcopy old new sz s = uvmcopy_loop old new sz 0 s"

definition uvmclear :: "u64 \<Rightarrow> u64 \<Rightarrow> kernel \<Rightarrow> unit kres" where
  "uvmclear pagetable va s =
     bnd (walk pagetable va False s) (\<lambda>pte s.
     if pte = 0 then Panic ''uvmclear''
     else Ret () (s\<lparr>pmem := store64 (pmem s) pte (load64 (pmem s) pte AND NOT PTE_U)\<rparr>))"

subsection \<open>Lazy allocation\<close>

definition ismapped :: "u64 \<Rightarrow> u64 \<Rightarrow> kernel \<Rightarrow> bool kres" where
  "ismapped pagetable va s =
     bnd (walk pagetable va False s) (\<lambda>pte s.
     if pte = 0 then Ret False s
     else if load64 (pmem s) pte AND PTE_V \<noteq> 0 then Ret True s
     else Ret False s)"

definition vmfault :: "u64 \<Rightarrow> u64 \<Rightarrow> bool \<Rightarrow> kernel \<Rightarrow> u64 kres" where
  "vmfault pagetable va read s = with_proc s (\<lambda>p.
     if va \<ge> p_sz (procs s p) then Ret 0 s
     else let va = PGROUNDDOWN va in
       bnd (ismapped pagetable va s) (\<lambda>b s.
       if b then Ret 0 s
       else bnd (kalloc s) (\<lambda>mem s.
         if mem = 0 then Ret 0 s
         else let s = s\<lparr>pmem := memset (pmem s) mem 0 4096\<rparr> in
           bnd (mappages (p_pagetable (procs s p)) va PGSIZE mem (PTE_W OR PTE_U OR PTE_R) s) (\<lambda>r s.
           if r \<noteq> 0 then bnd (kfree mem s) (\<lambda>_ s. Ret 0 s)
           else Ret mem s))))"

subsection \<open>Copying between kernel and user space\<close>

text \<open>A kernel buffer is the list of its bytes. \<^verbatim>\<open>write_bytes\<close> and \<^verbatim>\<open>read_bytes\<close>
  are the \<^verbatim>\<open>memmove\<close> between such a buffer and physical memory.\<close>

definition write_bytes :: "mem \<Rightarrow> u64 \<Rightarrow> u8 list \<Rightarrow> mem" where
  "write_bytes m a bs = (\<lambda>x. if unat (x - a) < length bs then bs ! unat (x - a) else m x)"

definition read_bytes :: "mem \<Rightarrow> u64 \<Rightarrow> nat \<Rightarrow> u8 list" where
  "read_bytes m a n = map (\<lambda>i. m (a + of_nat i)) [0..<n]"

text \<open>How many bytes of a transfer fall into the page of \<^verbatim>\<open>va\<close>:
  \<^verbatim>\<open>n = PGSIZE - (va - va0); if(n > len) n = len\<close>.\<close>

definition page_chunk :: "u64 \<Rightarrow> nat \<Rightarrow> nat" where
  "page_chunk va len = (let n = unat (PGSIZE - (va - PGROUNDDOWN va)) in if n > len then len else n)"

lemma page_chunk_eq: "page_chunk va len = min (4096 - unat va mod 4096) len"
proof -
  have "va - PGROUNDDOWN va \<le> PGSIZE"
    by (simp add: word_le_nat_alt PGROUNDDOWN_off less_imp_le)
  then have "unat (PGSIZE - (va - PGROUNDDOWN va)) = 4096 - unat va mod 4096"
    by (simp add: unat_sub PGROUNDDOWN_off)
  then show ?thesis by (simp add: page_chunk_def Let_def min_def)
qed

lemma page_chunk_pos [simp]: "0 < len \<Longrightarrow> 0 < page_chunk va len"
  by (simp add: page_chunk_eq)

lemma page_chunk_le [simp]: "page_chunk va len \<le> len"
  by (simp add: page_chunk_eq)

function copyout :: "u64 \<Rightarrow> u64 \<Rightarrow> u8 list \<Rightarrow> kernel \<Rightarrow> i32 kres" where
  "copyout pagetable dstva src s =
     (if length src > 0 then
        let va0 = PGROUNDDOWN dstva in
        if va0 \<ge> MAXVA then Ret (-1) s
        else bnd (walkaddr pagetable va0 s) (\<lambda>pa0 s.
          bnd (if pa0 = 0 then vmfault pagetable va0 False s else Ret pa0 s) (\<lambda>pa0 s.
          if pa0 = 0 then Ret (-1) s
          else bnd (walk pagetable va0 False s) (\<lambda>pte s.
            if pte = 0 then Panic ''kerneltrap''
            else if load64 (pmem s) pte AND PTE_W = 0 then Ret (-1) s
            else let n = page_chunk dstva (length src);
                     s = s\<lparr>pmem := write_bytes (pmem s) (pa0 + (dstva - va0)) (take n src)\<rparr>
                 in copyout pagetable (va0 + PGSIZE) (drop n src) s)))
      else Ret 0 s)"
  by pat_completeness auto
termination
  by (relation "measure (\<lambda>(pt, va, src, s). length src)") auto

declare copyout.simps [simp del]

text \<open>\<^verbatim>\<open>copyin\<close> returns its status and the bytes it stored at \<^verbatim>\<open>dst\<close>.\<close>

function copyin :: "u64 \<Rightarrow> u64 \<Rightarrow> nat \<Rightarrow> kernel \<Rightarrow> (i32 \<times> u8 list) kres" where
  "copyin pagetable srcva len s =
     (if len > 0 then
        let va0 = PGROUNDDOWN srcva in
        bnd (walkaddr pagetable va0 s) (\<lambda>pa0 s.
        bnd (if pa0 = 0 then vmfault pagetable va0 False s else Ret pa0 s) (\<lambda>pa0 s.
        if pa0 = 0 then Ret (-1, []) s
        else let n = page_chunk srcva len;
                 bs = read_bytes (pmem s) (pa0 + (srcva - va0)) n
             in bnd (copyin pagetable (va0 + PGSIZE) (len - n) s) (\<lambda>(r, cs) s.
                Ret (r, bs @ cs) s)))
      else Ret (0, []) s)"
  by pat_completeness auto
termination
  by (relation "measure (\<lambda>(pt, va, len, s). len)") auto

declare copyin.simps [simp del]

text \<open>The inner loop of \<^verbatim>\<open>copyinstr\<close>: whether it met the NUL, and the bytes it stored.\<close>

fun copyinstr_page :: "mem \<Rightarrow> u64 \<Rightarrow> nat \<Rightarrow> bool \<times> u8 list" where
  "copyinstr_page m p 0 = (False, [])"
| "copyinstr_page m p (Suc n) =
     (if m p = 0 then (True, [0])
      else let (got_null, bs) = copyinstr_page m (p + 1) n in (got_null, m p # bs))"

function copyinstr :: "u64 \<Rightarrow> u64 \<Rightarrow> nat \<Rightarrow> kernel \<Rightarrow> (i32 \<times> u8 list) kres" where
  "copyinstr pagetable srcva mx s =
     (if mx > 0 then
        let va0 = PGROUNDDOWN srcva in
        bnd (walkaddr pagetable va0 s) (\<lambda>pa0 s.
        if pa0 = 0 then Ret (-1, []) s
        else let n = page_chunk srcva mx;
                 (got_null, bs) = copyinstr_page (pmem s) (pa0 + (srcva - va0)) n
             in if got_null then Ret (0, bs) s
                else bnd (copyinstr pagetable (va0 + PGSIZE) (mx - n) s) (\<lambda>(r, cs) s.
                  Ret (r, bs @ cs) s))
      else Ret (-1, []) s)"
  by pat_completeness auto
termination
  by (relation "measure (\<lambda>(pt, va, mx, s). mx)") auto

declare copyinstr.simps [simp del]

subsection \<open>The kernel's own page table\<close>

definition kvmmap :: "u64 \<Rightarrow> u64 \<Rightarrow> u64 \<Rightarrow> u64 \<Rightarrow> u64 \<Rightarrow> kernel \<Rightarrow> unit kres" where
  "kvmmap kpgtbl va pa sz perm s =
     bnd (mappages kpgtbl va sz pa perm s) (\<lambda>r s.
     if r \<noteq> 0 then Panic ''kvmmap'' else Ret () s)"

fun proc_mapstacks_loop :: "u64 \<Rightarrow> nat list \<Rightarrow> kernel \<Rightarrow> unit kres" where
  "proc_mapstacks_loop kpgtbl [] s = Ret () s"
| "proc_mapstacks_loop kpgtbl (p # ps) s =
     bnd (kalloc s) (\<lambda>pa s.
     if pa = 0 then Panic ''kalloc''
     else bnd (kvmmap kpgtbl (KSTACK p) pa PGSIZE (PTE_R OR PTE_W) s) (\<lambda>_ s.
       proc_mapstacks_loop kpgtbl ps s))"

definition proc_mapstacks :: "u64 \<Rightarrow> kernel \<Rightarrow> unit kres" where
  "proc_mapstacks kpgtbl s = proc_mapstacks_loop kpgtbl [0..<NPROC] s"

definition kvmmake :: "kernel \<Rightarrow> u64 kres" where
  "kvmmake s =
     bnd (kalloc s) (\<lambda>kpgtbl s.
     let s = s\<lparr>pmem := memset (pmem s) kpgtbl 0 4096\<rparr>;
         etext = ksym s Sym_etext in
     bnd (kvmmap kpgtbl 0x10000000 0x10000000 PGSIZE (PTE_R OR PTE_W) s) (\<lambda>_ s.
     bnd (kvmmap kpgtbl 0x10001000 0x10001000 PGSIZE (PTE_R OR PTE_W) s) (\<lambda>_ s.
     bnd (kvmmap kpgtbl 0x0c000000 0x0c000000 0x4000000 (PTE_R OR PTE_W) s) (\<lambda>_ s.
     bnd (kvmmap kpgtbl KERNBASE KERNBASE (etext - KERNBASE) (PTE_R OR PTE_X) s) (\<lambda>_ s.
     bnd (kvmmap kpgtbl etext etext (PHYSTOP - etext) (PTE_R OR PTE_W) s) (\<lambda>_ s.
     bnd (kvmmap kpgtbl TRAMPOLINE (ksym s Sym_trampoline) PGSIZE (PTE_R OR PTE_X) s) (\<lambda>_ s.
     bnd (proc_mapstacks kpgtbl s) (\<lambda>_ s.
     Ret kpgtbl s))))))))"

definition kvminit :: "kernel \<Rightarrow> unit kres" where
  "kvminit s = bnd (kvmmake s) (\<lambda>pt s. Ret () (s\<lparr>kernel_pagetable := pt\<rparr>))"

definition kvminithart :: "kernel \<Rightarrow> kernel" where
  "kvminithart s = s\<lparr>csrs := (csrs s)(Satp := MAKE_SATP (kernel_pagetable s))\<rparr>"

end
