(* ===== verification/Vm_Map.thy ===== *)
theory Vm_Map
  imports Vm
begin

text \<open>
  Page tables as maps. \<^verbatim>\<open>node\<close> follows a path of indices through the page-table
  pages in memory, \<^verbatim>\<open>pt_ok\<close> says that no page is reached on two paths, and
  \<^verbatim>\<open>pt_get\<close> is the map from virtual addresses to page-table entries the table stands
  for (0 where a table page is missing). The lemmas show what \<^verbatim>\<open>walk\<close>,
  \<^verbatim>\<open>mappages\<close>, \<^verbatim>\<open>uvmcreate\<close>, \<^verbatim>\<open>copyin\<close> and \<^verbatim>\<open>copyout\<close> do to that map
  and to the memory it points to.
\<close>

unbundle bit_operations_syntax

subsection \<open>Reading a table\<close>

definition pv :: "u64 \<Rightarrow> bool" where
  "pv e \<longleftrightarrow> e AND PTE_V \<noteq> 0"

definition ent :: "mem \<Rightarrow> u64 \<Rightarrow> nat \<Rightarrow> u64" where
  "ent m p i = load64 m (p + 8 * of_nat i)"

fun node :: "mem \<Rightarrow> u64 \<Rightarrow> nat list \<Rightarrow> u64 option" where
  "node m p [] = Some p"
| "node m p (i # is) = (if pv (ent m p i) then node m (PTE2PA (ent m p i)) is else None)"

definition vpath :: "nat list \<Rightarrow> bool" where
  "vpath ps \<longleftrightarrow> length ps \<le> 2 \<and> (\<forall>i \<in> set ps. i < 512)"

definition tpages :: "mem \<Rightarrow> u64 \<Rightarrow> u64 set" where
  "tpages m r = {q. \<exists>ps. vpath ps \<and> node m r ps = Some q}"

definition pt_ok :: "mem \<Rightarrow> u64 \<Rightarrow> bool" where
  "pt_ok m r \<longleftrightarrow>
     (\<forall>q \<in> tpages m r. aligned q \<and> q \<noteq> 0) \<and>
     (\<forall>ps qs q. vpath ps \<longrightarrow> vpath qs \<longrightarrow> node m r ps = Some q \<longrightarrow> node m r qs = Some q \<longrightarrow> ps = qs)"

definition px :: "nat \<Rightarrow> u64 \<Rightarrow> nat" where
  "px level va = unat (PX level va)"

text \<open>The path of a virtual address to its last-level page-table page.\<close>

definition lpath :: "u64 \<Rightarrow> nat list" where
  "lpath va = [px 2 va, px 1 va]"

definition pt_get :: "mem \<Rightarrow> u64 \<Rightarrow> u64 \<Rightarrow> u64" where
  "pt_get m r va = (case node m r (lpath va) of None \<Rightarrow> 0 | Some q \<Rightarrow> ent m q (px 0 va))"

lemma px_eq: "px level va = unat va div 2 ^ (12 + 9 * level) mod 512"
proof -
  have "(0x1FF :: u64) = mask 9" by (simp add: mask_eq_exp_minus_1)
  then have "PX level va = take_bit 9 (drop_bit (12 + 9 * level) va)"
    by (simp only: PX_def take_bit_eq_mask)
  then have "px level va = take_bit 9 (drop_bit (12 + 9 * level) (unat va))"
    by (simp only: px_def unsigned_take_bit_eq unsigned_drop_bit_eq)
      (use unat_bound [of va] in \<open>simp add: take_bit_nat_eq_self\<close>)
  then show ?thesis
    by (simp add: drop_bit_eq_div take_bit_eq_mod)
qed

lemma px_less [simp]: "px level va < 512"
  by (simp add: px_eq)

lemma PX_px: "PX level va = of_nat (px level va)"
  by (simp add: px_def)

lemma px_same_page:
  assumes "va < MAXVA" "wa < MAXVA"
  shows "lpath va = lpath wa \<and> px 0 va = px 0 wa \<longleftrightarrow> PGROUNDDOWN va = PGROUNDDOWN wa"
proof -
  have b: "unat va < 2 ^ 38" "unat wa < 2 ^ 38"
    using assms by (simp_all add: word_less_nat_alt)
  define x where "x = unat va div 4096"
  define y where "y = unat wa div 4096"
  have xy: "x < 2 ^ 26" "y < 2 ^ 26"
    using b by (simp_all add: x_def y_def less_mult_imp_div_less)
  have px: "px 0 va = x mod 512" "px 1 va = x div 512 mod 512" "px 2 va = x div 512 div 512 mod 512"
    "px 0 wa = y mod 512" "px 1 wa = y div 512 mod 512" "px 2 wa = y div 512 div 512 mod 512"
    by (simp_all add: px_eq x_def y_def div_mult2_eq [symmetric])
  have small: "x div 512 div 512 < 512" "y div 512 div 512 < 512"
    using xy by (simp_all add: less_mult_imp_div_less div_mult2_eq [symmetric])
  have "PGROUNDDOWN va = PGROUNDDOWN wa \<longleftrightarrow> x = y"
  proof -
    have "unat (PGROUNDDOWN va) = x * 4096" "unat (PGROUNDDOWN wa) = y * 4096"
      by (simp_all add: unat_PGROUNDDOWN x_def y_def minus_mod_eq_div_mult)
    then show ?thesis by (simp add: word_unat_eq_iff)
  qed
  moreover have "x = y" if "x mod 512 = y mod 512" "x div 512 mod 512 = y div 512 mod 512"
    "x div 512 div 512 mod 512 = y div 512 div 512 mod 512"
  proof -
    have "x div 512 div 512 = y div 512 div 512" using that(3) small by simp
    with that(2) have "x div 512 = y div 512" by (metis div_mult_mod_eq)
    with that(1) show ?thesis by (metis div_mult_mod_eq)
  qed
  ultimately show ?thesis unfolding lpath_def list.inject px by auto
qed

lemma vpath_leaf [simp]: "vpath (lpath va)" and length_lpath [simp]: "length (lpath va) = 2"
  by (simp_all add: vpath_def lpath_def)

subsection \<open>Entries under stores\<close>

lemma slot_off: "i < 512 \<Longrightarrow> unat ((p + 8 * of_nat i) - p :: u64) = 8 * i"
  by (simp add: unat_of_nat_lt unat_word_ariths)

lemma slot_in_page: "i < 512 \<Longrightarrow> in_page p (p + 8 * of_nat i) \<and> unat ((p + 8 * of_nat i) - p) + 8 \<le> 4096"
  using slot_off [of i p] by (simp add: in_page_def)

lemma ent_outside:
  assumes "outside p m m'" "aligned p" "aligned q" "p \<noteq> q" "i < 512"
  shows "ent m' q i = ent m q i"
  unfolding ent_def using assms slot_in_page by (intro load64_outside) auto

lemma outside_slot: "i < 512 \<Longrightarrow> outside p m (store64 m (p + 8 * of_nat i) v)"
  using slot_in_page by (intro outside_store64) auto

lemma ent_store_same [simp]: "ent (store64 m (p + 8 * of_nat i) v) p i = v"
  by (simp add: ent_def)

lemma ent_store_other:
  assumes "i < 512" "j < 512" "i \<noteq> j"
  shows "ent (store64 m (p + 8 * of_nat i) v) p j = ent m p j"
  unfolding ent_def
proof (rule load64_cong)
  fix x assume x: "unat (x - (p + 8 * of_nat j)) < 8"
  have j: "unat (x - p) = unat (x - (p + 8 * of_nat j)) + 8 * j"
  proof -
    have "x - p = (x - (p + 8 * of_nat j)) + 8 * of_nat j" by simp
    moreover have "unat (8 * of_nat j :: u64) = 8 * j" using slot_off [OF assms(2), of 0] by simp
    ultimately show ?thesis
      using x assms(2) by (simp only:) (subst unat_add_lem [THEN iffD1], auto)
  qed
  have "\<not> unat (x - (p + 8 * of_nat i)) < 8"
  proof
    assume y: "unat (x - (p + 8 * of_nat i)) < 8"
    have "x - p = (x - (p + 8 * of_nat i)) + 8 * of_nat i" by simp
    moreover have "unat (8 * of_nat i :: u64) = 8 * i" using slot_off [OF assms(1), of 0] by simp
    ultimately have "unat (x - p) = unat (x - (p + 8 * of_nat i)) + 8 * i"
      using y assms(1) by (simp only:) (subst unat_add_lem [THEN iffD1], auto)
    with j x y assms(3) show False by linarith
  qed
  then show "store64 m (p + 8 * of_nat i) v x = m x" by (simp add: store64_def)
qed

lemma ent_store:
  assumes "i < 512" "j < 512" "aligned p" "aligned q"
  shows "ent (store64 m (p + 8 * of_nat i) v) q j = (if q = p \<and> j = i then v else ent m q j)"
  using assms ent_store_other [of i j m p v] ent_outside [OF outside_slot, of i p q j m v] by auto

lemma ent_zero_page:
  assumes "\<And>a. in_page p a \<Longrightarrow> m a = 0" "i < 512"
  shows "ent m p i = 0"
proof -
  have "load64 m (p + 8 * of_nat i) = load64 (\<lambda>_. 0) (p + 8 * of_nat i)"
  proof (rule load64_cong)
    fix x assume x: "unat (x - (p + 8 * of_nat i)) < 8"
    have "unat ((x - (p + 8 * of_nat i)) + ((p + 8 * of_nat i) - p)) =
        unat (x - (p + 8 * of_nat i)) + unat ((p + 8 * of_nat i) - p)"
      using x slot_in_page [OF assms(2), of p] by (subst unat_add_lem [THEN iffD1]) auto
    then have "in_page p x" using x slot_in_page [OF assms(2), of p] by (simp add: in_page_def)
    then show "m x = 0" by (rule assms(1))
  qed
  then show ?thesis by (simp add: ent_def)
qed

subsection \<open>Page-table entries and physical addresses\<close>

lemma bit_aligned: "aligned x \<Longrightarrow> bit x k \<Longrightarrow> 12 \<le> k"
proof (rule ccontr)
  assume "aligned x" "bit x k" "\<not> 12 \<le> k"
  then have "bit (PGROUNDDOWN x) k" by simp
  then have "bit (x AND NOT (mask 12)) k" by (simp add: PGROUNDDOWN_def mask_12)
  with \<open>\<not> 12 \<le> k\<close> show False by (simp add: bit_and_iff bit_not_iff bit_mask_iff)
qed

lemma bit_below:
  assumes "unat (x :: 'a::len word) < 2 ^ n" "bit x k"
  shows "k < n"
proof -
  have "unat (take_bit n x) = unat x"
    using assms(1) by (simp add: unsigned_take_bit_eq take_bit_nat_eq_self)
  then have "take_bit n x = x" by (simp only: word_unat_eq_iff)
  with assms(2) have "bit (take_bit n x) k" by simp
  then show ?thesis by (simp add: bit_take_bit_iff)
qed

text \<open>An entry gives back the page address and the flags it was made from.\<close>

lemma PTE2PA_PA2PTE:
  assumes "aligned x" "unat x < 2 ^ 54" "unat f < 1024"
  shows "PTE2PA (PA2PTE x OR f) = x"
proof (rule bit_word_eqI)
  fix k assume k: "k < LENGTH(64)"
  have "bit f (k - 2) \<Longrightarrow> k - 2 < 10"
    using bit_below [of f 10] assms(3) by simp
  then show "bit (PTE2PA (PA2PTE x OR f)) k = bit x k"
    using k bit_aligned [OF assms(1), of k] bit_below [OF assms(2), of k]
    by (auto simp: PTE2PA_def PA2PTE_def bit_push_bit_iff bit_drop_bit_eq bit_or_iff
        intro: bit_imp_le_length)
qed

lemma PTE_FLAGS_PA2PTE:
  assumes "unat f < 1024"
  shows "PTE_FLAGS (PA2PTE x OR f) = f"
proof -
  have m: "(0x3FF :: u64) = mask 10" by (simp add: mask_eq_exp_minus_1)
  have "bit f k \<Longrightarrow> k < 10" for k using bit_below [of f 10 k] assms by simp
  then show ?thesis
    unfolding PTE_FLAGS_def m
    by (intro bit_word_eqI) (auto simp: PA2PTE_def bit_push_bit_iff bit_or_iff bit_and_iff bit_mask_iff)
qed

lemma pv_OR [simp]: "pv (e OR PTE_V)"
proof -
  have "bit ((e OR 1) AND 1) 0" by (simp add: bit_and_iff bit_or_iff)
  then show ?thesis unfolding pv_def by (metis bit_0_eq bot_apply bot_bool_def)
qed

lemma pv_0 [simp]: "\<not> pv 0"
  by (simp add: pv_def)

subsection \<open>Nodes under stores\<close>

lemma node_append: "node m r (xs @ ys) = Option.bind (node m r xs) (\<lambda>q. node m q ys)"
  by (induction xs arbitrary: r) auto

lemma node_cong:
  assumes "\<And>js i ks q. ps = js @ i # ks \<Longrightarrow> node m r js = Some q \<Longrightarrow> ent m' q i = ent m q i"
  shows "node m' r ps = node m r ps"
  using assms
proof (induction ps arbitrary: r)
  case Nil
  then show ?case by simp
next
  case (Cons i ps)
  have e: "ent m' r i = ent m r i" using Cons.prems [of "[]" i ps r] by simp
  have "node m' (PTE2PA (ent m r i)) ps = node m (PTE2PA (ent m r i)) ps" if "pv (ent m r i)"
  proof (rule Cons.IH)
    fix js j ks q assume "ps = js @ j # ks" "node m (PTE2PA (ent m r i)) js = Some q"
    then show "ent m' q j = ent m q j"
      using Cons.prems [of "i # js" j ks q] that by simp
  qed
  then show ?case by (simp add: e)
qed

lemma vpath_append: "vpath (js @ i # ks) \<Longrightarrow> vpath js \<and> i < 512 \<and> length js \<le> 1"
  by (auto simp: vpath_def)

lemma pt_okD:
  assumes "pt_ok m r" "vpath ps" "node m r ps = Some q"
  shows "aligned q" "q \<noteq> 0" "q \<in> tpages m r"
    "\<And>qs. vpath qs \<Longrightarrow> node m r qs = Some q \<Longrightarrow> qs = ps"
  using assms unfolding pt_ok_def tpages_def by blast+

lemma pt_ok_transfer:
  assumes "pt_ok m r" and "\<And>ps. vpath ps \<Longrightarrow> node m' r ps = node m r ps"
  shows "pt_ok m' r" and "tpages m' r = tpages m r"
proof -
  show eq: "tpages m' r = tpages m r"
    unfolding tpages_def using assms(2) by metis
  show "pt_ok m' r"
    using assms(1) unfolding pt_ok_def eq by (metis assms(2))
qed

text \<open>A store into a slot of a last-level page moves no page-table page.\<close>

lemma leaf_store_node:
  assumes ok: "pt_ok m r" and q: "node m r ls = Some q" and ls: "vpath ls" "length ls = 2" and c: "c < 512"
    and ps: "vpath ps"
  shows "node (store64 m (q + 8 * of_nat c) v) r ps = node m r ps"
proof (rule node_cong)
  fix js i ks q' assume s: "ps = js @ i # ks" "node m r js = Some q'"
  have js: "vpath js" "i < 512" "length js \<le> 1" using vpath_append ps s(1) by blast+
  have "q' \<noteq> q" using pt_okD(4) [OF ok js(1) s(2) ls(1)] q js(3) ls(2) by auto
  then show "ent (store64 m (q + 8 * of_nat c) v) q' i = ent m q' i"
    using ent_store [OF c js(2) pt_okD(1) [OF ok ls(1) q] pt_okD(1) [OF ok js(1) s(2)]] by simp
qed

lemma insert_node:
  assumes ok: "pt_ok m r" and js: "vpath (js @ [i])" and p: "node m r js = Some p"
    and inv: "\<not> pv (ent m p i)" and x: "x \<notin> tpages m r" and e: "pv e" "PTE2PA e = x"
    and old: "\<And>q k. aligned q \<Longrightarrow> q \<noteq> x \<Longrightarrow> k < 512 \<Longrightarrow>
      ent m' q k = (if q = p \<and> k = i then e else ent m q k)"
    and fresh: "\<And>k. k < 512 \<Longrightarrow> ent m' x k = 0"
    and ps: "vpath ps"
  shows "node m' r ps = (if ps = js @ [i] then Some x else node m r ps)"
proof -
  have vjs: "vpath js" "i < 512" using vpath_append [of js i "[]"] js by auto
  have same: "node m' r qs = node m r qs" if "vpath qs" "\<And>ls. qs \<noteq> js @ i # ls" for qs
  proof (rule node_cong)
    fix ks k ls q assume s: "qs = ks @ k # ls" "node m r ks = Some q"
    then have ks: "vpath ks" "k < 512" using vpath_append that(1) by blast+
    have "q \<noteq> x" using pt_okD(3) [OF ok ks(1) s(2)] x by auto
    moreover have "\<not> (q = p \<and> k = i)"
      using pt_okD(4) [OF ok vjs(1) p ks(1)] s that(2) by auto
    ultimately show "ent m' q k = ent m q k"
      using old [OF pt_okD(1) [OF ok ks(1) s(2)] _ ks(2)] by auto
  qed
  have "node m' r js = Some p" using same [OF vjs(1)] p by simp
  moreover have "aligned p" "p \<in> tpages m r" using pt_okD [OF ok vjs(1) p] by auto
  moreover from this have "ent m' p i = e" using old [of p i] vjs(2) x by auto
  ultimately have ext: "node m' r (js @ i # ls) = node m' x ls" for ls
    using e by (simp add: node_append)
  show ?thesis
  proof (cases "\<exists>ls. ps = js @ i # ls")
    case False
    then show ?thesis using same [OF ps] by auto
  next
    case True
    then obtain ls where ls: "ps = js @ i # ls" by blast
    show ?thesis
    proof (cases ls)
      case Nil
      then show ?thesis using ext [of "[]"] ls by simp
    next
      case (Cons k ks)
      then have "k < 512" using ps ls by (simp add: vpath_def)
      then have "node m' r ps = None" using ext ls Cons fresh by simp
      moreover have "node m r ps = None" using ls p inv by (simp add: node_append)
      ultimately show ?thesis using ls Cons by simp
    qed
  qed
qed

lemma insert_table:
  assumes ok: "pt_ok m r" and js: "vpath (js @ [i])" and x: "x \<notin> tpages m r" "aligned x" "x \<noteq> 0"
    and none: "node m r (js @ [i]) = None"
    and nodes: "\<And>ps. vpath ps \<Longrightarrow> node m' r ps = (if ps = js @ [i] then Some x else node m r ps)"
  shows "pt_ok m' r" and "tpages m' r = insert x (tpages m r)"
proof -
  show t: "tpages m' r = insert x (tpages m r)"
  proof (intro equalityI subsetI)
    fix q assume "q \<in> tpages m' r"
    then obtain ps where "vpath ps" "node m' r ps = Some q" by (auto simp: tpages_def)
    then show "q \<in> insert x (tpages m r)"
      using nodes [of ps] by (auto simp: tpages_def split: if_splits)
  next
    fix q assume "q \<in> insert x (tpages m r)"
    then consider "q = x" | ps where "vpath ps" "node m r ps = Some q" by (auto simp: tpages_def)
    then show "q \<in> tpages m' r"
    proof cases
      case 1
      then show ?thesis using nodes [OF js] js by (auto simp: tpages_def)
    next
      case (2 ps)
      then have "node m' r ps = Some q" using nodes [of ps] none by auto
      then show ?thesis using 2(1) by (auto simp: tpages_def)
    qed
  qed
  have "ps = qs" if "vpath ps" "vpath qs" "node m' r ps = Some q" "node m' r qs = Some q" for ps qs q
  proof -
    have "node m r ps' \<noteq> Some x" if "vpath ps'" for ps' using x(1) that by (auto simp: tpages_def)
    then show ?thesis
      using that nodes [of ps] nodes [of qs] pt_okD(4) [OF ok that(1), of q qs] that(1,2)
      by (auto split: if_splits)
  qed
  then show "pt_ok m' r"
    using ok x unfolding pt_ok_def t by blast
qed

subsection \<open>Walking with allocation\<close>

text \<open>Only the last level has leaves: a valid entry above it just points to the next level.\<close>

definition inner_ok :: "mem \<Rightarrow> u64 \<Rightarrow> bool" where
  "inner_ok m r \<longleftrightarrow> (\<forall>ps q i. length ps \<le> 1 \<longrightarrow> vpath ps \<longrightarrow> node m r ps = Some q \<longrightarrow> i < 512 \<longrightarrow> pv (ent m q i) \<longrightarrow>
     ent m q i AND (PTE_R OR PTE_W OR PTE_X) = 0)"

lemma inner_entry: "(PA2PTE x OR PTE_V) AND (PTE_R OR PTE_W OR PTE_X) = 0"
proof -
  have "(PA2PTE x OR PTE_V) AND (PTE_R OR PTE_W OR PTE_X) = PTE_FLAGS (PA2PTE x OR PTE_V) AND (PTE_R OR PTE_W OR PTE_X)"
    unfolding PTE_FLAGS_def and.assoc by simp
  then show ?thesis using PTE_FLAGS_PA2PTE [of PTE_V x] by simp
qed

lemma inner_insert:
  assumes ok: "pt_ok m r" and inner: "inner_ok m r" and x: "x \<notin> tpages m r"
    and nodes: "\<And>ps. vpath ps \<Longrightarrow> node m' r ps = (if ps = js then Some x else node m r ps)"
    and old: "\<And>q k. aligned q \<Longrightarrow> q \<noteq> x \<Longrightarrow> k < 512 \<Longrightarrow> ent m' q k = (if q = p \<and> k = i then PA2PTE x OR PTE_V else ent m q k)"
    and fresh: "\<And>k. k < 512 \<Longrightarrow> ent m' x k = 0"
  shows "inner_ok m' r"
  unfolding inner_ok_def
proof (intro allI impI)
  fix ps q k assume a: "length ps \<le> 1" "vpath ps" "node m' r ps = Some q" "k < 512" "pv (ent m' q k)"
  have "q \<noteq> x" using a(4,5) fresh by auto
  then have n: "node m r ps = Some q" using a(3) nodes [OF a(2)] by (simp split: if_splits)
  have "aligned q" using pt_okD [OF ok a(2) n] by simp
  then have "ent m' q k = (if q = p \<and> k = i then PA2PTE x OR PTE_V else ent m q k)" by (rule old) fact+
  then show "ent m' q k AND (PTE_R OR PTE_W OR PTE_X) = 0"
    using inner n a(1,2,4,5) inner_entry by (simp add: inner_ok_def split: if_splits)
qed

lemma inner_leaf:
  assumes ok: "pt_ok m r" and inner: "inner_ok m r" and q: "node m r [i, j] = Some q" "vpath [i, j]" "k < 512"
    and nodes: "\<And>ps. vpath ps \<Longrightarrow> node m' r ps = node m r ps" and m': "m' = store64 m (q + 8 * of_nat k) v"
  shows "inner_ok m' r"
  unfolding inner_ok_def
proof (intro allI impI)
  fix ps p l assume a: "length ps \<le> 1" "vpath ps" "node m' r ps = Some p" "l < 512" "pv (ent m' p l)"
  have n: "node m r ps = Some p" using a(3) nodes [OF a(2)] by simp
  note pq = pt_okD [OF ok q(2,1)] and pp = pt_okD [OF ok a(2) n]
  have "p \<noteq> q" using pp(4) [OF q(2)] q(1) a(1) by auto
  then have "ent m' p l = ent m p l" using ent_store [OF q(3) a(4) pq(1) pp(1)] by (simp add: m')
  then show "ent m' p l AND (PTE_R OR PTE_W OR PTE_X) = 0" using inner n a(1,2,4,5) by (simp add: inner_ok_def)
qed

definition pt_inv :: "kernel \<Rightarrow> u64 \<Rightarrow> u64 list \<Rightarrow> bool" where
  "pt_inv s r xs \<longleftrightarrow>
     kmem_inv s xs \<and> KmemLock \<notin> held s \<and> pt_ok (pmem s) r \<and> inner_ok (pmem s) r \<and> tpages (pmem s) r \<inter> set xs = {}"

definition pt_ext :: "u64 \<Rightarrow> kernel \<Rightarrow> u64 list \<Rightarrow> kernel \<Rightarrow> u64 list \<Rightarrow> bool" where
  "pt_ext r s xs t ys \<longleftrightarrow>
     only_mem s t \<and> set ys \<subseteq> set xs \<and> tpages (pmem s) r \<subseteq> tpages (pmem t) r \<and>
     tpages (pmem t) r \<subseteq> tpages (pmem s) r \<union> set xs \<and>
     (\<forall>a. (\<forall>q \<in> tpages (pmem s) r \<union> set xs. \<not> in_page q a) \<longrightarrow> pmem t a = pmem s a)"

lemma pt_ext_refl [simp]: "pt_ext r s xs s xs"
  by (auto simp: pt_ext_def)

lemma pt_ext_trans:
  assumes "pt_ext r s xs t ys" "pt_ext r t ys u zs"
  shows "pt_ext r s xs u zs"
proof -
  have a: "only_mem s t" "only_mem t u" "set ys \<subseteq> set xs" "set zs \<subseteq> set ys"
    "tpages (pmem s) r \<subseteq> tpages (pmem t) r" "tpages (pmem t) r \<subseteq> tpages (pmem u) r"
    "tpages (pmem t) r \<subseteq> tpages (pmem s) r \<union> set xs" "tpages (pmem u) r \<subseteq> tpages (pmem t) r \<union> set ys"
    and f: "\<And>a. (\<And>q. q \<in> tpages (pmem s) r \<union> set xs \<Longrightarrow> \<not> in_page q a) \<Longrightarrow> pmem t a = pmem s a"
    "\<And>a. (\<And>q. q \<in> tpages (pmem t) r \<union> set ys \<Longrightarrow> \<not> in_page q a) \<Longrightarrow> pmem u a = pmem t a"
    using assms unfolding pt_ext_def by simp_all
  have sub: "tpages (pmem t) r \<union> set ys \<subseteq> tpages (pmem s) r \<union> set xs" using a(3,7) by blast
  have "pmem u a = pmem s a" if "\<forall>q \<in> tpages (pmem s) r \<union> set xs. \<not> in_page q a" for a
  proof -
    have "pmem u a = pmem t a" by (rule f(2)) (use that sub in blast)
    also have "\<dots> = pmem s a" by (rule f(1)) (use that in blast)
    finally show ?thesis .
  qed
  moreover have "tpages (pmem u) r \<subseteq> tpages (pmem s) r \<union> set xs" using a(8) sub by blast
  moreover have "only_mem s u" by (rule only_mem_trans [OF a(1,2)])
  moreover have "set zs \<subseteq> set xs" "tpages (pmem s) r \<subseteq> tpages (pmem u) r" using a(3-6) by blast+
  ultimately show ?thesis unfolding pt_ext_def by blast
qed

lemma node_child: "node m r js = Some p \<Longrightarrow> node m r (js @ [i]) = (if pv (ent m p i) then Some (PTE2PA (ent m p i)) else None)"
  by (simp add: node_append)

text \<open>Hanging a zeroed page below a slot that was empty.\<close>

lemma walk_insert:
  assumes inv: "pt_inv s r (x # ys)" and js: "vpath (js @ [i])" and p: "node (pmem s) r js = Some p"
    and none: "\<not> pv (ent (pmem s) p i)"
    and t: "kmem_inv t ys" "only_mem s t" "outside x (pmem s) (pmem t)" "\<And>a. in_page x a \<Longrightarrow> pmem t a = 0"
    and u: "u = t\<lparr>pmem := store64 (pmem t) (p + 8 * of_nat i) (PA2PTE x OR PTE_V)\<rparr>"
  shows "pt_inv u r ys" "pt_ext r s (x # ys) u ys" "node (pmem u) r (js @ [i]) = Some x"
    "\<And>wa. pt_get (pmem u) r wa = pt_get (pmem s) r wa"
proof -
  have ok: "pt_ok (pmem s) r" and xt: "x \<notin> tpages (pmem s) r" and dis: "tpages (pmem s) r \<inter> set (x # ys) = {}"
    and km: "kmem_inv s (x # ys)" and lk: "KmemLock \<notin> held s"
    using inv by (auto simp: pt_inv_def)
  have x: "aligned x" "x \<noteq> 0" "x < PHYSTOP" "x \<notin> set ys"
    using km by (auto simp: kmem_inv_def good_page_def)
  have vjs: "vpath js" "i < 512" using vpath_append [of js i "[]"] js by auto
  have pp: "aligned p" "p \<in> tpages (pmem s) r" using pt_okD [OF ok vjs(1) p] by auto
  have xp: "x \<noteq> p" using pp xt by auto
  have e: "PTE2PA (PA2PTE x OR PTE_V) = x"
    using x by (intro PTE2PA_PA2PTE) (simp_all add: word_less_nat_alt)
  have old: "ent (pmem u) q k = (if q = p \<and> k = i then PA2PTE x OR PTE_V else ent (pmem s) q k)"
    if "aligned q" "q \<noteq> x" "k < 512" for q k
    using ent_store [OF vjs(2) that(3) pp(1) that(1)] ent_outside [OF t(3) x(1) that(1) _ that(3)] that(2)
    by (auto simp: u)
  have fresh: "ent (pmem u) x k = 0" if "k < 512" for k
    using ent_store [OF vjs(2) that pp(1) x(1)] ent_zero_page [of x "pmem t", OF t(4) that] xp
    by (simp add: u)
  have nodes: "node (pmem u) r ps = (if ps = js @ [i] then Some x else node (pmem s) r ps)"
    if "vpath ps" for ps
    by (rule insert_node [OF ok js p none xt pv_OR e _ _ that]) (simp_all add: old fresh)
  have nn: "node (pmem s) r (js @ [i]) = None" using node_child [OF p] none by simp
  have tab: "pt_ok (pmem u) r" "tpages (pmem u) r = insert x (tpages (pmem s) r)"
    by (rule insert_table [OF ok js xt x(1,2) nn]; simp add: nodes)+
  show "node (pmem u) r (js @ [i]) = Some x" using nodes [OF js] by simp
  have ku: "kmem_inv u ys"
    by (rule kmem_inv_outside [OF t(1), of p]) (use dis pp outside_slot [OF vjs(2)] in \<open>auto simp: u\<close>)
  have om: "only_mem s u" unfolding u by (rule only_mem_trans [OF t(2) only_mem_pmem])
  have "inner_ok (pmem s) r" using inv by (simp add: pt_inv_def)
  then have "inner_ok (pmem u) r" by (rule inner_insert [OF ok _ xt nodes old fresh])
  then show "pt_inv u r ys"
    unfolding pt_inv_def tab(2) using ku tab(1) dis x lk only_memD(1) [OF om] by auto
  have "pmem u a = pmem s a" if "\<forall>q \<in> tpages (pmem s) r \<union> set (x # ys). \<not> in_page q a" for a
    using that pp(2) t(3) outside_slot [OF vjs(2), of p "pmem t"] by (auto simp: u outside_def)
  then show "pt_ext r s (x # ys) u ys"
    unfolding pt_ext_def tab(2) using om by auto
  fix wa
  note v2 = vpath_leaf [of wa]
  show "pt_get (pmem u) r wa = pt_get (pmem s) r wa"
  proof (cases "(lpath wa) = js @ [i]")
    case True
    then have "node (pmem s) r (lpath wa) = None" "node (pmem u) r (lpath wa) = Some x"
      using nn nodes [OF v2] by (simp_all only: if_True simp_thms)
    then show ?thesis unfolding pt_get_def by (simp add: fresh)
  next
    case False
    then have eq: "node (pmem u) r (lpath wa) = node (pmem s) r (lpath wa)"
      using nodes [OF v2] by (simp only: if_False simp_thms)
    show ?thesis
    proof (cases "node (pmem s) r (lpath wa)")
      case None
      then show ?thesis unfolding pt_get_def eq by simp
    next
      case (Some q)
      note q = pt_okD [OF ok v2 Some]
      have "q \<noteq> x" using q(3) xt by auto
      moreover have "q \<noteq> p"
      proof
        assume "q = p"
        then have "js = lpath wa" using q(4) [OF vjs(1)] p by simp
        with js show False by (simp add: vpath_def lpath_def)
      qed
      ultimately show ?thesis unfolding pt_get_def eq Some using old [OF q(1)] by simp
    qed
  qed
qed

subsection \<open>What walk and mappages do to the map\<close>

definition levels :: "nat \<Rightarrow> u64 \<Rightarrow> nat list" where
  "levels l va = map (\<lambda>k. px k va) (rev [1..<Suc l])"

lemma levels_simps [simp]:
  "levels 0 va = []" "levels (Suc l) va = px (Suc l) va # levels l va"
  by (simp_all add: levels_def)

lemma levels_2: "levels 2 va = lpath va"
  by (simp add: lpath_def numeral_2_eq_2)

lemma walk_loop_noalloc:
  "walk_loop l p va False s =
     Ret (case node (pmem s) p (levels l va) of None \<Rightarrow> 0 | Some q \<Rightarrow> q + 8 * PX 0 va) s"
  by (induction l arbitrary: p) (simp_all add: Let_def PX_px ent_def pv_def)

lemma walk_noalloc:
  "va < MAXVA \<Longrightarrow> walk r va False s =
     Ret (case node (pmem s) r (lpath va) of None \<Rightarrow> 0 | Some q \<Rightarrow> q + 8 * PX 0 va) s"
  unfolding walk_def walk_loop_noalloc levels_2 by auto

lemma slot_nonzero: "aligned q \<Longrightarrow> q \<noteq> 0 \<Longrightarrow> q + 8 * PX 0 va \<noteq> 0"
proof
  assume q: "aligned q" "q \<noteq> 0" "q + 8 * PX 0 va = 0"
  have "in_page q (q + 8 * of_nat (px 0 va))" using slot_in_page by simp
  moreover have "q + 8 * of_nat (px 0 va) = 0" using q(3) by (simp add: PX_px)
  ultimately have "in_page q 0" by simp
  moreover have "aligned 0" by (simp add: aligned_def)
  ultimately show False using in_page_disjoint [of q 0 0] q by simp
qed

lemma walk_pt_get:
  assumes "pt_ok (pmem s) r" "va < MAXVA"
  obtains (absent) "walk r va False s = Ret 0 s" "pt_get (pmem s) r va = 0"
  | (slot) q where "walk r va False s = Ret (q + 8 * PX 0 va) s" "q + 8 * PX 0 va \<noteq> 0"
      "node (pmem s) r (lpath va) = Some q" "load64 (pmem s) (q + 8 * PX 0 va) = pt_get (pmem s) r va"
proof (cases "node (pmem s) r (lpath va)")
  case None
  then show thesis using absent walk_noalloc [OF assms(2), of r s] by (simp add: pt_get_def)
next
  case (Some q)
  have "q + 8 * PX 0 va \<noteq> 0"
    using pt_okD [OF assms(1) vpath_leaf Some] slot_nonzero by blast
  then show thesis
    using slot [of q] Some walk_noalloc [OF assms(2), of r s]
    by (simp add: pt_get_def ent_def PX_px)
qed

lemma walk_loop_alloc:
  assumes "pt_inv s r xs" "node (pmem s) r js = Some p" "js @ levels l va = lpath va"
  shows "returns (walk_loop l p va True s) (\<lambda>slot t. \<exists>ys. pt_inv t r ys \<and> pt_ext r s xs t ys \<and>
    (\<forall>wa. pt_get (pmem t) r wa = pt_get (pmem s) r wa) \<and>
    (if slot = 0 then ys = []
     else \<exists>q. node (pmem t) r (lpath va) = Some q \<and> slot = q + 8 * PX 0 va))"
  using assms
proof (induction l arbitrary: js p s xs)
  case 0
  then have n: "node (pmem s) r (lpath va) = Some p" by simp
  have "p + 8 * PX 0 va \<noteq> 0"
    using pt_okD [OF _ vpath_leaf n] 0(1) slot_nonzero by (simp add: pt_inv_def)
  then show ?case using 0(1) n by (auto intro!: exI [of _ xs])
next
  case (Suc l)
  let ?i = "px (Suc l) va"
  have path: "(js @ [?i]) @ levels l va = lpath va" using Suc.prems(3) by simp
  then have v: "vpath (js @ [?i])"
    using vpath_leaf [of va] by (metis Un_iff length_append le_add1 le_trans set_append vpath_def)
  show ?case
  proof (cases "pv (ent (pmem s) p ?i)")
    case True
    then have "node (pmem s) r (js @ [?i]) = Some (PTE2PA (ent (pmem s) p ?i))"
      using node_child [OF Suc.prems(2)] by simp
    from Suc.IH [OF Suc.prems(1) this path] True show ?thesis
      by (simp add: Let_def PX_px ent_def pv_def)
  next
    case False
    have km: "kmem_inv s xs" "KmemLock \<notin> held s" using Suc.prems(1) by (auto simp: pt_inv_def)
    consider "xs = []" "kalloc s = Ret 0 s"
      | x ys t m where "xs = x # ys" "x \<noteq> 0" "kalloc s = Ret x t" "m = memset (pmem t) x 0 4096"
        "kmem_inv (t\<lparr>pmem := m\<rparr>) ys" "outside x (pmem s) m" "\<forall>a. in_page x a \<longrightarrow> m a = 0"
        "only_mem s (t\<lparr>pmem := m\<rparr>)"
      using kmem.alloc_zeroed [OF km] by blast
    then show ?thesis
    proof cases
      case 1
      then show ?thesis
        using False Suc.prems(1) by (auto simp: Let_def PX_px ent_def pv_def intro!: exI [of _ xs])
    next
      case (2 x ys t m)
      define u where "u = t\<lparr>pmem := store64 m (p + 8 * of_nat ?i) (PA2PTE x OR PTE_V)\<rparr>"
      have u: "u = (t\<lparr>pmem := m\<rparr>)\<lparr>pmem := store64 (pmem (t\<lparr>pmem := m\<rparr>)) (p + 8 * of_nat ?i) (PA2PTE x OR PTE_V)\<rparr>"
        by (simp add: u_def)
      have ins: "pt_inv u r ys" "pt_ext r s (x # ys) u ys" "node (pmem u) r (js @ [?i]) = Some x"
        "\<And>wa. pt_get (pmem u) r wa = pt_get (pmem s) r wa"
        using 2 Suc.prems(1)
        by (intro walk_insert [OF _ v Suc.prems(2) False _ _ _ _ u]; simp)+
      have eq: "walk_loop (Suc l) p va True s = walk_loop l x va True u"
        using False 2 by (simp add: Let_def PX_px ent_def pv_def u_def)
      show ?thesis
        unfolding eq 2(1) using Suc.IH [OF ins(1,3) path]
        by (rule returns_weaken) (auto simp: ins(4) intro: pt_ext_trans [OF ins(2)])
    qed
  qed
qed

lemma walk_alloc:
  assumes "pt_inv s r xs" "va < MAXVA"
  shows "returns (walk r va True s) (\<lambda>slot t. \<exists>ys. pt_inv t r ys \<and> pt_ext r s xs t ys \<and>
    (\<forall>wa. pt_get (pmem t) r wa = pt_get (pmem s) r wa) \<and>
    (if slot = 0 then ys = []
     else \<exists>q. node (pmem t) r (lpath va) = Some q \<and> slot = q + 8 * PX 0 va))"
  using walk_loop_alloc [OF assms(1), of "[]" r 2 va] assms(2) by (simp add: walk_def levels_2 not_le)

lemma leaf_set:
  assumes inv: "pt_inv t r ys" and q: "node (pmem t) r (lpath va) = Some q" and va: "va < MAXVA"
    and u: "u = t\<lparr>pmem := store64 (pmem t) (q + 8 * PX 0 va) v\<rparr>"
  shows "pt_inv u r ys" "pt_ext r t ys u ys"
    "\<And>wa. wa < MAXVA \<Longrightarrow> pt_get (pmem u) r wa =
       (if PGROUNDDOWN wa = PGROUNDDOWN va then v else pt_get (pmem t) r wa)"
proof -
  have ok: "pt_ok (pmem t) r" and km: "kmem_inv t ys" "KmemLock \<notin> held t"
    and dis: "tpages (pmem t) r \<inter> set ys = {}"
    using inv by (auto simp: pt_inv_def)
  note pq = pt_okD [OF ok vpath_leaf q]
  have u': "u = t\<lparr>pmem := store64 (pmem t) (q + 8 * of_nat (px 0 va)) v\<rparr>" by (simp add: u PX_px)
  have nodes: "node (pmem u) r ps = node (pmem t) r ps" if "vpath ps" for ps
    using leaf_store_node [OF ok q _ _ _ that] by (simp add: u')
  have out: "outside q (pmem t) (pmem u)" using outside_slot by (simp add: u')
  note tab = pt_ok_transfer [OF ok, of "pmem u", OF nodes]
  have "kmem_inv u ys"
    by (rule kmem_inv_outside [OF km(1) out]) (use pq dis in \<open>auto simp: u\<close>)
  moreover have "inner_ok (pmem t) r" using inv by (simp add: pt_inv_def)
  then have "inner_ok (pmem u) r"
    by (rule inner_leaf [OF ok _ q [unfolded lpath_def] vpath_leaf [of va, unfolded lpath_def] px_less [of 0 va] nodes]) (simp_all add: u')
  ultimately show "pt_inv u r ys"
    using tab km(2) dis by (simp add: pt_inv_def) (simp add: u)
  have "pmem u a = pmem t a" if "\<forall>p \<in> tpages (pmem t) r \<union> set ys. \<not> in_page p a" for a
    using that pq(3) out by (auto simp: outside_def)
  then show "pt_ext r t ys u ys"
    using tab(2) unfolding pt_ext_def by (auto simp: u)
  fix wa :: u64 assume wa: "wa < MAXVA"
  note same = px_same_page [OF wa va]
  show "pt_get (pmem u) r wa = (if PGROUNDDOWN wa = PGROUNDDOWN va then v else pt_get (pmem t) r wa)"
  proof (cases "node (pmem t) r (lpath wa)")
    case None
    then have "PGROUNDDOWN wa \<noteq> PGROUNDDOWN va" using q same by (metis option.distinct(1))
    then show ?thesis using None by (simp add: pt_get_def nodes [OF vpath_leaf])
  next
    case (Some p)
    note pp = pt_okD [OF ok vpath_leaf Some]
    have "ent (pmem u) p (px 0 wa) = (if p = q \<and> px 0 wa = px 0 va then v else ent (pmem t) p (px 0 wa))"
      using ent_store [OF _ _ pq(1) pp(1)] by (simp add: u')
    moreover have "p = q \<longleftrightarrow> lpath wa = lpath va"
      using pp(4) [OF vpath_leaf] q Some by (metis option.inject)
    ultimately show ?thesis
      using same Some by (auto simp: pt_get_def nodes [OF vpath_leaf])
  qed
qed

lemma unat_page_add:
  assumes "unat (a :: u64) + 4096 * n < 2 ^ 38"
  shows "unat (a + 4096 * of_nat n) = unat a + 4096 * n"
proof -
  have "unat (4096 * of_nat n :: u64) = 4096 * n"
    using assms by (simp add: unat_word_ariths unat_of_nat_lt)
  then show ?thesis using assms by (subst unat_add_lem [THEN iffD1]) auto
qed

lemma aligned_between:
  assumes "aligned a" "aligned b" "a \<le> b" "a \<noteq> b"
  shows "unat a + 4096 \<le> unat b"
proof -
  obtain j k where jk: "unat a = 4096 * j" "unat b = 4096 * k"
    using assms(1,2) unfolding aligned_def by (elim dvdE) blast
  have "unat a < unat b"
    using assms(3,4) by (simp add: word_le_nat_alt word_unat_eq_iff)
  with jk show ?thesis by simp
qed

text \<open>The effect of mapping the pages from \<^verbatim>\<open>a\<close> to \<^verbatim>\<open>l\<close> on the map.\<close>

definition mapped :: "u64 \<Rightarrow> u64 \<Rightarrow> u64 \<Rightarrow> u64 \<Rightarrow> (u64 \<Rightarrow> u64) \<Rightarrow> u64 \<Rightarrow> u64" where
  "mapped a l pa perm g wa =
     (let p = PGROUNDDOWN wa in
      if a \<le> p \<and> p \<le> l then PA2PTE (pa + (p - a)) OR perm OR PTE_V else g wa)"

lemma mapped_step:
  assumes "aligned a" "a < l" "unat a + 4096 < 2 ^ 38" "aligned l"
  shows "mapped (a + PGSIZE) l (pa + PGSIZE) perm
      (\<lambda>wa. if PGROUNDDOWN wa = a then PA2PTE pa OR perm OR PTE_V else g wa) = mapped a l pa perm g"
proof
  fix wa
  have n: "unat (a + PGSIZE) = unat a + 4096" using unat_page_add [of a 1] assms(3) by simp
  have "a + PGSIZE \<le> PGROUNDDOWN wa \<longleftrightarrow> a \<le> PGROUNDDOWN wa \<and> PGROUNDDOWN wa \<noteq> a"
    using aligned_between [OF assms(1) aligned_PGROUNDDOWN, of wa] n
    by (auto simp: word_le_nat_alt)
  then show "mapped (a + PGSIZE) l (pa + PGSIZE) perm
      (\<lambda>wa. if PGROUNDDOWN wa = a then PA2PTE pa OR perm OR PTE_V else g wa) wa = mapped a l pa perm g wa"
    using assms(2) by (auto simp: mapped_def Let_def)
qed

text \<open>One iteration of \<^verbatim>\<open>mappages\<close> on an unmapped page.\<close>

lemma map_one:
  assumes inv: "pt_inv s r xs" and a: "aligned a" "a < MAXVA" and free: "\<not> pv (pt_get (pmem s) r a)"
  obtains (full) t where "walk r a True s = Ret 0 t" "pt_inv t r []" "pt_ext r s xs t []"
      "\<And>wa. pt_get (pmem t) r wa = pt_get (pmem s) r wa"
  | (filled) slot t ys u where "walk r a True s = Ret slot t" "slot \<noteq> 0" "load64 (pmem t) slot AND PTE_V = 0"
      "u = t\<lparr>pmem := store64 (pmem t) slot v\<rparr>" "pt_inv u r ys" "pt_ext r s xs u ys"
      "\<And>wa. wa < MAXVA \<Longrightarrow> pt_get (pmem u) r wa = (if PGROUNDDOWN wa = a then v else pt_get (pmem s) r wa)"
proof -
  obtain slot t ys where w: "walk r a True s = Ret slot t" "pt_inv t r ys" "pt_ext r s xs t ys"
    "\<And>wa. pt_get (pmem t) r wa = pt_get (pmem s) r wa"
    "if slot = 0 then ys = [] else \<exists>q. node (pmem t) r (lpath a) = Some q \<and> slot = q + 8 * PX 0 a"
    using walk_alloc [OF inv a(2)] by (auto simp: returns_iff)
  show thesis
  proof (cases "slot = 0")
    case True
    then show thesis using w full [of t] by simp
  next
    case False
    then obtain q where q: "node (pmem t) r (lpath a) = Some q" "slot = q + 8 * PX 0 a"
      using w(5) by auto
    have "load64 (pmem t) slot = pt_get (pmem s) r a"
      using q w(4) [of a] by (simp add: pt_get_def ent_def PX_px)
    then have z: "load64 (pmem t) slot AND PTE_V = 0" using free by (simp add: pv_def)
    define u where "u = t\<lparr>pmem := store64 (pmem t) (q + 8 * PX 0 a) v\<rparr>"
    note ls = leaf_set [OF w(2) q(1) a(2) u_def]
    have "u = t\<lparr>pmem := store64 (pmem t) slot v\<rparr>" using q(2) by (simp add: u_def)
    moreover have "pt_get (pmem u) r wa = (if PGROUNDDOWN wa = a then v else pt_get (pmem s) r wa)"
      if "wa < MAXVA" for wa
      using ls(3) [OF that] w(4) a(1) by simp
    ultimately show thesis
      using filled [OF w(1) False z _ ls(1) pt_ext_trans [OF w(3) ls(2)]] by blast
  qed
qed

lemma mappages_loop_map:
  assumes "pt_inv s r xs" "aligned a" "unat a + 4096 * n < 2 ^ 38"
    and "\<And>wa. a \<le> wa \<Longrightarrow> wa \<le> a + 4096 * of_nat n \<Longrightarrow> aligned wa \<Longrightarrow> \<not> pv (pt_get (pmem s) r wa)"
  shows "returns (mappages_loop r a (a + 4096 * of_nat n) pa perm s) (\<lambda>res t. \<exists>ys.
    pt_inv t r ys \<and> pt_ext r s xs t ys \<and>
    (if res = 0
     then \<forall>wa. wa < MAXVA \<longrightarrow> pt_get (pmem t) r wa = mapped a (a + 4096 * of_nat n) pa perm (pt_get (pmem s) r) wa
     else res = -1 \<and> ys = [] \<and> (\<forall>wa. wa < MAXVA \<longrightarrow> PGROUNDDOWN wa < a \<or> a + 4096 * of_nat n < PGROUNDDOWN wa \<longrightarrow>
       pt_get (pmem t) r wa = pt_get (pmem s) r wa)))"
  using assms
proof (induction n arbitrary: s xs a pa)
  case 0
  have lt: "a < MAXVA" and free: "\<not> pv (pt_get (pmem s) r a)"
    using 0(2,3) 0(4) [of a] by (simp_all add: word_less_nat_alt)
  show ?case
  proof (rule map_one [OF 0(1,2) lt free, where v = "PA2PTE pa OR perm OR PTE_V"])
    fix t assume "walk r a True s = Ret 0 t" "pt_inv t r []" "pt_ext r s xs t []"
      "\<And>wa. pt_get (pmem t) r wa = pt_get (pmem s) r wa"
    then show ?thesis by (subst mappages_loop.simps) auto
  next
    fix slot t ys u
    assume u: "walk r a True s = Ret slot t" "slot \<noteq> 0" "load64 (pmem t) slot AND PTE_V = 0"
      "u = t\<lparr>pmem := store64 (pmem t) slot (PA2PTE pa OR perm OR PTE_V)\<rparr>" "pt_inv u r ys" "pt_ext r s xs u ys"
      "\<And>wa. wa < MAXVA \<Longrightarrow> pt_get (pmem u) r wa =
         (if PGROUNDDOWN wa = a then PA2PTE pa OR perm OR PTE_V else pt_get (pmem s) r wa)"
    have "mappages_loop r a (a + 4096 * of_nat 0) pa perm s = Ret 0 u"
      using u by (subst mappages_loop.simps) simp
    moreover have "pt_get (pmem u) r wa = mapped a a pa perm (pt_get (pmem s) r) wa" if "wa < MAXVA" for wa
      using u(7) [OF that] by (auto simp: mapped_def Let_def)
    ultimately show ?thesis using u(5,6) by auto
  qed
next
  case (Suc n)
  let ?l = "a + 4096 * of_nat (Suc n)"
  have lt: "a < MAXVA" and free: "\<not> pv (pt_get (pmem s) r a)"
    using Suc.prems(2,3) Suc.prems(4) [of a] unat_page_add [of a "Suc n"]
    by (simp_all add: word_less_nat_alt word_le_nat_alt)
  have nx: "unat (a + PGSIZE) = unat a + 4096" "unat ?l = unat a + 4096 * Suc n"
    using unat_page_add [of a 1] unat_page_add [of a "Suc n"] Suc.prems(3) by simp_all
  have al: "a < ?l" "a \<noteq> ?l" "aligned ?l" "aligned (a + PGSIZE)"
    using nx Suc.prems(2) by (auto simp: word_less_nat_alt aligned_def)
  have l: "(a + PGSIZE) + 4096 * of_nat n = ?l" by (simp add: algebra_simps)
  show ?case
  proof (rule map_one [OF Suc.prems(1,2) lt free, where v = "PA2PTE pa OR perm OR PTE_V"])
    fix t assume "walk r a True s = Ret 0 t" "pt_inv t r []" "pt_ext r s xs t []"
      "\<And>wa. pt_get (pmem t) r wa = pt_get (pmem s) r wa"
    then show ?thesis by (subst mappages_loop.simps) auto
  next
    fix slot t ys u
    assume u: "walk r a True s = Ret slot t" "slot \<noteq> 0" "load64 (pmem t) slot AND PTE_V = 0"
      "u = t\<lparr>pmem := store64 (pmem t) slot (PA2PTE pa OR perm OR PTE_V)\<rparr>" "pt_inv u r ys" "pt_ext r s xs u ys"
      "\<And>wa. wa < MAXVA \<Longrightarrow> pt_get (pmem u) r wa =
         (if PGROUNDDOWN wa = a then PA2PTE pa OR perm OR PTE_V else pt_get (pmem s) r wa)"
    have step: "mappages_loop r a ?l pa perm s = mappages_loop r (a + PGSIZE) ?l (pa + PGSIZE) perm u"
      using u al(2) by (subst mappages_loop.simps) simp
    have "\<not> pv (pt_get (pmem u) r wa)" if "a + PGSIZE \<le> wa" "wa \<le> ?l" "aligned wa" for wa
    proof -
      have "a \<le> wa" "wa \<noteq> a" "wa < MAXVA"
        using that(1,2) nx Suc.prems(3) by (auto simp: word_le_nat_alt word_less_nat_alt)
      then show ?thesis using u(7) [of wa] Suc.prems(4) [of wa] that by simp
    qed
    then have IH: "returns (mappages_loop r (a + PGSIZE) ((a + PGSIZE) + 4096 * of_nat n) (pa + PGSIZE) perm u) (\<lambda>res t. \<exists>ys'.
      pt_inv t r ys' \<and> pt_ext r u ys t ys' \<and>
      (if res = 0
       then \<forall>wa. wa < MAXVA \<longrightarrow> pt_get (pmem t) r wa = mapped (a + PGSIZE) ((a + PGSIZE) + 4096 * of_nat n) (pa + PGSIZE) perm (pt_get (pmem u) r) wa
       else res = -1 \<and> ys' = [] \<and> (\<forall>wa. wa < MAXVA \<longrightarrow>
         PGROUNDDOWN wa < a + PGSIZE \<or> (a + PGSIZE) + 4096 * of_nat n < PGROUNDDOWN wa \<longrightarrow>
         pt_get (pmem t) r wa = pt_get (pmem u) r wa)))"
      using u(5) al(4) nx Suc.prems(3) by (intro Suc.IH) (simp_all add: algebra_simps)
    have m: "mapped (a + PGSIZE) ?l (pa + PGSIZE) perm (pt_get (pmem u) r) wa =
        mapped a ?l pa perm (pt_get (pmem s) r) wa" if "wa < MAXVA" for wa
      using mapped_step [OF Suc.prems(2) al(1) _ al(3), of pa perm "pt_get (pmem s) r"]
        u(7) [OF that] Suc.prems(3) by (auto simp: mapped_def Let_def dest!: fun_cong [of _ _ wa])
    have o: "pt_get (pmem u) r wa = pt_get (pmem s) r wa"
      if "wa < MAXVA" "PGROUNDDOWN wa < a \<or> ?l < PGROUNDDOWN wa" for wa
      using u(7) [OF that(1)] that(2) al(1) by auto
    have lt': "PGROUNDDOWN wa < a \<Longrightarrow> PGROUNDDOWN wa < a + PGSIZE" for wa
      using nx by (simp add: word_less_nat_alt)
    show ?thesis
      unfolding step using IH unfolding l
      by (rule returns_weaken) (use pt_ext_trans [OF u(6)] m o lt' in \<open>auto split: if_splits\<close>)
  qed
qed

lemma mappages_map:
  assumes inv: "pt_inv s r xs" and va: "aligned va" "aligned sz" "sz \<noteq> 0" "unat va + unat sz \<le> 2 ^ 38"
    and free: "\<And>wa. va \<le> wa \<Longrightarrow> wa < va + sz \<Longrightarrow> aligned wa \<Longrightarrow> \<not> pv (pt_get (pmem s) r wa)"
  shows "returns (mappages r va sz pa perm s) (\<lambda>res t. \<exists>ys.
    pt_inv t r ys \<and> pt_ext r s xs t ys \<and>
    (if res = 0
     then \<forall>wa. wa < MAXVA \<longrightarrow> pt_get (pmem t) r wa = mapped va (va + sz - PGSIZE) pa perm (pt_get (pmem s) r) wa
     else res = -1 \<and> ys = [] \<and> (\<forall>wa. wa < MAXVA \<longrightarrow> PGROUNDDOWN wa < va \<or> va + sz - PGSIZE < PGROUNDDOWN wa \<longrightarrow>
       pt_get (pmem t) r wa = pt_get (pmem s) r wa)))"
proof -
  obtain k where k: "unat sz = 4096 * k" using va(2) by (auto simp: aligned_def)
  moreover have "unat sz \<noteq> 0" using va(3) by (simp add: unat_eq_zero)
  ultimately obtain n where n: "unat sz = 4096 * n + 4096" by (cases k) auto
  have sz: "sz = 4096 * of_nat n + 4096"
    using arg_cong [OF n, of "of_nat :: nat \<Rightarrow> u64"] by (simp add: algebra_simps)
  then have l: "va + sz - PGSIZE = va + 4096 * of_nat n" by simp
  have fit: "unat va + 4096 * n < 2 ^ 38" using n va(4) by simp
  have "unat (va + 4096 * of_nat n) = unat va + 4096 * n" by (rule unat_page_add [OF fit])
  moreover have "unat (va + sz) = unat va + unat sz"
    using va(4) by (subst unat_add_lem [THEN iffD1]) auto
  ultimately have lt: "va + 4096 * of_nat n < va + sz" using n by (simp add: word_less_nat_alt)
  have "mappages r va sz pa perm s = mappages_loop r va (va + 4096 * of_nat n) pa perm s"
    using va(1-3) by (simp add: mappages_def mod_PGSIZE_aligned l)
  then show ?thesis
    unfolding l using free lt by (simp only:) (intro mappages_loop_map [OF inv va(1) fit], auto)
qed

subsection \<open>Translating user addresses\<close>

definition pu :: "u64 \<Rightarrow> bool" where
  "pu e \<longleftrightarrow> e AND PTE_U \<noteq> 0"

definition pw :: "u64 \<Rightarrow> bool" where
  "pw e \<longleftrightarrow> e AND PTE_W \<noteq> 0"

text \<open>The physical address of a user virtual address, and when the user may use it.\<close>

definition uaddr :: "mem \<Rightarrow> u64 \<Rightarrow> u64 \<Rightarrow> u64" where
  "uaddr m r va = PTE2PA (pt_get m r va) + (va - PGROUNDDOWN va)"

definition user_page :: "mem \<Rightarrow> u64 \<Rightarrow> u64 \<Rightarrow> bool" where
  "user_page m r va \<longleftrightarrow>
     va < MAXVA \<and> pv (pt_get m r va) \<and> pu (pt_get m r va) \<and> PTE2PA (pt_get m r va) \<noteq> 0"

lemma aligned_PTE2PA [simp]: "aligned (PTE2PA e)"
proof -
  have "PTE2PA e AND NOT (mask 12) = PTE2PA e"
    by (rule bit_word_eqI)
      (auto simp: PTE2PA_def bit_and_iff bit_not_iff bit_mask_iff bit_push_bit_iff)
  then have "unat (PTE2PA e) - unat (PTE2PA e) mod 2 ^ 12 = unat (PTE2PA e)"
    by (simp only: flip: unat_and_not_mask)
  then have "unat (PTE2PA e) mod 4096 = 0"
    using mod_less_eq_dividend [of "unat (PTE2PA e)" 4096] by simp
  then show ?thesis by (simp add: aligned_def dvd_eq_mod_eq_0)
qed

lemma walkaddr_get:
  assumes "pt_ok (pmem s) r" "va < MAXVA"
  shows "walkaddr r va s =
    Ret (if pv (pt_get (pmem s) r va) \<and> pu (pt_get (pmem s) r va)
         then PTE2PA (pt_get (pmem s) r va) else 0) s"
proof (rule walk_pt_get [OF assms])
  assume "walk r va False s = Ret 0 s" "pt_get (pmem s) r va = 0"
  then show ?thesis using assms(2) by (simp add: walkaddr_def)
next
  fix q assume "walk r va False s = Ret (q + 8 * PX 0 va) s" "q + 8 * PX 0 va \<noteq> 0"
    "load64 (pmem s) (q + 8 * PX 0 va) = pt_get (pmem s) r va"
  then show ?thesis using assms(2) by (auto simp: walkaddr_def pv_def pu_def Let_def)
qed

lemma pt_get_page:
  assumes "va < MAXVA" "wa < MAXVA" "PGROUNDDOWN va = PGROUNDDOWN wa"
  shows "pt_get m r va = pt_get m r wa"
proof -
  have "lpath va = lpath wa" "px 0 va = px 0 wa"
    using px_same_page [OF assms(1,2)] assms(3) by simp_all
  then show ?thesis unfolding pt_get_def by (simp only:)
qed

lemma page_next:
  assumes "unat va + i < 2 ^ 38" "unat va mod 4096 + i < 4096"
  shows "PGROUNDDOWN (va + of_nat i) = PGROUNDDOWN va" "va + of_nat i < MAXVA"
    "(va + of_nat i) - PGROUNDDOWN va = (va - PGROUNDDOWN va) + of_nat i"
proof -
  have i: "unat (va + of_nat i) = unat va + i"
    using assms(1) by (subst unat_add_lem [THEN iffD1]) (simp_all add: unat_of_nat_lt)
  have "(unat va + i) mod 4096 = unat va mod 4096 + i"
    using assms(2) by (metis mod_add_left_eq mod_less)
  moreover have "unat va mod 4096 \<le> unat va" by simp
  ultimately show "PGROUNDDOWN (va + of_nat i) = PGROUNDDOWN va"
    by (simp add: word_unat_eq_iff unat_PGROUNDDOWN i)
  show "va + of_nat i < MAXVA" using assms(1) i by (simp add: word_less_nat_alt)
  show "(va + of_nat i) - PGROUNDDOWN va = (va - PGROUNDDOWN va) + of_nat i" by simp
qed

lemma uaddr_step:
  assumes "unat va + i < 2 ^ 38" "unat va mod 4096 + i < 4096"
  shows "uaddr m r (va + of_nat i) = PTE2PA (pt_get m r va) + (va - PGROUNDDOWN va) + of_nat i"
proof -
  have va: "va < MAXVA" using assms(1) by (simp add: word_less_nat_alt)
  note n = page_next [OF assms]
  have "pt_get m r (va + of_nat i) = pt_get m r va" by (rule pt_get_page [OF n(2) va n(1)])
  then show ?thesis using n by (simp add: uaddr_def)
qed

text \<open>The next page of a transfer starts where the chunk of this page ends.\<close>

lemma chunk_next:
  assumes "page_chunk va len < len" "unat va + len \<le> 2 ^ 38"
  shows "PGROUNDDOWN va + PGSIZE = va + of_nat (page_chunk va len)"
    and "unat (PGROUNDDOWN va + PGSIZE) = unat va + page_chunk va len"
proof -
  have c: "page_chunk va len = 4096 - unat va mod 4096" using assms(1) by (simp add: page_chunk_eq)
  have le: "unat va mod 4096 \<le> unat va" "unat va mod 4096 < 4096" by simp_all
  have b: "unat va + page_chunk va len < 2 ^ 38" using assms by simp
  have 1: "unat (va + of_nat (page_chunk va len)) = unat va + page_chunk va len"
    using b by (subst unat_add_lem [THEN iffD1]) (simp_all add: unat_of_nat_lt)
  have 2: "unat (PGROUNDDOWN va + PGSIZE) = unat va + page_chunk va len"
    using b c le by (subst unat_add_lem [THEN iffD1]) (auto simp: unat_PGROUNDDOWN)
  then show "unat (PGROUNDDOWN va + PGSIZE) = unat va + page_chunk va len" .
  show "PGROUNDDOWN va + PGSIZE = va + of_nat (page_chunk va len)"
    using 1 2 by (simp add: word_unat_eq_iff)
qed

subsection \<open>Copying through a page table\<close>

lemma PGROUNDDOWN_MAXVA: "va < MAXVA \<Longrightarrow> PGROUNDDOWN va < MAXVA"
  using PGROUNDDOWN_le [of va] by simp

lemma PGROUNDDOWN_idem [simp]: "PGROUNDDOWN (PGROUNDDOWN va) = PGROUNDDOWN va"
  by simp

lemma user_page_walkaddr:
  assumes "pt_ok (pmem s) r" "user_page (pmem s) r va"
  shows "walkaddr r (PGROUNDDOWN va) s = Ret (PTE2PA (pt_get (pmem s) r va)) s"
    and "PTE2PA (pt_get (pmem s) r va) \<noteq> 0"
proof -
  have va: "va < MAXVA" using assms(2) by (simp add: user_page_def)
  have "pt_get (pmem s) r (PGROUNDDOWN va) = pt_get (pmem s) r va"
    by (rule pt_get_page [OF PGROUNDDOWN_MAXVA [OF va] va]) simp
  then show "walkaddr r (PGROUNDDOWN va) s = Ret (PTE2PA (pt_get (pmem s) r va)) s"
    and "PTE2PA (pt_get (pmem s) r va) \<noteq> 0"
    using walkaddr_get [OF assms(1) PGROUNDDOWN_MAXVA [OF va]] assms(2) by (simp_all add: user_page_def)
qed

lemma upt_split_map:
  assumes "n \<le> len"
  shows "map f [0..<len] = map f [0..<n] @ map (\<lambda>i. f (n + i)) [0..<len - n]"
proof -
  have "map (\<lambda>i. f (n + i)) [0..<len - n] = map f [n..<len]"
    by (rule nth_equalityI) (use assms in auto)
  then show ?thesis using upt_add_eq_append [of 0 n "len - n"] assms by simp
qed

lemma copyin_user:
  assumes "pt_ok (pmem s) r" "unat srcva + len \<le> 2 ^ 38"
    and "\<forall>i<len. user_page (pmem s) r (srcva + of_nat i)"
  shows "copyin r srcva len s =
    Ret (0, map (\<lambda>i. pmem s (uaddr (pmem s) r (srcva + of_nat i))) [0..<len]) s"
  using assms
proof (induction len arbitrary: srcva rule: less_induct)
  case (less len)
  show ?case
  proof (cases "len = 0")
    case True
    then show ?thesis by (subst copyin.simps) simp
  next
    case False
    let ?n = "page_chunk srcva len"
    let ?f = "\<lambda>i. pmem s (uaddr (pmem s) r (srcva + of_nat i))"
    have n: "0 < ?n" "?n \<le> len" "unat srcva mod 4096 + ?n \<le> 4096"
      using False by (simp_all add: page_chunk_eq)
    have "user_page (pmem s) r srcva" using less.prems(3) False by (auto dest: spec [of _ 0])
    note w = user_page_walkaddr [OF less.prems(1) this]
    have bytes: "read_bytes (pmem s) (PTE2PA (pt_get (pmem s) r srcva) + (srcva - PGROUNDDOWN srcva)) ?n =
        map ?f [0..<?n]"
    proof -
      have "uaddr (pmem s) r (srcva + of_nat i) =
          PTE2PA (pt_get (pmem s) r srcva) + (srcva - PGROUNDDOWN srcva) + of_nat i" if "i < ?n" for i
        by (rule uaddr_step) (use that n less.prems(2) in linarith)+
      then show ?thesis by (simp add: read_bytes_def)
    qed
    have rest: "copyin r (PGROUNDDOWN srcva + PGSIZE) (len - ?n) s =
        Ret (0, map (\<lambda>i. ?f (?n + i)) [0..<len - ?n]) s"
    proof (cases "?n < len")
      case True
      note nx = chunk_next [OF True less.prems(2)]
      have eq: "(PGROUNDDOWN srcva + PGSIZE) + of_nat i = srcva + of_nat (?n + i)" for i
        using nx(1) by (simp add: algebra_simps)
      have "copyin r (PGROUNDDOWN srcva + PGSIZE) (len - ?n) s = Ret (0,
          map (\<lambda>i. pmem s (uaddr (pmem s) r ((PGROUNDDOWN srcva + PGSIZE) + of_nat i))) [0..<len - ?n]) s"
        using n less.prems True nx(2) by (intro less.IH) (auto simp: eq simp del: of_nat_add)
      then show ?thesis unfolding eq .
    next
      case c: False
      then have z: "len - ?n = 0" using n by simp
      show ?thesis unfolding z by (subst copyin.simps) simp
    qed
    have "map ?f [0..<len] = map ?f [0..<?n] @ map (\<lambda>i. ?f (?n + i)) [0..<len - ?n]"
      by (rule upt_split_map [OF n(2)])
    then show ?thesis
      using False w bytes rest by (subst copyin.simps) (simp add: Let_def)
  qed
qed

text \<open>Writes outside the page-table pages leave the table alone.\<close>

lemma ent_frame:
  assumes same: "\<And>q a. q \<in> tpages m r \<Longrightarrow> in_page q a \<Longrightarrow> m' a = m a" and q: "q \<in> tpages m r" "i < 512"
  shows "ent m' q i = ent m q i"
  unfolding ent_def
proof (rule load64_cong)
  fix x assume x: "unat (x - (q + 8 * of_nat i)) < 8"
  have "unat ((x - (q + 8 * of_nat i)) + ((q + 8 * of_nat i) - q)) =
      unat (x - (q + 8 * of_nat i)) + unat ((q + 8 * of_nat i) - q)"
    using x slot_in_page [OF q(2), of q] by (subst unat_add_lem [THEN iffD1]) auto
  then have "in_page q x" using x slot_in_page [OF q(2), of q] by (simp add: in_page_def)
  then show "m' x = m x" by (rule same [OF q(1)])
qed

lemma node_frame:
  assumes ok: "pt_ok m r" and same: "\<And>q a. q \<in> tpages m r \<Longrightarrow> in_page q a \<Longrightarrow> m' a = m a" and ps: "vpath ps"
  shows "node m' r ps = node m r ps"
proof (rule node_cong)
  fix js i ks q assume s: "ps = js @ i # ks" "node m r js = Some q"
  then have "vpath js" "i < 512" using vpath_append ps by blast+
  then have "q \<in> tpages m r" "i < 512" using pt_okD(3) [OF ok _ s(2)] by blast+
  then show "ent m' q i = ent m q i" by (intro ent_frame) (rule same)
qed

lemma pt_frame:
  assumes ok: "pt_ok m r" and same: "\<And>q a. q \<in> tpages m r \<Longrightarrow> in_page q a \<Longrightarrow> m' a = m a"
  shows "pt_ok m' r" "tpages m' r = tpages m r" "pt_get m' r wa = pt_get m r wa"
proof -
  have e: "ent m' q i = ent m q i" if "q \<in> tpages m r" "i < 512" for q i
    using that by (intro ent_frame) (rule same)
  have nodes: "node m' r ps = node m r ps" if "vpath ps" for ps
    using ok _ that by (rule node_frame) (rule same)
  show "pt_ok m' r" "tpages m' r = tpages m r" using pt_ok_transfer [OF ok nodes] by auto
  show "pt_get m' r wa = pt_get m r wa"
  proof (cases "node m r (lpath wa)")
    case None
    then show ?thesis by (simp add: pt_get_def nodes)
  next
    case (Some q)
    then show ?thesis using e [OF pt_okD(3) [OF ok vpath_leaf Some], of "px 0 wa"]
      by (simp add: pt_get_def nodes)
  qed
qed

text \<open>A page the user may write, and which is not itself a page of the page table.\<close>

definition user_wpage :: "mem \<Rightarrow> u64 \<Rightarrow> u64 \<Rightarrow> bool" where
  "user_wpage m r va \<longleftrightarrow>
     user_page m r va \<and> pw (pt_get m r va) \<and> PTE2PA (pt_get m r va) \<notin> tpages m r"

lemma uaddr_in_page: "in_page (PTE2PA (pt_get m r va)) (uaddr m r va)"
  by (simp add: in_page_def uaddr_def PGROUNDDOWN_off)

lemma walk_wpage:
  assumes "pt_ok (pmem s) r" "user_wpage (pmem s) r va"
  obtains pte where "walk r (PGROUNDDOWN va) False s = Ret pte s" "pte \<noteq> 0"
    "load64 (pmem s) pte AND PTE_W \<noteq> 0"
proof -
  have va: "va < MAXVA" using assms(2) by (simp add: user_wpage_def user_page_def)
  have eq: "pt_get (pmem s) r (PGROUNDDOWN va) = pt_get (pmem s) r va"
    by (rule pt_get_page [OF PGROUNDDOWN_MAXVA [OF va] va]) simp
  show thesis
    by (rule walk_pt_get [OF assms(1) PGROUNDDOWN_MAXVA [OF va]])
      (use assms(2) that eq in \<open>auto simp: user_wpage_def user_page_def pw_def pv_def\<close>)
qed

lemma copyout_chunk:
  assumes ok: "pt_ok (pmem s) r" and len: "src \<noteq> []" "unat dstva + length src \<le> 2 ^ 38"
    and pages: "\<forall>i<length src. user_wpage (pmem s) r (dstva + of_nat i)"
    and n: "n = page_chunk dstva (length src)"
    and m: "m = write_bytes (pmem s) (PTE2PA (pt_get (pmem s) r dstva) + (dstva - PGROUNDDOWN dstva)) (take n src)"
  shows "copyout r dstva src s = copyout r (PGROUNDDOWN dstva + PGSIZE) (drop n src) (s\<lparr>pmem := m\<rparr>)"
    and "pt_ok m r" "tpages m r = tpages (pmem s) r" "pt_get m r wa = pt_get (pmem s) r wa"
    and "i < n \<Longrightarrow> m (uaddr (pmem s) r (dstva + of_nat i)) = src ! i"
    and "(\<And>i. i < n \<Longrightarrow> a \<noteq> uaddr (pmem s) r (dstva + of_nat i)) \<Longrightarrow> m a = pmem s a"
proof -
  let ?pa = "PTE2PA (pt_get (pmem s) r dstva)"
  let ?off = "dstva - PGROUNDDOWN dstva"
  have nn: "0 < n" "n \<le> length src" "unat dstva mod 4096 + n \<le> 4096"
    using len(1) by (simp_all add: n page_chunk_eq)
  have wp: "user_wpage (pmem s) r dstva" using pages len(1) by (auto dest: spec [of _ 0])
  then have up: "user_page (pmem s) r dstva" and npt: "?pa \<notin> tpages (pmem s) r"
    by (simp_all add: user_wpage_def)
  note w = user_page_walkaddr [OF ok up]
  obtain pte where pte: "walk r (PGROUNDDOWN dstva) False s = Ret pte s" "pte \<noteq> 0"
    "load64 (pmem s) pte AND PTE_W \<noteq> 0"
    by (rule walk_wpage [OF ok wp])
  have "dstva < MAXVA" using up by (simp add: user_page_def)
  then have "\<not> PGROUNDDOWN dstva \<ge> MAXVA" using PGROUNDDOWN_MAXVA by (simp add: not_le)
  then show "copyout r dstva src s = copyout r (PGROUNDDOWN dstva + PGSIZE) (drop n src) (s\<lparr>pmem := m\<rparr>)"
    using w pte len(1) by (subst copyout.simps) (simp add: Let_def m n)
  have addr: "uaddr (pmem s) r (dstva + of_nat i) = ?pa + ?off + of_nat i" if "i < n" for i
    by (rule uaddr_step) (use that nn len(2) in linarith)+
  have off: "unat (?pa + ?off + of_nat i - (?pa + ?off)) = i" if "i < n" for i
    using that nn by (simp add: unat_of_nat_lt)
  have inp: "in_page ?pa x" if "unat (x - (?pa + ?off)) < n" for x
  proof -
    have "unat ((x - (?pa + ?off)) + ?off) = unat (x - (?pa + ?off)) + unat ?off"
      using that nn by (subst unat_add_lem [THEN iffD1]) (auto simp: PGROUNDDOWN_off)
    then show ?thesis using that nn by (simp add: in_page_def PGROUNDDOWN_off)
  qed
  have ltn: "length (take n src) = n" using nn by simp
  have fr: "m x = pmem s x" if "q \<in> tpages (pmem s) r" "in_page q x" for q x
  proof -
    have "aligned q" "q \<noteq> ?pa" using ok that(1) npt by (auto simp: pt_ok_def)
    then have "\<not> in_page ?pa x" using that(2) in_page_disjoint [of q ?pa x] by auto
    then show ?thesis using inp [of x] by (auto simp: m write_bytes_def ltn)
  qed
  show "pt_ok m r" "tpages m r = tpages (pmem s) r" "pt_get m r wa = pt_get (pmem s) r wa"
    using pt_frame [OF ok fr] by auto
  show "m (uaddr (pmem s) r (dstva + of_nat i)) = src ! i" if "i < n"
    using addr [OF that] off [OF that] that nn(2) by (simp add: m write_bytes_def ltn)
  show "m a = pmem s a" if "\<And>i. i < n \<Longrightarrow> a \<noteq> uaddr (pmem s) r (dstva + of_nat i)"
  proof (rule ccontr)
    assume "m a \<noteq> pmem s a"
    then have lt: "unat (a - (?pa + ?off)) < n" by (auto simp: m write_bytes_def ltn split: if_splits)
    have "a = ?pa + ?off + of_nat (unat (a - (?pa + ?off)))" by simp
    with that [OF lt] addr [OF lt] show False by simp
  qed
qed

lemma unat_add_small:
  "unat (a :: u64) + i < 2 ^ 38 \<Longrightarrow> unat (a + of_nat i) = unat a + i"
  by (subst unat_add_lem [THEN iffD1]) (simp_all add: unat_of_nat_lt)

lemma aligned_le_PGROUNDDOWN:
  assumes "aligned x" "x \<le> y"
  shows "x \<le> PGROUNDDOWN y"
proof -
  obtain k where k: "unat x = 4096 * k" using assms(1) by (auto simp: aligned_def)
  then have "k \<le> unat y div 4096" using assms(2) by (simp add: word_le_nat_alt less_eq_div_iff_mult_less_eq)
  then show ?thesis
    using k by (simp add: word_le_nat_alt unat_PGROUNDDOWN minus_mod_eq_mult_div)
qed

lemma aligned_PGROUNDDOWN_next: "aligned (PGROUNDDOWN a + PGSIZE)"
proof -
  have "4096 dvd (unat (PGROUNDDOWN a) + 4096) mod 2 ^ 64"
    using aligned_PGROUNDDOWN [of a] unfolding aligned_def by (intro dvd_mod) auto
  then show ?thesis by (simp add: aligned_def unat_word_ariths)
qed

lemma copyout_user:
  assumes "pt_ok (pmem s) r" "unat dstva + length src \<le> 2 ^ 38"
    and "\<forall>i<length src. user_wpage (pmem s) r (dstva + of_nat i)"
    and "\<forall>i<length src. \<forall>j<length src.
      PTE2PA (pt_get (pmem s) r (dstva + of_nat i)) = PTE2PA (pt_get (pmem s) r (dstva + of_nat j)) \<longrightarrow>
      PGROUNDDOWN (dstva + of_nat i) = PGROUNDDOWN (dstva + of_nat j)"
  shows "\<exists>m. copyout r dstva src s = Ret 0 (s\<lparr>pmem := m\<rparr>) \<and>
    pt_ok m r \<and> (\<forall>wa. pt_get m r wa = pt_get (pmem s) r wa) \<and>
    (\<forall>i<length src. m (uaddr (pmem s) r (dstva + of_nat i)) = src ! i) \<and>
    (\<forall>a. (\<forall>i<length src. a \<noteq> uaddr (pmem s) r (dstva + of_nat i)) \<longrightarrow> m a = pmem s a)"
  using assms
proof (induction "length src" arbitrary: src dstva s rule: less_induct)
  case less
  show ?case
  proof (cases "src = []")
    case True
    then show ?thesis using less.prems(1) by (subst copyout.simps) (auto intro!: exI [of _ "pmem s"])
  next
    case False
    define n where "n = page_chunk dstva (length src)"
    define m1 where "m1 = write_bytes (pmem s) (PTE2PA (pt_get (pmem s) r dstva) + (dstva - PGROUNDDOWN dstva)) (take n src)"
    note c = copyout_chunk [OF less.prems(1) False less.prems(2,3) n_def m1_def]
    have n: "0 < n" "n \<le> length src" using False by (simp_all add: n_def)
    have ua: "uaddr m1 r va = uaddr (pmem s) r va" for va by (simp add: uaddr_def c(4))
    show ?thesis
    proof (cases "n < length src")
      case short: False
      then have "n = length src" using n by simp
      moreover from this have "copyout r dstva src s = Ret 0 (s\<lparr>pmem := m1\<rparr>)"
        unfolding c(1) by (subst copyout.simps) simp
      ultimately show ?thesis using c(2,4,5,6) by (intro exI [of _ m1]) simp
    next
      case True
      note nx = chunk_next [OF True [unfolded n_def] less.prems(2), folded n_def]
      have eq: "(PGROUNDDOWN dstva + PGSIZE) + of_nat i = dstva + of_nat (n + i)" for i
        using nx(1) by (simp add: algebra_simps)
      have "\<exists>m. copyout r (PGROUNDDOWN dstva + PGSIZE) (drop n src) (s\<lparr>pmem := m1\<rparr>) =
            Ret 0 (s\<lparr>pmem := m1\<rparr>\<lparr>pmem := m\<rparr>) \<and>
          pt_ok m r \<and> (\<forall>wa. pt_get m r wa = pt_get (pmem (s\<lparr>pmem := m1\<rparr>)) r wa) \<and>
          (\<forall>i<length (drop n src). m (uaddr (pmem (s\<lparr>pmem := m1\<rparr>)) r ((PGROUNDDOWN dstva + PGSIZE) + of_nat i)) = drop n src ! i) \<and>
          (\<forall>a. (\<forall>i<length (drop n src). a \<noteq> uaddr (pmem (s\<lparr>pmem := m1\<rparr>)) r ((PGROUNDDOWN dstva + PGSIZE) + of_nat i)) \<longrightarrow>
            m a = pmem (s\<lparr>pmem := m1\<rparr>) a)"
        unfolding eq
      proof (rule less.hyps [of "drop n src" "s\<lparr>pmem := m1\<rparr>" "PGROUNDDOWN dstva + PGSIZE", unfolded eq])
        show "length (drop n src) < length src" using n by simp
        show "pt_ok (pmem (s\<lparr>pmem := m1\<rparr>)) r" using c(2) by simp
        show "unat (PGROUNDDOWN dstva + PGSIZE) + length (drop n src) \<le> 2 ^ 38" using nx(2) less.prems(2) n by simp
        show "\<forall>i<length (drop n src). user_wpage (pmem (s\<lparr>pmem := m1\<rparr>)) r (dstva + of_nat (n + i))"
          using less.prems(3) by (auto simp: user_wpage_def user_page_def c(3,4) simp del: of_nat_add)
        show "\<forall>i<length (drop n src). \<forall>j<length (drop n src).
            PTE2PA (pt_get (pmem (s\<lparr>pmem := m1\<rparr>)) r (dstva + of_nat (n + i))) =
            PTE2PA (pt_get (pmem (s\<lparr>pmem := m1\<rparr>)) r (dstva + of_nat (n + j))) \<longrightarrow>
            PGROUNDDOWN (dstva + of_nat (n + i)) = PGROUNDDOWN (dstva + of_nat (n + j))"
          using less.prems(4) by (auto simp: c(4) simp del: of_nat_add)
      qed
      then obtain m where m: "copyout r dstva src s = Ret 0 (s\<lparr>pmem := m\<rparr>)" "pt_ok m r"
        "\<And>wa. pt_get m r wa = pt_get (pmem s) r wa"
        "\<And>i. i < length src - n \<Longrightarrow> m (uaddr (pmem s) r (dstva + of_nat (n + i))) = src ! (n + i)"
        "\<And>a. (\<And>i. i < length src - n \<Longrightarrow> a \<noteq> uaddr (pmem s) r (dstva + of_nat (n + i))) \<Longrightarrow> m a = m1 a"
        unfolding c(1) eq using n by (auto simp: ua c(4) simp del: of_nat_add)
      have apart: "uaddr (pmem s) r (dstva + of_nat i) \<noteq> uaddr (pmem s) r (dstva + of_nat (n + j))"
        if ij: "i < n" "j < length src - n" for i j
      proof
        assume "uaddr (pmem s) r (dstva + of_nat i) = uaddr (pmem s) r (dstva + of_nat (n + j))"
        then have "PTE2PA (pt_get (pmem s) r (dstva + of_nat i)) = PTE2PA (pt_get (pmem s) r (dstva + of_nat (n + j)))"
          using uaddr_in_page [of "pmem s" r "dstva + of_nat i"] uaddr_in_page [of "pmem s" r "dstva + of_nat (n + j)"]
          by (intro in_page_disjoint) auto
        then have pg: "PGROUNDDOWN (dstva + of_nat i) = PGROUNDDOWN (dstva + of_nat (n + j))"
          using less.prems(4) ij n by (auto simp del: of_nat_add)
        have "unat dstva mod 4096 + n = 4096" using True by (simp add: n_def page_chunk_eq)
        then have "PGROUNDDOWN (dstva + of_nat i) = PGROUNDDOWN dstva"
          using ij less.prems(2) True by (intro page_next) linarith+
        moreover have "unat (dstva + of_nat (n + j)) = unat dstva + (n + j)"
          by (rule unat_add_small) (use ij less.prems(2) in linarith)
        then have "PGROUNDDOWN dstva + PGSIZE \<le> PGROUNDDOWN (dstva + of_nat (n + j))"
          by (intro aligned_le_PGROUNDDOWN aligned_PGROUNDDOWN_next)
            (use nx(2) in \<open>simp add: word_le_nat_alt del: of_nat_add\<close>)
        ultimately have "PGROUNDDOWN dstva + PGSIZE \<le> PGROUNDDOWN dstva" using pg by simp
        then show False using nx(2) n PGROUNDDOWN_le [of dstva] by (simp add: word_le_nat_alt)
      qed
      have "m (uaddr (pmem s) r (dstva + of_nat i)) = src ! i" if "i < length src" for i
      proof (cases "i < n")
        case in1: True
        then show ?thesis using m(5) [OF apart [OF in1]] c(5) [OF in1] by simp
      next
        case False
        then show ?thesis using m(4) [of "i - n"] that by (simp del: of_nat_add)
      qed
      moreover have "m a = pmem s a" if "\<forall>i<length src. a \<noteq> uaddr (pmem s) r (dstva + of_nat i)" for a
      proof -
        have "m a = m1 a" by (rule m(5)) (use that n in \<open>auto simp del: of_nat_add\<close>)
        also have "\<dots> = pmem s a" by (rule c(6)) (use that n in auto)
        finally show ?thesis .
      qed
      ultimately show ?thesis using m(1-3) by (intro exI [of _ m]) simp
    qed
  qed
qed

subsection \<open>A concrete table\<close>

text \<open>A table with root \<^verbatim>\<open>0x80001000\<close> whose first virtual page is mapped, readable and
  writable for the user, to \<^verbatim>\<open>0x80009000\<close>; the other pages are unmapped.\<close>

lemma insert_zero:
  assumes ok: "pt_ok m r" and js: "vpath (js @ [i])" and p: "node m r js = Some p"
    and inv: "\<not> pv (ent m p i)" and x: "x \<notin> tpages m r" "aligned x" "x \<noteq> 0" "x < PHYSTOP"
    and z: "\<And>k. k < 512 \<Longrightarrow> ent m x k = 0"
    and m': "m' = store64 m (p + 8 * of_nat i) (PA2PTE x OR PTE_V)"
  shows "pt_ok m' r" "tpages m' r = insert x (tpages m r)" "node m' r (js @ [i]) = Some x" "inner_ok m r \<Longrightarrow> inner_ok m' r"
proof -
  have vjs: "vpath js" "i < 512" using vpath_append [of js i "[]"] js by auto
  have pp: "aligned p" "p \<in> tpages m r" using pt_okD [OF ok vjs(1) p] by auto
  have e: "PTE2PA (PA2PTE x OR PTE_V) = x"
    using x by (intro PTE2PA_PA2PTE) (simp_all add: word_less_nat_alt)
  have old: "ent m' q k = (if q = p \<and> k = i then PA2PTE x OR PTE_V else ent m q k)"
    if "aligned q" "q \<noteq> x" "k < 512" for q k
    using ent_store [OF vjs(2) that(3) pp(1) that(1)] by (simp add: m')
  have new: "ent m' x k = 0" if "k < 512" for k
    using ent_store [OF vjs(2) that pp(1) x(2)] z [OF that] pp(2) x(1) by (auto simp: m')
  have nodes: "node m' r ps = (if ps = js @ [i] then Some x else node m r ps)" if "vpath ps" for ps
    by (rule insert_node [OF ok js p inv x(1) pv_OR e old new that])
  have none: "node m r (js @ [i]) = None" using node_child [OF p] inv by simp
  show "pt_ok m' r" "tpages m' r = insert x (tpages m r)"
    by (rule insert_table [OF ok js x(1-3) none]; simp add: nodes)+
  show "node m' r (js @ [i]) = Some x" using nodes [OF js] by simp
  show "inner_ok m' r" if "inner_ok m r" by (rule inner_insert [OF ok that x(1) nodes old new])
qed

lemma empty_table:
  assumes "aligned r" "r \<noteq> 0" "\<And>k. k < 512 \<Longrightarrow> ent m r k = 0"
  shows "pt_ok m r" "tpages m r = {r}" "inner_ok m r"
proof -
  have n: "node m r ps = (if ps = [] then Some r else None)" if "vpath ps" for ps
    using that assms(3) by (cases ps) (auto simp: vpath_def)
  show t: "tpages m r = {r}" using n by (auto simp: tpages_def vpath_def split: if_splits intro!: exI [of _ "[]"])
  have "ps = qs" if "vpath ps" "vpath qs" "node m r ps = Some q" "node m r qs = Some q" for ps qs q
    using that n [of ps] n [of qs] by (auto split: if_splits)
  then show "pt_ok m r" using assms(1,2) unfolding pt_ok_def t by auto
  show "inner_ok m r" using n assms(3) by (auto simp: inner_ok_def split: if_splits)
qed

lemma ent_zero_mem [simp]: "ent (\<lambda>_. 0) p i = 0"
  by (simp add: ent_def)

text \<open>A table whose only mapped page has the entry \<^verbatim>\<open>e\<close> at the indices \<^verbatim>\<open>i\<close>, \<^verbatim>\<open>j\<close>, \<^verbatim>\<open>k\<close>.\<close>

definition table_mem :: "nat \<Rightarrow> nat \<Rightarrow> nat \<Rightarrow> u64 \<Rightarrow> mem" where
  "table_mem i j k e =
     (let m1 = store64 (\<lambda>_. 0) (0x80001000 + 8 * of_nat i) (PA2PTE 0x80002000 OR PTE_V);
          m2 = store64 m1 (0x80002000 + 8 * of_nat j) (PA2PTE 0x80003000 OR PTE_V)
      in store64 m2 (0x80003000 + 8 * of_nat k) e)"

lemma table_mem:
  assumes "i < 512" "j < 512" "k < 512"
  shows "pt_ok (table_mem i j k e) 0x80001000"
    and "tpages (table_mem i j k e) 0x80001000 = {0x80001000, 0x80002000, 0x80003000}"
    and "inner_ok (table_mem i j k e) 0x80001000"
    and "lpath va = [i, j] \<Longrightarrow> px 0 va = k \<Longrightarrow> pt_get (table_mem i j k e) 0x80001000 va = e"
proof -
  let ?r = "0x80001000 :: u64" and ?a = "0x80002000 :: u64" and ?b = "0x80003000 :: u64"
  define m1 where "m1 = store64 (\<lambda>_. 0) (?r + 8 * of_nat i) (PA2PTE ?a OR PTE_V)"
  define m2 where "m2 = store64 m1 (?a + 8 * of_nat j) (PA2PTE ?b OR PTE_V)"
  have m3: "table_mem i j k e = store64 m2 (?b + 8 * of_nat k) e"
    by (simp add: table_mem_def m1_def m2_def Let_def)
  have al: "aligned ?r" "aligned ?a" "aligned ?b" by (simp_all add: aligned_numeral)
  have v: "vpath ([] @ [i])" "vpath ([i] @ [j])" "vpath [i, j]" using assms by (simp_all add: vpath_def)
  note t0 = empty_table [OF al(1), of "\<lambda>_. 0"]
  have i1: "pt_ok m1 ?r" "tpages m1 ?r = insert ?a (tpages (\<lambda>_. 0) ?r)" "node m1 ?r ([] @ [i]) = Some ?a" "inner_ok m1 ?r"
    by (rule insert_zero [OF t0(1) v(1) _ _ _ al(2) _ _ _ m1_def]; simp add: t0(2,3))+
  have e1: "ent m1 q l = (if q = ?r \<and> l = i then PA2PTE ?a OR PTE_V else 0)" if "aligned q" "l < 512" for q l
    using ent_store [OF assms(1) that(2) al(1) that(1)] by (simp add: m1_def)
  have i2: "pt_ok m2 ?r" "tpages m2 ?r = insert ?b (tpages m1 ?r)" "node m2 ?r ([i] @ [j]) = Some ?b" "inner_ok m2 ?r"
    by (rule insert_zero [OF i1(1) v(2) _ _ _ al(3) _ _ _ m2_def];
        use i1 e1 al assms in \<open>simp add: t0(2)\<close>)+
  have n3: "node (table_mem i j k e) ?r ps = node m2 ?r ps" if "vpath ps" for ps
    unfolding m3 by (rule leaf_store_node [OF i2(1) _ _ _ _ that, of "[i, j]"]) (use i2(3) v assms in simp_all)
  note t3 = pt_ok_transfer [OF i2(1) n3]
  show "pt_ok (table_mem i j k e) ?r" by (rule t3(1))
  show "tpages (table_mem i j k e) ?r = {?r, ?a, ?b}" using t3(2) i1(2) i2(2) t0(2) by auto
  show "inner_ok (table_mem i j k e) ?r"
    by (rule inner_leaf [OF i2(1,4) _ v(3) assms(3) n3 m3]) (use i2(3) in simp)
  assume "lpath va = [i, j]" "px 0 va = k"
  then show "pt_get (table_mem i j k e) ?r va = e"
    using n3 [OF v(3)] i2(3) by (simp add: pt_get_def) (simp add: m3 ent_def)
qed

definition demo_mem :: mem where
  "demo_mem = table_mem 0 0 0 (PA2PTE 0x80009000 OR 0x17)"

lemma demo_table:
  shows "pt_ok demo_mem 0x80001000" "tpages demo_mem 0x80001000 = {0x80001000, 0x80002000, 0x80003000}"
    and "va < 4096 \<Longrightarrow> pt_get demo_mem 0x80001000 va = PA2PTE 0x80009000 OR 0x17"
    and "inner_ok demo_mem 0x80001000"
proof -
  show "pt_ok demo_mem 0x80001000" "tpages demo_mem 0x80001000 = {0x80001000, 0x80002000, 0x80003000}" "inner_ok demo_mem 0x80001000"
    unfolding demo_mem_def by (rule table_mem; simp)+
  assume "va < 4096"
  then have "unat va < 4096" by (simp add: word_less_nat_alt)
  then have "lpath va = [0, 0]" "px 0 va = 0" by (simp_all add: lpath_def px_eq)
  then show "pt_get demo_mem 0x80001000 va = PA2PTE 0x80009000 OR 0x17"
    unfolding demo_mem_def by (intro table_mem) simp_all
qed

lemma demo_pages:
  assumes "va < 4096"
  shows "user_page demo_mem 0x80001000 va" "user_wpage demo_mem 0x80001000 va"
    "PTE2PA (pt_get demo_mem 0x80001000 va) = 0x80009000"
proof -
  have pa: "PTE2PA (PA2PTE 0x80009000 OR 0x17) = 0x80009000"
    by (rule PTE2PA_PA2PTE) (simp_all add: aligned_numeral)
  have va: "va < MAXVA" using assms by (simp add: word_less_nat_alt)
  have "bit (PA2PTE 0x80009000 OR 0x17 :: u64) k" if "k \<in> {0, 2, 4}" for k
    using that by (auto simp: bit_or_iff)
  then have "bit ((PA2PTE 0x80009000 OR 0x17) AND 1 :: u64) 0" "bit ((PA2PTE 0x80009000 OR 0x17) AND 4 :: u64) 2"
    "bit ((PA2PTE 0x80009000 OR 0x17) AND 16 :: u64) 4"
    by (simp_all add: bit_and_iff)
  then have fl: "pv (PA2PTE 0x80009000 OR 0x17)" "pw (PA2PTE 0x80009000 OR 0x17)" "pu (PA2PTE 0x80009000 OR 0x17)"
    unfolding pv_def pw_def pu_def by auto
  show "user_page demo_mem 0x80001000 va"
    using demo_table(3) [OF assms] pa fl va by (simp add: user_page_def)
  then show "user_wpage demo_mem 0x80001000 va"
    using demo_table(2) demo_table(3) [OF assms] pa fl by (simp add: user_wpage_def)
  show "PTE2PA (pt_get demo_mem 0x80001000 va) = 0x80009000"
    using demo_table(3) [OF assms] pa by simp
qed

subsection \<open>Properties\<close>

text \<open>\<^bold>\<open>C14\<close> \<^verbatim>\<open>mappages\<close> on a well-formed page table and an unmapped, page-aligned range
  below \<^verbatim>\<open>MAXVA\<close>: the table stays well-formed and disjoint from the free list, and
  either every page of the range is mapped to the corresponding physical page with the
  given permissions and every other virtual page is mapped as before, or the result is
  -1, no free page is left, and no page outside the range has changed. No panic occurs,
  and no memory outside the table and the free pages is written.\<close>

theorem mappages_maps:
  assumes "pt_inv s r xs" and "aligned va" "aligned sz" "sz \<noteq> 0" "unat va + unat sz \<le> 2 ^ 38"
    and "\<forall>wa. va \<le> wa \<and> wa < va + sz \<and> aligned wa \<longrightarrow> \<not> pv (pt_get (pmem s) r wa)"
  shows "returns (mappages r va sz pa perm s) (\<lambda>res t. \<exists>ys.
    pt_inv t r ys \<and> pt_ext r s xs t ys \<and>
    (if res = 0
     then \<forall>wa. wa < MAXVA \<longrightarrow> pt_get (pmem t) r wa =
       (if va \<le> PGROUNDDOWN wa \<and> PGROUNDDOWN wa \<le> va + sz - PGSIZE
        then PA2PTE (pa + (PGROUNDDOWN wa - va)) OR perm OR PTE_V
        else pt_get (pmem s) r wa)
     else res = -1 \<and> ys = [] \<and> (\<forall>wa. wa < MAXVA \<longrightarrow>
       PGROUNDDOWN wa < va \<or> va + sz - PGSIZE < PGROUNDDOWN wa \<longrightarrow>
       pt_get (pmem t) r wa = pt_get (pmem s) r wa)))"
proof -
  have free: "\<not> pv (pt_get (pmem s) r wa)" if "va \<le> wa" "wa < va + sz" "aligned wa" for wa
    using assms(6) that by blast
  from mappages_map [OF assms(1-5) free] show ?thesis
    unfolding mapped_def Let_def by (simp only:)
qed

definition demo_state :: kernel where
  "demo_state = kernel0\<lparr>pmem := demo_mem, freelist := 0\<rparr>"

lemma demo_inv: "pt_inv demo_state 0x80001000 []"
  using demo_table by (simp add: pt_inv_def demo_state_def kmem_inv_def kernel0_def)

lemma demo_unmapped:
  assumes "0x1000 \<le> wa" "wa < 0x1000 + 0x1000" "aligned wa"
  shows "\<not> pv (pt_get demo_mem 0x80001000 wa)"
proof -
  obtain k where k: "unat wa = 4096 * k" using assms(3) by (auto simp: aligned_def)
  have "4096 \<le> unat wa" "unat wa < 8192" using assms by (simp_all add: word_le_nat_alt word_less_nat_alt)
  then have "k = 1" using k by simp
  then have wa: "unat wa = 4096" using k by simp
  then have lp: "lpath wa = lpath 0" and p0: "px 0 wa = 1" by (simp_all add: lpath_def px_eq)
  have "pt_get demo_mem 0x80001000 0 \<noteq> 0"
    using demo_pages(1) [of 0] by (auto simp: user_page_def)
  then obtain q where q: "node demo_mem 0x80001000 (lpath 0) = Some q"
    by (auto simp: pt_get_def split: option.splits)
  show ?thesis
  proof
    assume "pv (pt_get demo_mem 0x80001000 wa)"
    then have "pv (ent demo_mem q 1)" using q lp p0 by (simp add: pt_get_def)
    moreover have "aligned q" using pt_okD [OF demo_table(1) vpath_leaf q] by auto
    then have "ent demo_mem q 1 = 0"
      using ent_store [of 0 1 "0x80003000" q] ent_store [of 0 1 "0x80002000" q]
        ent_store [of 0 1 "0x80001000" q] by (simp add: demo_mem_def table_mem_def Let_def aligned_numeral)
    ultimately show False by simp
  qed
qed

theorem mappages_maps_witness:
  "returns (mappages 0x80001000 0x1000 0x1000 0x8000A000 (PTE_R OR PTE_U) demo_state) (\<lambda>res t.
     \<exists>ys. pt_inv t 0x80001000 ys \<and> (res = 0 \<or> res = -1 \<and> ys = []))"
proof -
  have "\<forall>wa. (0x1000 :: u64) \<le> wa \<and> wa < 0x1000 + 0x1000 \<and> aligned wa \<longrightarrow>
      \<not> pv (pt_get (pmem demo_state) 0x80001000 wa)"
    using demo_unmapped by (simp add: demo_state_def)
  then show ?thesis
    using mappages_maps [OF demo_inv, of "0x1000" "0x1000" "0x8000A000" "PTE_R OR PTE_U"]
    by (auto simp: aligned_numeral elim!: returns_weaken split: if_splits)
qed

text \<open>\<^verbatim>\<open>copyin\<close> from a range of mapped user pages delivers exactly the bytes
  the page table translates the range to, returns 0 and changes nothing, for every
  alignment and length of the range.\<close>

lemma copyin_reads:
  assumes "pt_ok (pmem s) r" and "unat srcva + len \<le> 2 ^ 38"
    and "\<forall>i<len. user_page (pmem s) r (srcva + of_nat i)"
  shows "copyin r srcva len s =
    Ret (0, map (\<lambda>i. pmem s (uaddr (pmem s) r (srcva + of_nat i))) [0..<len]) s"
  by (rule copyin_user [OF assms])

text \<open>\<^bold>\<open>C11\<close> Bytes copied out to a range of writable user pages are the bytes a following
  \<^verbatim>\<open>copyin\<close> of the same range returns, for every length and alignment, provided
  different pages of the range are backed by different physical pages.\<close>

theorem copyout_copyin:
  assumes "pt_ok (pmem s) r" and "unat va + length src \<le> 2 ^ 38"
    and "\<forall>i<length src. user_wpage (pmem s) r (va + of_nat i)"
    and "\<forall>i<length src. \<forall>j<length src.
      PTE2PA (pt_get (pmem s) r (va + of_nat i)) = PTE2PA (pt_get (pmem s) r (va + of_nat j)) \<longrightarrow>
      PGROUNDDOWN (va + of_nat i) = PGROUNDDOWN (va + of_nat j)"
  shows "bnd (copyout r va src s) (\<lambda>_ t. copyin r va (length src) t) =
    bnd (copyout r va src s) (\<lambda>_ t. Ret (0, src) t) \<and>
    returns (copyout r va src s) (\<lambda>res t. res = 0 \<and>
      (\<forall>a. (\<forall>i<length src. a \<noteq> uaddr (pmem s) r (va + of_nat i)) \<longrightarrow> pmem t a = pmem s a))"
proof -
  obtain m where m: "copyout r va src s = Ret 0 (s\<lparr>pmem := m\<rparr>)" "pt_ok m r"
    "\<forall>wa. pt_get m r wa = pt_get (pmem s) r wa"
    "\<forall>i<length src. m (uaddr (pmem s) r (va + of_nat i)) = src ! i"
    "\<forall>a. (\<forall>i<length src. a \<noteq> uaddr (pmem s) r (va + of_nat i)) \<longrightarrow> m a = pmem s a"
    using copyout_user [OF assms] by blast
  have ua: "uaddr m r wa = uaddr (pmem s) r wa" for wa using m(3) by (simp add: uaddr_def)
  have "copyin r va (length src) (s\<lparr>pmem := m\<rparr>) =
      Ret (0, map (\<lambda>i. pmem (s\<lparr>pmem := m\<rparr>) (uaddr (pmem (s\<lparr>pmem := m\<rparr>)) r (va + of_nat i))) [0..<length src]) (s\<lparr>pmem := m\<rparr>)"
    by (rule copyin_user) (use m(2,3) assms(2,3) in \<open>auto simp: user_page_def user_wpage_def\<close>)
  also have "map (\<lambda>i. pmem (s\<lparr>pmem := m\<rparr>) (uaddr (pmem (s\<lparr>pmem := m\<rparr>)) r (va + of_nat i))) [0..<length src] = src"
    using m(4) by (intro nth_equalityI) (simp_all add: ua)
  finally show ?thesis using m(1,5) by simp
qed

theorem copyout_copyin_witness:
  "returns (bnd (copyout 0x80001000 0x10 [1, 2] demo_state) (\<lambda>_ t. copyin 0x80001000 0x10 2 t))
     (\<lambda>r _. r = (0, [1, 2]))"
proof -
  have pg: "user_wpage demo_mem 0x80001000 (0x10 + of_nat i)" if "i < 2" for i
    by (rule demo_pages) (use that in \<open>auto simp: less_2_cases_iff\<close>)
  have dn: "PGROUNDDOWN (0x10 + of_nat i) = 0" if "i < 2" for i
    using that by (auto simp: less_2_cases_iff word_unat_eq_iff unat_PGROUNDDOWN)
  have "bnd (copyout 0x80001000 0x10 [1, 2] demo_state) (\<lambda>_ t. copyin 0x80001000 0x10 (length [1, 2 :: u8]) t) =
    bnd (copyout 0x80001000 0x10 [1, 2] demo_state) (\<lambda>_ t. Ret (0, [1, 2]) t) \<and>
    returns (copyout 0x80001000 0x10 [1, 2] demo_state) (\<lambda>res t. res = 0 \<and>
      (\<forall>a. (\<forall>i<length [1, 2 :: u8]. a \<noteq> uaddr (pmem demo_state) 0x80001000 (0x10 + of_nat i)) \<longrightarrow>
        pmem t a = pmem demo_state a))"
    by (rule copyout_copyin) (use pg dn demo_table(1) in \<open>simp_all add: demo_state_def\<close>)
  then show ?thesis by (auto simp: returns_iff numeral_2_eq_2)
qed

end
