(* ===== verification/Sched.thy ===== *)
theory Sched
  imports Vm
begin

text \<open>
  The scheduler of \<^verbatim>\<open>proc.c\<close> with its two restrictions (the CPU budget per window of
  ticks and the eco power mode), the calls that set and read them, \<^verbatim>\<open>kkill\<close>, and
  \<^verbatim>\<open>either_copyin\<close>/\<^verbatim>\<open>either_copyout\<close>. The scheduler is cut at \<^verbatim>\<open>swtch\<close>:
  \<^verbatim>\<open>sched_scan\<close> runs the inner loop until it switches to a process (\<^verbatim>\<open>Switch\<close>)
  or the table is done; \<^verbatim>\<open>sched_resume\<close> is the code after \<^verbatim>\<open>swtch\<close> returns.
\<close>

unbundle bit_operations_syntax

subsection \<open>Choosing a process\<close>

text \<open>The window and budget check: the process with its window restarted if it is over, and
  whether it may run.\<close>

definition budget_check :: "u32 \<Rightarrow> proc \<Rightarrow> bool \<times> proc" where
  "budget_check now p =
     (if 0 <s p_cpu_budget p then
        let p = (if now - p_budget_window_start p \<ge> CPU_BUDGET_WINDOW_TICKS
                 then p\<lparr>p_budget_window_start := now, p_ticks_used := 0\<rparr> else p)
        in (\<not> p_cpu_budget p \<le>s p_ticks_used p, p)
      else (True, p))"

text \<open>The eco check, made only for a process the budget lets run.\<close>

definition eco_check :: "bool \<Rightarrow> proc \<Rightarrow> bool \<times> proc" where
  "eco_check can_run p =
     (if can_run \<and> p_power_mode p = POWER_ECO then
        let p = p\<lparr>p_eco_skip_counter := p_eco_skip_counter p + 1\<rparr> in
        if p_eco_skip_counter p <s ECO_SKIP_INTERVAL then (False, p)
        else (True, p\<lparr>p_eco_skip_counter := 0\<rparr>)
      else (can_run, p))"

definition can_run :: "u32 \<Rightarrow> proc \<Rightarrow> bool \<times> proc" where
  "can_run now p = (let (b, p) = budget_check now p in eco_check b p)"

text \<open>One iteration of the inner loop up to \<^verbatim>\<open>swtch\<close>.\<close>

definition sched_visit :: "u32 \<Rightarrow> nat \<Rightarrow> kernel \<Rightarrow> unit kres" where
  "sched_visit now p s =
     bnd (acquire (ProcLock p) s) (\<lambda>_ s.
     if p_state (procs s p) = RUNNABLE then
       let (ok, q) = can_run now (procs s p); s = upd_proc p (\<lambda>_. q) s in
       if \<not> ok then release (ProcLock p) s
       else
         let s = upd_proc p (\<lambda>q. q\<lparr>p_sched_count := p_sched_count q + 1, p_state := RUNNING\<rparr>) s;
             s = s\<lparr>cpus := (cpus s)(hartid s := (cpus s (hartid s))\<lparr>c_proc := Some p\<rparr>),
                   context_switches := context_switches s + 1\<rparr>
         in Switch s
     else release (ProcLock p) s)"

definition sched_resume :: "nat \<Rightarrow> kernel \<Rightarrow> unit kres" where
  "sched_resume p s =
     release (ProcLock p) (s\<lparr>cpus := (cpus s)(hartid s := (cpus s (hartid s))\<lparr>c_proc := None\<rparr>)\<rparr>)"

fun sched_scan :: "u32 \<Rightarrow> nat list \<Rightarrow> bool \<Rightarrow> kernel \<Rightarrow> bool kres" where
  "sched_scan now [] found s = Ret found s"
| "sched_scan now (p # ps) found s = bnd (sched_visit now p s) (\<lambda>_ s. sched_scan now ps found s)"

text \<open>The rest of a pass once process \<^verbatim>\<open>p\<close> has switched back.\<close>

definition sched_continue :: "u32 \<Rightarrow> nat \<Rightarrow> kernel \<Rightarrow> bool kres" where
  "sched_continue now p s =
     bnd (sched_resume p s) (\<lambda>_ s. sched_scan now [Suc p..<NPROC] True s)"

text \<open>One pass of the outer loop: the interrupt window, the clock, the scan. The result is
  \<^verbatim>\<open>found\<close>; when it is false the hart waits for an interrupt.\<close>

definition scheduler_pass :: "kernel \<Rightarrow> bool kres" where
  "scheduler_pass s =
     (let s = intr_off (intr_on s) in
      bnd (acquire TicksLock s) (\<lambda>_ s.
      let now = ticks s in
      bnd (release TicksLock s) (\<lambda>_ s.
      sched_scan now [0..<NPROC] False s)))"

definition scheduler_start :: "kernel \<Rightarrow> kernel" where
  "scheduler_start s = s\<lparr>cpus := (cpus s)(hartid s := (cpus s (hartid s))\<lparr>c_proc := None\<rparr>)\<rparr>"

subsection \<open>Calls on a process by pid\<close>

fun kkill_loop :: "i32 \<Rightarrow> nat list \<Rightarrow> kernel \<Rightarrow> i32 kres" where
  "kkill_loop pid [] s = Ret (-1) s"
| "kkill_loop pid (p # ps) s =
     bnd (acquire (ProcLock p) s) (\<lambda>_ s.
     if p_pid (procs s p) = pid then
       let s = upd_proc p (\<lambda>q. q\<lparr>p_killed := True\<rparr>) s;
           s = (if p_state (procs s p) = SLEEPING
                then upd_proc p (\<lambda>q. q\<lparr>p_state := RUNNABLE\<rparr>) s else s) in
       bnd (release (ProcLock p) s) (\<lambda>_ s. Ret 0 s)
     else bnd (release (ProcLock p) s) (\<lambda>_ s. kkill_loop pid ps s))"

definition kkill :: "i32 \<Rightarrow> kernel \<Rightarrow> i32 kres" where
  "kkill pid s = kkill_loop pid [0..<NPROC] s"

text \<open>The loop \<^verbatim>\<open>setpowermode_pid\<close>, \<^verbatim>\<open>setcpulimit_pid\<close> and
  \<^verbatim>\<open>getcputicks_pid\<close> have in common: the first slot in use that has the pid is updated
  by \<^verbatim>\<open>f\<close>, and \<^verbatim>\<open>g\<close> of its state is the result.\<close>

fun pid_loop :: "i32 \<Rightarrow> (proc \<Rightarrow> proc) \<Rightarrow> (proc \<Rightarrow> i32) \<Rightarrow> nat list \<Rightarrow> kernel \<Rightarrow> i32 kres" where
  "pid_loop pid f g [] s = Ret (-1) s"
| "pid_loop pid f g (p # ps) s =
     bnd (acquire (ProcLock p) s) (\<lambda>_ s.
     if p_state (procs s p) \<noteq> UNUSED \<and> p_pid (procs s p) = pid then
       let s = upd_proc p f s; r = g (procs s p) in
       bnd (release (ProcLock p) s) (\<lambda>_ s. Ret r s)
     else bnd (release (ProcLock p) s) (\<lambda>_ s. pid_loop pid f g ps s))"

definition setpowermode_pid :: "i32 \<Rightarrow> i32 \<Rightarrow> kernel \<Rightarrow> i32 kres" where
  "setpowermode_pid pid mode s =
     (if mode \<noteq> POWER_NORMAL \<and> mode \<noteq> POWER_ECO then Ret (-1) s
      else pid_loop pid (\<lambda>p. p\<lparr>p_power_mode := mode, p_eco_skip_counter := 0\<rparr>) (\<lambda>_. 0) [0..<NPROC] s)"

definition setcpulimit_pid :: "i32 \<Rightarrow> i32 \<Rightarrow> kernel \<Rightarrow> i32 kres" where
  "setcpulimit_pid pid limit s =
     (if limit <s 0 then Ret (-1) s
      else bnd (acquire TicksLock s) (\<lambda>_ s.
        let now = ticks s in
        bnd (release TicksLock s) (\<lambda>_ s.
        pid_loop pid (\<lambda>p. p\<lparr>p_cpu_budget := limit, p_ticks_used := 0, p_budget_window_start := now\<rparr>)
          (\<lambda>_. 0) [0..<NPROC] s)))"

definition getcputicks_pid :: "i32 \<Rightarrow> kernel \<Rightarrow> i32 kres" where
  "getcputicks_pid pid s = pid_loop pid (\<lambda>p. p) p_ticks_total [0..<NPROC] s"

subsection \<open>Copying to user or kernel addresses\<close>

definition either_copyout :: "bool \<Rightarrow> u64 \<Rightarrow> u8 list \<Rightarrow> kernel \<Rightarrow> i32 kres" where
  "either_copyout user_dst dst src s =
     (if user_dst then with_proc s (\<lambda>p. copyout (p_pagetable (procs s p)) dst src s)
      else Ret 0 (s\<lparr>pmem := write_bytes (pmem s) dst src\<rparr>))"

definition either_copyin :: "bool \<Rightarrow> u64 \<Rightarrow> nat \<Rightarrow> kernel \<Rightarrow> (i32 \<times> u8 list) kres" where
  "either_copyin user_src src len s =
     (if user_src then with_proc s (\<lambda>p. copyin (p_pagetable (procs s p)) src len s)
      else Ret (0, read_bytes (pmem s) src len) s)"

subsection \<open>Who may run\<close>

lemma slt_mono3: "(x :: i32) + 1 <s 3 \<Longrightarrow> \<not> 3 \<le>s x + 1"
  by (simp add: word_sless_alt word_sle_eq)

lemma not_sless: "(\<not> (x :: 'a::len word) <s y) = (y \<le>s x)"
  by (auto simp: word_sless_alt word_sle_eq)

lemma can_run_iff:
  "fst (can_run now p) \<longleftrightarrow>
     (0 <s p_cpu_budget p \<longrightarrow>
        now - p_budget_window_start p \<ge> CPU_BUDGET_WINDOW_TICKS \<or> p_ticks_used p <s p_cpu_budget p) \<and>
     (p_power_mode p = POWER_ECO \<longrightarrow> 3 \<le>s p_eco_skip_counter p + 1)"
  by (auto simp: can_run_def budget_check_def eco_check_def Let_def not_sless [symmetric])

lemma can_run_state [simp]:
  "p_state (snd (can_run now p)) = p_state p" "p_pid (snd (can_run now p)) = p_pid p"
  "p_cpu_budget (snd (can_run now p)) = p_cpu_budget p"
  "p_power_mode (snd (can_run now p)) = p_power_mode p"
  "p_chan (snd (can_run now p)) = p_chan p" "p_killed (snd (can_run now p)) = p_killed p"
  by (simp_all add: can_run_def budget_check_def eco_check_def Let_def)

lemma can_run_unlimited: "\<not> 0 <s p_cpu_budget p \<Longrightarrow> can_run now p = eco_check True p"
  by (simp add: can_run_def budget_check_def)

lemma upd_proc_procs [simp]: "procs (upd_proc p f s) = (procs s)(p := f (procs s p))"
  by (simp add: upd_proc_def)

lemma upd_proc_other [simp]:
  "held (upd_proc p f s) = held s" "hartid (upd_proc p f s) = hartid s" "cpus (upd_proc p f s) = cpus s"
  "ticks (upd_proc p f s) = ticks s" "context_switches (upd_proc p f s) = context_switches s"
  by (simp_all add: upd_proc_def)

text \<open>The state in which the scheduler switches to \<^verbatim>\<open>p\<close>.\<close>

definition chosen :: "u32 \<Rightarrow> nat \<Rightarrow> kernel \<Rightarrow> kernel" where
  "chosen now p s =
     s\<lparr>held := insert (ProcLock p) (held s),
       procs := (procs s)(p := (snd (can_run now (procs s p)))
         \<lparr>p_sched_count := p_sched_count (snd (can_run now (procs s p))) + 1, p_state := RUNNING\<rparr>),
       cpus := (cpus s)(hartid s := (cpus s (hartid s))\<lparr>c_proc := Some p\<rparr>),
       context_switches := context_switches s + 1\<rparr>"

definition eligible :: "u32 \<Rightarrow> proc \<Rightarrow> bool" where
  "eligible now p \<longleftrightarrow> p_state p = RUNNABLE \<and> fst (can_run now p)"

lemma eligible_iff:
  "eligible now p \<longleftrightarrow>
     p_state p = RUNNABLE \<and>
     \<not> (0 <s p_cpu_budget p \<and> now - p_budget_window_start p < 50 \<and> p_cpu_budget p \<le>s p_ticks_used p) \<and>
     \<not> (p_power_mode p = POWER_ECO \<and> p_eco_skip_counter p + 1 <s 3)"
  by (auto simp: eligible_def can_run_iff not_less not_sless [symmetric])

text \<open>What a visit that does not choose a process leaves behind: its window or its eco
  counter may have moved.\<close>

definition passed :: "u32 \<Rightarrow> proc \<Rightarrow> proc" where
  "passed now p = (if p_state p = RUNNABLE then snd (can_run now p) else p)"

lemma sched_visit_eq:
  assumes "ProcLock p \<notin> held s"
  shows "sched_visit now p s =
    (if eligible now (procs s p) then Switch (chosen now p s)
     else Ret () (s\<lparr>procs := (procs s)(p := passed now (procs s p))\<rparr>))"
proof (cases "p_state (procs s p) = RUNNABLE")
  case True
  obtain ok q where q: "can_run now (procs s p) = (ok, q)" by fastforce
  show ?thesis
    using True assms q
    by (simp add: sched_visit_def eligible_def chosen_def passed_def upd_proc_def)
next
  case False
  then show ?thesis using assms by (simp add: sched_visit_def eligible_def passed_def)
qed

lemma sched_scan_eq:
  assumes "distinct ps" and "\<forall>p \<in> set ps. ProcLock p \<notin> held s"
  shows "sched_scan now ps found s =
    (case dropWhile (\<lambda>p. \<not> eligible now (procs s p)) ps of
       [] \<Rightarrow> Ret found (s\<lparr>procs := \<lambda>q. if q \<in> set ps then passed now (procs s q) else procs s q\<rparr>)
     | p # qs \<Rightarrow> Switch (chosen now p (s\<lparr>procs := \<lambda>q.
         if q \<in> set (takeWhile (\<lambda>p. \<not> eligible now (procs s p)) ps)
         then passed now (procs s q) else procs s q\<rparr>)))"
  using assms
proof (induction ps arbitrary: s)
  case Nil
  then show ?case by simp
next
  case (Cons p ps)
  have free: "ProcLock p \<notin> held s" using Cons.prems by simp
  show ?case
  proof (cases "eligible now (procs s p)")
    case True
    then show ?thesis using free by (simp add: sched_visit_eq)
  next
    case False
    define t where "t = s\<lparr>procs := (procs s)(p := passed now (procs s p))\<rparr>"
    have dw: "dropWhile (\<lambda>p. \<not> eligible now (procs t p)) ps = dropWhile (\<lambda>p. \<not> eligible now (procs s p)) ps"
      and tw: "takeWhile (\<lambda>p. \<not> eligible now (procs t p)) ps = takeWhile (\<lambda>p. \<not> eligible now (procs s p)) ps"
      using Cons.prems(1) by (auto simp: t_def intro!: dropWhile_cong takeWhile_cong)
    have eq1: "(\<lambda>q. if q \<in> set ps then passed now (procs t q) else procs t q) =
        (\<lambda>q. if q \<in> set (p # ps) then passed now (procs s q) else procs s q)"
      using Cons.prems(1) by (auto simp: t_def fun_eq_iff)
    have eq2: "(\<lambda>q. if q \<in> set qs then passed now (procs t q) else procs t q) =
        (\<lambda>q. if q \<in> set (p # qs) then passed now (procs s q) else procs s q)" if "set qs \<subseteq> set ps" for qs
      using Cons.prems(1) that by (auto simp: t_def fun_eq_iff)
    have sub: "set (takeWhile (\<lambda>p. \<not> eligible now (procs s p)) ps) \<subseteq> set ps"
      by (rule set_takeWhileD [THEN conjunct1, THEN subsetI])
    have "sched_scan now (p # ps) found s = sched_scan now ps found t"
      using False free by (simp add: sched_visit_eq t_def)
    also have "\<dots> = (case dropWhile (\<lambda>p. \<not> eligible now (procs t p)) ps of
       [] \<Rightarrow> Ret found (t\<lparr>procs := \<lambda>q. if q \<in> set ps then passed now (procs t q) else procs t q\<rparr>)
     | p # qs \<Rightarrow> Switch (chosen now p (t\<lparr>procs := \<lambda>q.
         if q \<in> set (takeWhile (\<lambda>p. \<not> eligible now (procs t p)) ps)
         then passed now (procs t q) else procs t q\<rparr>)))"
      using Cons.prems by (intro Cons.IH) (auto simp: t_def)
    finally show ?thesis
      unfolding dw tw eq1 eq2 [OF sub] using False
      by (cases "dropWhile (\<lambda>p. \<not> eligible now (procs s p)) ps") (simp_all add: t_def del: dropWhile_eq_Nil_conv)
  qed
qed

subsection \<open>Searching by pid\<close>

lemma pid_loop_eq:
  assumes "\<forall>p \<in> set ps. ProcLock p \<notin> held s"
  shows "pid_loop pid f g ps s =
    (case filter (\<lambda>p. p_state (procs s p) \<noteq> UNUSED \<and> p_pid (procs s p) = pid) ps of
       [] \<Rightarrow> Ret (-1) s
     | p # _ \<Rightarrow> Ret (g (f (procs s p))) (upd_proc p f s))"
  using assms by (induction ps) (auto simp: Let_def upd_proc_def)

lemma kkill_loop_eq:
  assumes "\<forall>p \<in> set ps. ProcLock p \<notin> held s"
  shows "kkill_loop pid ps s =
    (case filter (\<lambda>p. p_pid (procs s p) = pid) ps of
       [] \<Rightarrow> Ret (-1) s
     | p # _ \<Rightarrow> Ret 0 (upd_proc p (\<lambda>q. q\<lparr>p_killed := True,
         p_state := (if p_state q = SLEEPING then RUNNABLE else p_state q)\<rparr>) s))"
  using assms by (induction ps) (auto simp: Let_def upd_proc_def)

text \<open>No process lock is held by this CPU.\<close>

definition no_plocks :: "kernel \<Rightarrow> bool" where
  "no_plocks s \<longleftrightarrow> (\<forall>p < NPROC. ProcLock p \<notin> held s)"

subsection \<open>Properties\<close>


definition sched_demo :: kernel where
  "sched_demo = kernel0\<lparr>procs := (procs kernel0)
     (0 := proc0\<lparr>p_state := RUNNABLE, p_pid := 1, p_cpu_budget := 5, p_ticks_used := 5\<rparr>,
      1 := proc0\<lparr>p_state := RUNNABLE, p_pid := 2\<rparr>)\<rparr>"

lemma sched_demo_locks: "no_plocks sched_demo" "TicksLock \<notin> held sched_demo"
  by (simp_all add: no_plocks_def sched_demo_def kernel0_def)

lemma upt_64: "[0..<64] = 0 # 1 # [2..<64]"
  by (subst upt_conv_Cons, simp, subst upt_conv_Cons) (simp_all add: numeral_2_eq_2)


text \<open>Who may run: a runnable process is refused exactly when it has a CPU budget it
  has used up in a window of 50 ticks that is not over, or is in eco mode and has been
  passed over fewer than two times since it last ran.\<close>

lemma eligible_characterisation:
  "eligible now p \<longleftrightarrow>
     p_state p = RUNNABLE \<and>
     \<not> (0 <s p_cpu_budget p \<and> now - p_budget_window_start p < 50 \<and> p_cpu_budget p \<le>s p_ticks_used p) \<and>
     \<not> (p_power_mode p = POWER_ECO \<and> p_eco_skip_counter p + 1 <s 3)"
  by (rule eligible_iff)

text \<open>Successive scheduler passes over one process, at the given times.\<close>

fun after_passes :: "(nat \<Rightarrow> u32) \<Rightarrow> nat \<Rightarrow> proc \<Rightarrow> proc" where
  "after_passes now 0 p = p"
| "after_passes now (Suc k) p = snd (can_run (now k) (after_passes now k p))"

lemma eco_three: "(c :: nat) < 3 \<Longrightarrow> (of_nat c :: i32) + 1 <s 3 \<longleftrightarrow> c < 2"
  by (auto simp: less_Suc_eq numeral_3_eq_3 numeral_2_eq_2 word_sless_alt)

lemma eco_counter:
  assumes "p_power_mode p = POWER_ECO" "p_cpu_budget p = 0" "p_eco_skip_counter p = of_nat c" "c < 3"
  shows "p_power_mode (after_passes now k p) = POWER_ECO \<and> p_cpu_budget (after_passes now k p) = 0 \<and>
    p_eco_skip_counter (after_passes now k p) = of_nat ((c + k) mod 3)"
proof (induction k)
  case 0
  then show ?case using assms by simp
next
  case (Suc k)
  let ?q = "after_passes now k p"
  have lt: "(c + k) mod 3 < 3" by simp
  have "snd (can_run (now k) ?q) = snd (eco_check True ?q)"
    using Suc can_run_unlimited [of ?q] by (simp add: word_sless_alt)
  moreover have "p_eco_skip_counter (snd (eco_check True ?q)) = of_nat ((c + Suc k) mod 3)"
    using Suc eco_three [OF lt] by (auto simp: eco_check_def Let_def mod_Suc)
  ultimately have "p_eco_skip_counter (snd (can_run (now k) ?q)) = of_nat ((c + Suc k) mod 3)"
    by (simp only:)
  then show ?case using Suc by simp
qed

text \<open>\<^bold>\<open>C31\<close> Eco cadence: a runnable eco-mode process without a budget is chosen in every
  third pass of the scheduler and in no other, whatever the times of the passes and
  wherever its counter starts.\<close>

theorem eco_every_third_pass:
  assumes "p_power_mode p = POWER_ECO" "p_cpu_budget p = 0" "p_state p = RUNNABLE"
    and "p_eco_skip_counter p = of_nat c" "c < 3"
  shows "eligible (now k) (after_passes now k p) \<longleftrightarrow> (c + k) mod 3 = 2"
proof -
  let ?q = "after_passes now k p"
  have lt: "(c + k) mod 3 < 3" by simp
  have st: "p_state (after_passes now k p) = RUNNABLE" for k
    by (induction k) (simp_all add: assms)
  show ?thesis
    using eco_counter [OF assms(1,2,4,5), of now k] eco_three [OF lt] lt st [of k]
    by (auto simp: eligible_iff word_sless_alt)
qed

theorem eco_every_third_pass_witness:
  "eligible 7 (after_passes (\<lambda>_. 7) 2 (proc0\<lparr>p_state := RUNNABLE, p_power_mode := 1\<rparr>)) \<and>
   \<not> eligible 7 (after_passes (\<lambda>_. 7) 1 (proc0\<lparr>p_state := RUNNABLE, p_power_mode := 1\<rparr>))"
  using eco_every_third_pass [of "proc0\<lparr>p_state := RUNNABLE, p_power_mode := 1\<rparr>" 0 "\<lambda>_. 7" 2]
    eco_every_third_pass [of "proc0\<lparr>p_state := RUNNABLE, p_power_mode := 1\<rparr>" 0 "\<lambda>_. 7" 1]
  by (simp add: proc0_def)

text \<open>\<^bold>\<open>C37\<close> A clock value read before the window of a process was set makes the unsigned
  difference \<^verbatim>\<open>now - budget_window_start\<close> wrap around: for the next 2^31 ticks' worth
  of such stale values the check takes the window to be over, sets its start back to the
  stale time and forgets the ticks used, so that a process at its limit runs again.\<close>

theorem stale_clock_reopens_window:
  assumes "0 <s p_cpu_budget p" and "p_power_mode p = POWER_NORMAL" and "p_state p = RUNNABLE"
    and "p_budget_window_start p = now + d" and "0 < d" "d \<le> 0x80000000"
  shows "eligible now p \<and> p_ticks_used (snd (can_run now p)) = 0 \<and>
    p_budget_window_start (snd (can_run now p)) = now"
proof -
  have "now - p_budget_window_start p = - d" using assms(4) by simp
  moreover have d: "0 < unat d" "unat d \<le> 0x80000000"
    using assms(5,6) by (simp_all add: word_le_nat_alt word_less_nat_alt)
  have "unat (0 - d) + unat d = 2 ^ 32"
    using d unat_bound [of d] by (subst unat_sub_if') simp
  then have "50 \<le> unat (- d)" using d by simp
  then have "50 \<le> - d" by (simp add: word_le_nat_alt)
  ultimately have "now - p_budget_window_start p \<ge> 50" by simp
  moreover have "\<not> p_cpu_budget p \<le>s 0" using assms(1) by (simp add: word_sless_alt word_sle_eq)
  ultimately show ?thesis
    using assms(1-3) by (simp add: eligible_def can_run_def budget_check_def eco_check_def Let_def)
qed

theorem stale_clock_reopens_window_witness:
  "eligible 99 (proc0\<lparr>p_state := RUNNABLE, p_cpu_budget := 2, p_ticks_used := 2, p_budget_window_start := 100\<rparr>)"
  using stale_clock_reopens_window
    [of "proc0\<lparr>p_state := RUNNABLE, p_cpu_budget := 2, p_ticks_used := 2, p_budget_window_start := 100\<rparr>" 99 1]
  by (simp add: proc0_def word_sless_alt)

text \<open>\<^bold>\<open>C36\<close> \<^verbatim>\<open>kkill\<close> marks exactly the first slot with the pid, wakes it if it sleeps,
  and returns 0, or returns -1 and changes nothing if no slot has the pid. It does not look
  whether the slot is in use: with an unused slot in the table, whose pid is 0,
  \<^verbatim>\<open>kkill(0)\<close> succeeds and leaves that slot marked killed.\<close>

theorem kkill_first_slot:
  assumes "no_plocks s"
  shows "kkill pid s =
    (case filter (\<lambda>p. p_pid (procs s p) = pid) [0..<NPROC] of
       [] \<Rightarrow> Ret (-1) s
     | p # _ \<Rightarrow> Ret 0 (upd_proc p (\<lambda>q. q\<lparr>p_killed := True,
         p_state := (if p_state q = SLEEPING then RUNNABLE else p_state q)\<rparr>) s))"
  using assms unfolding kkill_def by (intro kkill_loop_eq) (auto simp: no_plocks_def)

theorem kkill_first_slot_witness:
  "\<exists>t. kkill 0 kernel0 = Ret 0 t \<and> p_state (procs t 0) = UNUSED \<and> p_killed (procs t 0)"
proof -
  have "no_plocks kernel0" by (simp add: no_plocks_def kernel0_def)
  moreover have "filter (\<lambda>p. p_pid (procs kernel0 p) = 0) [0..<NPROC] = [0..<NPROC]"
    by (simp add: kernel0_def proc0_def)
  ultimately have "kkill 0 kernel0 = Ret 0 (upd_proc 0 (\<lambda>q. q\<lparr>p_killed := True,
      p_state := (if p_state q = SLEEPING then RUNNABLE else p_state q)\<rparr>) kernel0)"
    using kkill_first_slot [of kernel0 0] upt_64 by simp
  then show ?thesis by (simp add: kernel0_def proc0_def)
qed

lemma pid_search:
  assumes "no_plocks s"
  shows "pid_loop pid f g [0..<NPROC] s =
    (case filter (\<lambda>p. p_state (procs s p) \<noteq> UNUSED \<and> p_pid (procs s p) = pid) [0..<NPROC] of
       [] \<Rightarrow> Ret (-1) s
     | p # _ \<Rightarrow> Ret (g (f (procs s p))) (upd_proc p f s))"
  using assms by (intro pid_loop_eq) (auto simp: no_plocks_def)

text \<open>\<^bold>\<open>C32\<close> Setting a CPU limit of a process in use: a negative limit is refused without
  any change; otherwise the first slot in use with the pid gets the limit, a fresh window
  starting at the current tick and no ticks used, so the process may run at once in
  normal mode, and no other slot changes; an unknown pid gives -1.\<close>

theorem setcpulimit_effect:
  assumes "no_plocks s" and "TicksLock \<notin> held s"
  shows "setcpulimit_pid pid limit s =
    (if limit <s 0 then Ret (-1) s
     else case filter (\<lambda>p. p_state (procs s p) \<noteq> UNUSED \<and> p_pid (procs s p) = pid) [0..<NPROC] of
       [] \<Rightarrow> Ret (-1) s
     | p # _ \<Rightarrow> Ret 0 (upd_proc p (\<lambda>q. q\<lparr>p_cpu_budget := limit, p_ticks_used := 0,
         p_budget_window_start := ticks s\<rparr>) s))"
  using assms pid_search [OF assms(1)] by (simp add: setcpulimit_pid_def Let_def)

theorem setcpulimit_effect_witness:
  "\<exists>t. setcpulimit_pid 2 10 sched_demo = Ret 0 t \<and> p_cpu_budget (procs t 1) = 10"
proof -
  have p: "p_pid (procs sched_demo 0) = 1" "p_pid (procs sched_demo 1) = 2" "p_state (procs sched_demo 1) = RUNNABLE"
    by (simp_all add: sched_demo_def proc0_def)
  have "filter (\<lambda>p. p_state (procs sched_demo p) \<noteq> UNUSED \<and> p_pid (procs sched_demo p) = 2) [0..<NPROC] =
      1 # filter (\<lambda>p. p_state (procs sched_demo p) \<noteq> UNUSED \<and> p_pid (procs sched_demo p) = 2) [2..<64]"
    unfolding upt_64 using p by simp
  then show ?thesis
    using setcpulimit_effect [OF sched_demo_locks, of 2 10] by (simp add: word_sless_alt)
qed

end
