(* ===== verification/Pipe.thy ===== *)
theory Pipe
  imports Sched
begin

text \<open>
  Pipes, \<^verbatim>\<open>kernel/pipe.c\<close> (\<^verbatim>\<open>pipealloc\<close> is in theory \<^verbatim>\<open>File\<close>, with the
  file table it uses). A pipe is named by the address of its page; \<^verbatim>\<open>nread\<close> and
  \<^verbatim>\<open>nwrite\<close> are free-running 32-bit counters.
\<close>

unbundle bit_operations_syntax

definition upd_pipe :: "u64 \<Rightarrow> (pipe \<Rightarrow> pipe) \<Rightarrow> kernel \<Rightarrow> kernel" where
  "upd_pipe pi f s = s\<lparr>pipes := (pipes s)(pi := f (pipes s pi))\<rparr>"

definition pipeclose :: "u64 \<Rightarrow> bool \<Rightarrow> kernel \<Rightarrow> unit kres" where
  "pipeclose pi writable s =
     bnd (acquire (PipeLock pi) s) (\<lambda>_ s.
     bnd (if writable
          then wakeup (ChPipeRead pi) (upd_pipe pi (\<lambda>q. q\<lparr>pi_writeopen := False\<rparr>) s)
          else wakeup (ChPipeWrite pi) (upd_pipe pi (\<lambda>q. q\<lparr>pi_readopen := False\<rparr>) s)) (\<lambda>_ s.
     if \<not> pi_readopen (pipes s pi) \<and> \<not> pi_writeopen (pipes s pi)
     then bnd (release (PipeLock pi) s) (\<lambda>_ s. kfree pi s)
     else release (PipeLock pi) s))"

subsection \<open>Writing\<close>

definition pipe_put :: "u8 \<Rightarrow> pipe \<Rightarrow> pipe" where
  "pipe_put c q = q\<lparr>pi_data := (pi_data q)(unat (pi_nwrite q mod of_nat PIPESIZE) := c),
     pi_nwrite := pi_nwrite q + 1\<rparr>"

text \<open>The loop from byte \<^verbatim>\<open>i\<close> with \<^verbatim>\<open>k\<close> bytes left, the pipe's lock held.\<close>

fun pipewrite_loop :: "nat \<Rightarrow> u64 \<Rightarrow> u64 \<Rightarrow> nat \<Rightarrow> nat \<Rightarrow> kernel \<Rightarrow> i32 kres" where
  "pipewrite_loop pr pi addr i 0 s =
     bnd (wakeup (ChPipeRead pi) s) (\<lambda>_ s.
     bnd (release (PipeLock pi) s) (\<lambda>_ s. Ret (of_nat i) s))"
| "pipewrite_loop pr pi addr i (Suc k) s =
     bnd (if \<not> pi_readopen (pipes s pi) then Ret True s else killed pr s) (\<lambda>stop s.
     if stop then bnd (release (PipeLock pi) s) (\<lambda>_ s. Ret (-1) s)
     else if pi_nwrite (pipes s pi) = pi_nread (pipes s pi) + of_nat PIPESIZE then
       bnd (wakeup (ChPipeRead pi) s) (\<lambda>_ s.
       bnd (sleep (ChPipeWrite pi) (PipeLock pi) s) (\<lambda>_ s. Ret 0 s))
     else
       bnd (copyin (p_pagetable (procs s pr)) (addr + of_nat i) 1 s) (\<lambda>(r, ch) s.
       if r = -1 then
         bnd (wakeup (ChPipeRead pi) s) (\<lambda>_ s.
         bnd (release (PipeLock pi) s) (\<lambda>_ s. Ret (of_nat i) s))
       else pipewrite_loop pr pi addr (Suc i) k (upd_pipe pi (pipe_put (hd ch)) s)))"

definition pipewrite :: "u64 \<Rightarrow> u64 \<Rightarrow> i32 \<Rightarrow> kernel \<Rightarrow> i32 kres" where
  "pipewrite pi addr n s = with_proc s (\<lambda>pr.
     bnd (acquire (PipeLock pi) s) (\<lambda>_ s.
     pipewrite_loop pr pi addr 0 (nat (sint n)) s))"

text \<open>After the sleep on a full pipe, with \<^verbatim>\<open>i\<close> bytes written and \<^verbatim>\<open>k\<close> left.\<close>

definition pipewrite_resume :: "nat \<Rightarrow> u64 \<Rightarrow> u64 \<Rightarrow> nat \<Rightarrow> nat \<Rightarrow> kernel \<Rightarrow> i32 kres" where
  "pipewrite_resume pr pi addr i k s =
     bnd (sleep_resume pr (PipeLock pi) s) (\<lambda>_ s. pipewrite_loop pr pi addr i k s)"

subsection \<open>Reading\<close>

definition pipe_get :: "pipe \<Rightarrow> u8" where
  "pipe_get q = pi_data q (unat (pi_nread q mod of_nat PIPESIZE))"

fun piperead_loop :: "nat \<Rightarrow> u64 \<Rightarrow> u64 \<Rightarrow> nat \<Rightarrow> nat \<Rightarrow> kernel \<Rightarrow> i32 kres" where
  "piperead_loop pr pi addr i 0 s = Ret (of_nat i) s"
| "piperead_loop pr pi addr i (Suc k) s =
     (if pi_nread (pipes s pi) = pi_nwrite (pipes s pi) then Ret (of_nat i) s
      else
        bnd (copyout (p_pagetable (procs s pr)) (addr + of_nat i) [pipe_get (pipes s pi)] s) (\<lambda>r s.
        if r = -1 then Ret (if i = 0 then -1 else of_nat i) s
        else piperead_loop pr pi addr (Suc i) k
               (upd_pipe pi (\<lambda>q. q\<lparr>pi_nread := pi_nread q + 1\<rparr>) s)))"

text \<open>The code from the test for an empty pipe on, the pipe's lock held.\<close>

definition piperead_locked :: "nat \<Rightarrow> u64 \<Rightarrow> u64 \<Rightarrow> i32 \<Rightarrow> kernel \<Rightarrow> i32 kres" where
  "piperead_locked pr pi addr n s =
     (if pi_nread (pipes s pi) = pi_nwrite (pipes s pi) \<and> pi_writeopen (pipes s pi) then
        bnd (killed pr s) (\<lambda>k s.
        if k then bnd (release (PipeLock pi) s) (\<lambda>_ s. Ret (-1) s)
        else bnd (sleep (ChPipeRead pi) (PipeLock pi) s) (\<lambda>_ s. Ret 0 s))
      else
        bnd (piperead_loop pr pi addr 0 (nat (sint n)) s) (\<lambda>i s.
        bnd (wakeup (ChPipeWrite pi) s) (\<lambda>_ s.
        bnd (release (PipeLock pi) s) (\<lambda>_ s. Ret i s))))"

definition piperead :: "u64 \<Rightarrow> u64 \<Rightarrow> i32 \<Rightarrow> kernel \<Rightarrow> i32 kres" where
  "piperead pi addr n s = with_proc s (\<lambda>pr.
     bnd (acquire (PipeLock pi) s) (\<lambda>_ s.
     piperead_locked pr pi addr n s))"

definition piperead_resume :: "nat \<Rightarrow> u64 \<Rightarrow> u64 \<Rightarrow> i32 \<Rightarrow> kernel \<Rightarrow> i32 kres" where
  "piperead_resume pr pi addr n s =
     bnd (sleep_resume pr (PipeLock pi) s) (\<lambda>_ s. piperead_locked pr pi addr n s)"

end
