(* ===== verification/Printf.thy ===== *)
theory Printf
  imports Sync
begin

text \<open>
  Kernel output: \<^verbatim>\<open>uartputc_sync\<close>, \<^verbatim>\<open>consputc\<close> and \<^verbatim>\<open>kernel/printf.c\<close>. The bytes
  sent to the UART accumulate in \<^verbatim>\<open>uart_out\<close>. The lemmas show that \<^verbatim>\<open>printint\<close>
  prints the positional representation of its argument and that its 20-byte buffer is
  always large enough.
\<close>

unbundle bit_operations_syntax

definition bytes_of :: "string \<Rightarrow> u8 list" where
  "bytes_of cs = map of_char cs"

text \<open>Spinning until the transmitter is idle is the device's business.\<close>

definition uartputc_sync :: "u32 \<Rightarrow> kernel \<Rightarrow> kernel" where
  "uartputc_sync c s = s\<lparr>uart_out := uart_out s @ [ucast c]\<rparr>"

abbreviation (input) BACKSPACE :: u32 where "BACKSPACE \<equiv> 0x100"

definition consputc :: "u32 \<Rightarrow> kernel \<Rightarrow> kernel" where
  "consputc c s =
     (if c = BACKSPACE
      then uartputc_sync 8 (uartputc_sync 32 (uartputc_sync 8 s))
      else uartputc_sync c s)"

fun consputs :: "u8 list \<Rightarrow> kernel \<Rightarrow> kernel" where
  "consputs [] s = s"
| "consputs (c # cs) s = consputs cs (consputc (ucast c) s)"

definition digits :: "u8 list" where
  "digits = bytes_of ''0123456789abcdef''"

text \<open>The do-while loop: the digits of \<^verbatim>\<open>x\<close>, least significant first.\<close>

function digit_buf :: "nat \<Rightarrow> nat \<Rightarrow> u8 list" where
  "digit_buf base x =
     digits ! (x mod base) # (if x div base \<noteq> 0 \<and> 1 < base then digit_buf base (x div base) else [])"
  by pat_completeness auto
termination
proof (relation "measure snd")
  fix base x :: nat assume a: "x div base \<noteq> 0 \<and> 1 < base"
  then have "0 < x" by (cases x) auto
  with a show "((base, x div base), base, x) \<in> measure snd" by (simp add: div_less_dividend)
qed simp

declare digit_buf.simps [simp del]

definition printint_buf :: "u64 \<Rightarrow> nat \<Rightarrow> bool \<Rightarrow> u8 list" where
  "printint_buf xx base sign =
     (let neg = (sign \<and> xx <s 0); x = (if neg then - xx else xx)
      in digit_buf base (unat x) @ (if neg then [of_char (CHR ''-'')] else []))"

text \<open>\<^verbatim>\<open>while(--i >= 0) consputc(buf[i])\<close>: the buffer from its end.\<close>

definition printint :: "u64 \<Rightarrow> nat \<Rightarrow> bool \<Rightarrow> kernel \<Rightarrow> kernel" where
  "printint xx base sign s = consputs (rev (printint_buf xx base sign)) s"

fun printptr_loop :: "nat \<Rightarrow> u64 \<Rightarrow> kernel \<Rightarrow> kernel" where
  "printptr_loop 0 x s = s"
| "printptr_loop (Suc n) x s =
     printptr_loop n (push_bit 4 x) (consputc (ucast (digits ! unat (drop_bit 60 x))) s)"

definition printptr :: "u64 \<Rightarrow> kernel \<Rightarrow> kernel" where
  "printptr x s = printptr_loop 16 x (consputs (bytes_of ''0x'') s)"

subsection \<open>printf\<close>

text \<open>Variable arguments: integers as the register that holds them, strings as their bytes,
  \<^verbatim>\<open>VNull\<close> for a null string. Reading past the last argument yields 0.\<close>

datatype va = VInt u64 | VStr "u8 list" | VNull

fun va_u64 :: "va list \<Rightarrow> u64" where
  "va_u64 (VInt x # _) = x"
| "va_u64 _ = 0"

fun va_str :: "va list \<Rightarrow> u8 list" where
  "va_str (VStr x # _) = cstr x"
| "va_str _ = bytes_of ''(null)''"

definition va_int :: "va list \<Rightarrow> u64" where
  "va_int ap = scast (ucast (va_u64 ap) :: i32)"

definition va_u32 :: "va list \<Rightarrow> u64" where
  "va_u32 ap = ucast (ucast (va_u64 ap) :: u32)"

abbreviation (input) ch :: "char \<Rightarrow> u8" where "ch c \<equiv> of_char c"

text \<open>One conversion after a \<^verbatim>\<open>%\<close>: how many more format characters than one it takes,
  whether it takes an argument, and the state after the output; \<^verbatim>\<open>None\<close> where the
  source breaks out of the loop.\<close>

definition printf_conv :: "u8 list \<Rightarrow> va list \<Rightarrow> kernel \<Rightarrow> (nat \<times> bool \<times> kernel) option" where
  "printf_conv f ap s =
     (let c0 = deref f;
          c1 = (if c0 \<noteq> 0 then deref (tl f) else 0);
          c2 = (if c1 \<noteq> 0 then deref (tl (tl f)) else 0);
          d = ch (CHR ''d''); l = ch (CHR ''l''); u = ch (CHR ''u''); x = ch (CHR ''x'')
      in if c0 = d then Some (0, True, printint (va_int ap) 10 True s)
         else if c0 = l \<and> c1 = d then Some (1, True, printint (va_u64 ap) 10 True s)
         else if c0 = l \<and> c1 = l \<and> c2 = d then Some (2, True, printint (va_u64 ap) 10 True s)
         else if c0 = u then Some (0, True, printint (va_u32 ap) 10 False s)
         else if c0 = l \<and> c1 = u then Some (1, True, printint (va_u64 ap) 10 False s)
         else if c0 = l \<and> c1 = l \<and> c2 = u then Some (2, True, printint (va_u64 ap) 10 False s)
         else if c0 = x then Some (0, True, printint (va_u32 ap) 16 False s)
         else if c0 = l \<and> c1 = x then Some (1, True, printint (va_u64 ap) 16 False s)
         else if c0 = l \<and> c1 = l \<and> c2 = x then Some (2, True, printint (va_u64 ap) 16 False s)
         else if c0 = ch (CHR ''p'') then Some (0, True, printptr (va_u64 ap) s)
         else if c0 = ch (CHR ''c'') then Some (0, True, consputc (ucast (va_u64 ap)) s)
         else if c0 = ch (CHR ''s'') then Some (0, True, consputs (va_str ap) s)
         else if c0 = ch (CHR ''%'') then Some (0, False, consputc (ucast (ch (CHR ''%''))) s)
         else if c0 = 0 then None
         else Some (0, False, consputc (ucast c0) (consputc (ucast (ch (CHR ''%''))) s)))"

function printf_loop :: "u8 list \<Rightarrow> va list \<Rightarrow> kernel \<Rightarrow> kernel" where
  "printf_loop [] ap s = s"
| "printf_loop (c # fmt) ap s =
     (if c = 0 then s
      else if c \<noteq> ch (CHR ''%'') then printf_loop fmt ap (consputc (ucast c) s)
      else case printf_conv fmt ap s of
          None \<Rightarrow> s
        | Some (n, pop, s) \<Rightarrow> printf_loop (drop (Suc n) fmt) (if pop then tl ap else ap) s)"
  by pat_completeness auto
termination
  by (relation "measure (\<lambda>(fmt, ap, s). length fmt)") auto

definition printf :: "string \<Rightarrow> va list \<Rightarrow> kernel \<Rightarrow> unit kres" where
  "printf fmt ap s =
     bnd (acquire PrLock s) (\<lambda>_ s.
     release PrLock (printf_loop (bytes_of fmt) ap s))"

text \<open>What a panic leaves on the console; it takes no lock, and output stops after it.\<close>

definition panic :: "string \<Rightarrow> kernel \<Rightarrow> kernel" where
  "panic m s =
     printf_loop (bytes_of (''%s'' @ [CHR 0x0A])) [VStr (bytes_of m)]
       (printf_loop (bytes_of ''panic: '') [] s)"

subsection \<open>What is printed\<close>

lemma consputc_byte: "uart_out (consputc (ucast (c :: u8)) s) = uart_out s @ [c]"
proof -
  have "(ucast c :: u32) \<noteq> BACKSPACE"
  proof
    assume "(ucast c :: u32) = BACKSPACE"
    then have "unat (ucast c :: u32) = 256" by simp
    then have "unat c = 256" by (simp add: unat_ucast_up)
    with unat_bound [of c] show False by simp
  qed
  moreover have "ucast (ucast c :: u32) = c"
    by (rule bit_word_eqI) (simp add: bit_ucast_iff)
  ultimately show ?thesis by (simp add: consputc_def uartputc_sync_def)
qed

lemma consputs_bytes: "uart_out (consputs cs s) = uart_out s @ cs"
  by (induction cs arbitrary: s) (simp_all add: consputc_byte)

definition value_of :: "nat \<Rightarrow> nat list \<Rightarrow> nat" where
  "value_of base ds = foldl (\<lambda>a d. a * base + d) 0 ds"

lemma value_of_snoc [simp]: "value_of base (ds @ [d]) = value_of base ds * base + d"
  by (simp add: value_of_def)

lemma digit_buf_value:
  assumes "1 < base"
  shows "\<exists>ds. rev (digit_buf base x) = map ((!) digits) ds \<and> (\<forall>d \<in> set ds. d < base) \<and>
    value_of base ds = x \<and> (x \<noteq> 0 \<longrightarrow> hd ds \<noteq> 0) \<and> ds \<noteq> []"
  using assms
proof (induction base x rule: digit_buf.induct)
  case (1 base x)
  show ?case
  proof (cases "x div base = 0")
    case True
    then have "x < base" using 1(2) by (simp add: div_eq_0_iff)
    then show ?thesis
      by (subst digit_buf.simps) (auto simp: value_of_def intro!: exI [of _ "[x]"])
  next
    case False
    then obtain ds where ds: "rev (digit_buf base (x div base)) = map ((!) digits) ds"
      "\<forall>d \<in> set ds. d < base" "value_of base ds = x div base" "hd ds \<noteq> 0" "ds \<noteq> []"
      using 1 by auto
    then show ?thesis
      using False 1(2)
      by (subst digit_buf.simps) (auto intro!: exI [of _ "ds @ [x mod base]"])
  qed
qed

lemma digit_buf_length:
  assumes "1 < base" "x < base ^ n" "0 < n"
  shows "length (digit_buf base x) \<le> n"
  using assms
proof (induction n arbitrary: x)
  case 0
  then show ?case by simp
next
  case (Suc n)
  show ?case
  proof (cases "x div base = 0")
    case True
    then show ?thesis by (subst digit_buf.simps) simp
  next
    case False
    then have "0 < n" using Suc.prems by (cases n) (auto simp: div_eq_0_iff)
    moreover have "x div base < base ^ n"
      using Suc.prems by (simp add: less_mult_imp_div_less mult.commute)
    ultimately have "length (digit_buf base (x div base)) \<le> n" using Suc by blast
    then show ?thesis using False by (subst digit_buf.simps) simp
  qed
qed

lemma abs_word:
  fixes xx :: u64
  shows "int (unat (if xx <s 0 then - xx else xx)) = \<bar>sint xx\<bar>"
proof (cases "xx <s 0")
  case True
  then have neg: "sint xx < 0" "xx \<noteq> 0" by (auto simp: word_sless_alt)
  then have "uint xx = sint xx + 2 ^ 64" using uint_sint_64 [of xx] by simp
  moreover have "uint (0 - xx) = 2 ^ 64 - uint xx"
    using neg(2) by (subst uint_sub_if') (simp add: uint_0_iff)
  ultimately show ?thesis using True neg(1) by simp
next
  case False
  then have "\<not> sint xx < 0" by (simp add: word_sless_alt)
  then have "uint xx = sint xx" using uint_sint_64 [of xx] by simp
  with False \<open>\<not> sint xx < 0\<close> show ?thesis by simp
qed

subsection \<open>Output changes nothing but the UART\<close>

lemma consputc_uart: "\<exists>out. consputc c s = s\<lparr>uart_out := out\<rparr>"
  by (simp add: consputc_def uartputc_sync_def) blast

lemma consputs_uart: "\<exists>out. consputs cs s = s\<lparr>uart_out := out\<rparr>"
proof (induction cs arbitrary: s)
  case Nil
  have "consputs [] s = s\<lparr>uart_out := uart_out s\<rparr>" by simp
  then show ?case by blast
next
  case (Cons c cs)
  obtain out where "consputc (ucast c) s = s\<lparr>uart_out := out\<rparr>" using consputc_uart by blast
  with Cons [of "s\<lparr>uart_out := out\<rparr>"] show ?case by auto
qed

lemma printptr_uart: "\<exists>out. printptr x s = s\<lparr>uart_out := out\<rparr>"
proof -
  have "\<exists>out. printptr_loop n y t = t\<lparr>uart_out := out\<rparr>" for n y t
  proof (induction n arbitrary: y t)
    case 0
    have "printptr_loop 0 y t = t\<lparr>uart_out := uart_out t\<rparr>" by simp
    then show ?case by blast
  next
    case (Suc n)
    obtain out where "consputc (ucast (digits ! unat (drop_bit 60 y))) t = t\<lparr>uart_out := out\<rparr>"
      using consputc_uart by blast
    with Suc [of "push_bit 4 y" "t\<lparr>uart_out := out\<rparr>"] show ?case by auto
  qed
  moreover obtain out where "consputs (bytes_of ''0x'') s = s\<lparr>uart_out := out\<rparr>" using consputs_uart by blast
  ultimately obtain out' where "printptr x s = (s\<lparr>uart_out := out\<rparr>)\<lparr>uart_out := out'\<rparr>"
    unfolding printptr_def by metis
  then show ?thesis by auto
qed

lemma uart_chain:
  "t = s\<lparr>uart_out := x\<rparr> \<Longrightarrow> \<exists>out. u = t\<lparr>uart_out := out\<rparr> \<Longrightarrow> \<exists>out. u = s\<lparr>uart_out := out\<rparr>"
  by auto

lemma printf_conv_uart:
  assumes "printf_conv f ap s = Some (n, pop, t)"
  shows "\<exists>out. t = s\<lparr>uart_out := out\<rparr>"
proof -
  define q where "q r = (case r of None \<Rightarrow> True | Some (n :: nat, pop :: bool, t) \<Rightarrow> \<exists>out. t = s\<lparr>uart_out := out\<rparr>)"
    for r
  have q_if: "q a \<Longrightarrow> q b \<Longrightarrow> q (if c then a else b)" for a b c by simp
  have q_some: "\<exists>out. u = s\<lparr>uart_out := out\<rparr> \<Longrightarrow> q (Some (k, p, u))" for k p u by (simp add: q_def)
  have two: "\<exists>out. consputc c (consputc d s) = s\<lparr>uart_out := out\<rparr>" for c d
    using consputc_uart [of d s] consputc_uart [of c "consputc d s"] by (auto intro: uart_chain)
  have "q (printf_conv f ap s)"
    unfolding printf_conv_def Let_def printint_def
    by (intro q_if q_some consputs_uart consputc_uart printptr_uart two) (simp add: q_def)
  with assms show ?thesis by (simp add: q_def)
qed

lemma printf_loop_uart: "\<exists>out. printf_loop f ap s = s\<lparr>uart_out := out\<rparr>"
proof (induction f ap s rule: printf_loop.induct)
  case (1 ap s)
  have "printf_loop [] ap s = s\<lparr>uart_out := uart_out s\<rparr>" by simp
  then show ?case by blast
next
  case (2 c f ap s)
  have same: "\<exists>out. s = s\<lparr>uart_out := out\<rparr>" by (rule exI [of _ "uart_out s"]) simp
  consider "c = 0" | "c \<noteq> 0" "c \<noteq> ch (CHR ''%'')" | "c \<noteq> 0" "c = ch (CHR ''%'')" by blast
  then show ?case
  proof cases
    case 1
    with same show ?thesis by simp
  next
    case 2
    obtain x where x: "consputc (ucast c) s = s\<lparr>uart_out := x\<rparr>" using consputc_uart by blast
    from uart_chain [OF x] "2.IH"(1) [OF 2] 2 show ?thesis by simp
  next
    case 3
    show ?thesis
    proof (cases "printf_conv f ap s")
      case None
      then have "printf_loop (c # f) ap s = s" unfolding printf_loop.simps 3(2) by (simp only: option.case simp_thms if_False if_cancel)
      then show ?thesis using same by (simp only:)
    next
      case (Some a)
      obtain n pop t where a: "a = (n, pop, t)" by (cases a) blast
      then obtain x where x: "t = s\<lparr>uart_out := x\<rparr>" using printf_conv_uart Some by blast
      have "printf_loop (c # f) ap s = printf_loop (drop (Suc n) f) (if pop then tl ap else ap) t"
        using 3(1) unfolding printf_loop.simps Some a 3(2) by (simp only: option.case prod.case if_False simp_thms)
      moreover have n: "\<not> c \<noteq> ch (CHR ''%'')" using 3(2) by simp
      ultimately show ?thesis
        using uart_chain [OF x "2.IH"(2) [OF 3(1) n Some a [symmetric] refl]] by (simp only:)
    qed
  qed
qed

lemma printf_returns:
  assumes "PrLock \<notin> held s"
  obtains out where "printf fmt ap s = Ret () (s\<lparr>uart_out := out\<rparr>)"
proof -
  obtain out where "printf_loop (bytes_of fmt) ap (s\<lparr>held := insert PrLock (held s)\<rparr>) =
      (s\<lparr>held := insert PrLock (held s)\<rparr>)\<lparr>uart_out := out\<rparr>"
    using printf_loop_uart by blast
  then have "printf fmt ap s = Ret () (s\<lparr>uart_out := out\<rparr>)" using assms by (simp add: printf_def)
  then show ?thesis by (rule that)
qed

subsection \<open>Properties\<close>

text \<open>\<^bold>\<open>C33\<close> \<^verbatim>\<open>printint\<close> in base 10 with a sign prints a minus sign exactly for negative
  numbers, followed by decimal digits without leading zeros whose value is the absolute
  value of the argument, the most negative number included.\<close>

theorem printint_decimal:
  "\<exists>ds. uart_out (printint xx 10 True s) =
       uart_out s @ (if xx <s 0 then [of_char (CHR ''-'')] else []) @ map ((!) digits) ds \<and>
     (\<forall>d \<in> set ds. d < 10) \<and> int (value_of 10 ds) = \<bar>sint xx\<bar> \<and> ds \<noteq> [] \<and> (xx = 0 \<or> hd ds \<noteq> 0)"
proof -
  let ?x = "if xx <s 0 then - xx else xx"
  obtain ds where ds: "rev (digit_buf 10 (unat ?x)) = map ((!) digits) ds" "\<forall>d \<in> set ds. d < 10"
    "value_of 10 ds = unat ?x" "unat ?x \<noteq> 0 \<longrightarrow> hd ds \<noteq> 0" "ds \<noteq> []"
    using digit_buf_value [of 10 "unat ?x"] by auto
  have "xx = 0 \<or> unat ?x \<noteq> 0" by (simp add: unat_eq_zero)
  then show ?thesis
    using ds abs_word [of xx]
    by (intro exI [of _ ds]) (auto simp: printint_def printint_buf_def consputs_bytes Let_def)
qed

theorem printint_decimal_witness:
  "(\<exists>ds. uart_out (printint (- 42) 10 True kernel0) = [of_char (CHR ''-'')] @ map ((!) digits) ds \<and>
     value_of 10 ds = 42)"
  using printint_decimal [of "- 42" kernel0] by (auto simp: kernel0_def word_sless_alt)

text \<open>The 20-byte buffer of \<^verbatim>\<open>printint\<close> never overflows: not for a signed or
  unsigned 64-bit argument in base 10, nor in base 16.\<close>

lemma printint_fits:
  "length (printint_buf xx 10 sign) \<le> 20 \<and> length (printint_buf xx 16 sign) \<le> 20"
proof -
  let ?neg = "sign \<and> xx <s 0"
  have neg: "unat (- xx) \<le> 2 ^ 63" if "xx <s 0"
  proof -
    have "sint xx \<ge> - (2 ^ 63)" using sint_ge [of xx] by simp
    then have "uint (- xx) \<le> 2 ^ 63" using abs_word [of xx] that by (simp add: word_sless_alt)
    then have "int (unat (- xx)) \<le> int (2 ^ 63)" by simp
    then show ?thesis by (simp only: of_nat_le_iff)
  qed
  have "length (digit_buf 10 (unat xx)) \<le> 20" "length (digit_buf 16 (unat xx)) \<le> 20"
    using unat_bound [of xx] by (intro digit_buf_length; simp)+
  moreover have "length (digit_buf 10 (unat (- xx))) \<le> 19" "length (digit_buf 16 (unat (- xx))) \<le> 19"
    if "xx <s 0"
    using neg [OF that] by (intro digit_buf_length; simp)+
  ultimately show ?thesis by (auto simp: printint_buf_def Let_def)
qed

end
