(* ===== verification/Console.thy ===== *)
theory Console
  imports Sched Printf
begin

text \<open>
  The console, \<^verbatim>\<open>kernel/console.c\<close>, with the interrupt-driven half of the UART driver
  \<^verbatim>\<open>kernel/uart.c\<close> and \<^verbatim>\<open>procdump\<close> of \<^verbatim>\<open>proc.c\<close>. Input is edited in a ring
  of 128 bytes between the indices \<^verbatim>\<open>r\<close> (read), \<^verbatim>\<open>w\<close> (complete lines) and
  \<^verbatim>\<open>e\<close> (being edited), free-running 32-bit counters. The device's registers enter as
  arguments: whether the transmitter is idle, and the bytes the receiver holds.
\<close>

unbundle bit_operations_syntax

abbreviation (input) INPUT_BUF_SIZE :: u32 where "INPUT_BUF_SIZE \<equiv> 128"
abbreviation (input) CONSOLE :: nat where "CONSOLE \<equiv> 1"

subsection \<open>The UART driver\<close>

fun uartwrite_loop :: "u8 list \<Rightarrow> kernel \<Rightarrow> unit kres" where
  "uartwrite_loop [] s = release TxLock s"
| "uartwrite_loop (c # cs) s =
     (if tx_busy s then sleep ChTx TxLock s
      else uartwrite_loop cs (s\<lparr>uart_out := uart_out s @ [c], tx_busy := True\<rparr>))"

definition uartwrite :: "u8 list \<Rightarrow> kernel \<Rightarrow> unit kres" where
  "uartwrite buf s = bnd (acquire TxLock s) (\<lambda>_ s. uartwrite_loop buf s)"

text \<open>After the sleep for the transmitter, with the bytes \<^verbatim>\<open>cs\<close> left.\<close>

definition uartwrite_resume :: "nat \<Rightarrow> u8 list \<Rightarrow> kernel \<Rightarrow> unit kres" where
  "uartwrite_resume p cs s = bnd (sleep_resume p TxLock s) (\<lambda>_ s. uartwrite_loop cs s)"

subsection \<open>Process listing\<close>

fun state_name :: "procstate \<Rightarrow> string" where
  "state_name UNUSED = ''unused''"
| "state_name USED = ''used''"
| "state_name SLEEPING = ''sleep ''"
| "state_name RUNNABLE = ''runble''"
| "state_name RUNNING = ''run   ''"
| "state_name ZOMBIE = ''zombie''"

fun procdump_loop :: "nat list \<Rightarrow> kernel \<Rightarrow> unit kres" where
  "procdump_loop [] s = Ret () s"
| "procdump_loop (p # ps) s =
     (let q = procs s p in
      if p_state q = UNUSED then procdump_loop ps s
      else
        bnd (printf ''%d %s %s'' [VInt (ucast (p_pid q)), VStr (bytes_of (state_name (p_state q))),
               VStr (p_name q)] s) (\<lambda>_ s.
        bnd (printf [CHR 0x0A] [] s) (\<lambda>_ s.
        procdump_loop ps s)))"

definition procdump :: "kernel \<Rightarrow> unit kres" where
  "procdump s = bnd (printf [CHR 0x0A] [] s) (\<lambda>_ s. procdump_loop [0..<NPROC] s)"

subsection \<open>Output\<close>

text \<open>The loop from byte \<^verbatim>\<open>i\<close> with \<^verbatim>\<open>k\<close> bytes left, 32 bytes at a time.\<close>

function consolewrite_loop :: "bool \<Rightarrow> u64 \<Rightarrow> nat \<Rightarrow> nat \<Rightarrow> kernel \<Rightarrow> i32 kres" where
  "consolewrite_loop user_src src i k s =
     (if k = 0 then Ret (of_nat i) s
      else
        let nn = min 32 k in
        bnd (either_copyin user_src (src + of_nat i) nn s) (\<lambda>(r, buf) s.
        if r = -1 then Ret (of_nat i) s
        else bnd (uartwrite buf s) (\<lambda>_ s. consolewrite_loop user_src src (i + nn) (k - nn) s)))"
  by pat_completeness auto
termination
  by (relation "measure (\<lambda>(u, src, i, k, s). k)") auto

declare consolewrite_loop.simps [simp del]

definition consolewrite :: "bool \<Rightarrow> u64 \<Rightarrow> i32 \<Rightarrow> kernel \<Rightarrow> i32 kres" where
  "consolewrite user_src src n s = consolewrite_loop user_src src 0 (nat (sint n)) s"

subsection \<open>Input\<close>

text \<open>The loop with \<^verbatim>\<open>n\<close> of \<^verbatim>\<open>target\<close> bytes still wanted, the console's lock
  held.\<close>

fun consoleread_loop :: "bool \<Rightarrow> u64 \<Rightarrow> nat \<Rightarrow> nat \<Rightarrow> kernel \<Rightarrow> i32 kres" where
  "consoleread_loop user_dst dst target 0 s =
     bnd (release ConsLock s) (\<lambda>_ s. Ret (of_nat target) s)"
| "consoleread_loop user_dst dst target (Suc n) s =
     (if cons_r s = cons_w s then
        with_proc s (\<lambda>p.
        bnd (killed p s) (\<lambda>k s.
        if k then bnd (release ConsLock s) (\<lambda>_ s. Ret (-1) s)
        else bnd (sleep ChCons ConsLock s) (\<lambda>_ s. Ret 0 s)))
      else
        let c = cons_buf s (unat (cons_r s mod INPUT_BUF_SIZE));
            s = s\<lparr>cons_r := cons_r s + 1\<rparr> in
        if c = 4 then
          let s = (if Suc n < target then s\<lparr>cons_r := cons_r s - 1\<rparr> else s) in
          bnd (release ConsLock s) (\<lambda>_ s. Ret (of_nat (target - Suc n)) s)
        else
          bnd (either_copyout user_dst dst [c] s) (\<lambda>r s.
          if r = -1 then bnd (release ConsLock s) (\<lambda>_ s. Ret (of_nat (target - Suc n)) s)
          else if c = 10 then bnd (release ConsLock s) (\<lambda>_ s. Ret (of_nat (target - n)) s)
          else consoleread_loop user_dst (dst + 1) target n s))"

definition consoleread :: "bool \<Rightarrow> u64 \<Rightarrow> i32 \<Rightarrow> kernel \<Rightarrow> i32 kres" where
  "consoleread user_dst dst n s =
     bnd (acquire ConsLock s) (\<lambda>_ s.
     let k = nat (sint n) in consoleread_loop user_dst dst k k s)"

definition consoleread_resume :: "nat \<Rightarrow> bool \<Rightarrow> u64 \<Rightarrow> nat \<Rightarrow> nat \<Rightarrow> kernel \<Rightarrow> i32 kres" where
  "consoleread_resume p user_dst dst target n s =
     bnd (sleep_resume p ConsLock s) (\<lambda>_ s. consoleread_loop user_dst dst target n s)"

function kill_line :: "kernel \<Rightarrow> kernel" where
  "kill_line s =
     (if cons_e s \<noteq> cons_w s \<and> cons_buf s (unat ((cons_e s - 1) mod INPUT_BUF_SIZE)) \<noteq> 10
      then kill_line (consputc BACKSPACE (s\<lparr>cons_e := cons_e s - 1\<rparr>))
      else s)"
  by pat_completeness auto

lemma consputc_cons [simp]:
  "cons_e (consputc c s) = cons_e s" "cons_w (consputc c s) = cons_w s"
  "cons_r (consputc c s) = cons_r s" "cons_buf (consputc c s) = cons_buf s"
  "held (consputc c s) = held s"
  by (simp_all add: consputc_def uartputc_sync_def)

termination kill_line
proof (relation "measure (\<lambda>s. unat (cons_e s - cons_w s))")
  fix s :: kernel
  assume "cons_e s \<noteq> cons_w s \<and> cons_buf s (unat ((cons_e s - 1) mod INPUT_BUF_SIZE)) \<noteq> 10"
  then have "unat (cons_e s - cons_w s - 1) < unat (cons_e s - cons_w s)"
    by (intro word_neq_0_decr) simp
  then show "(consputc BACKSPACE (s\<lparr>cons_e := cons_e s - 1\<rparr>), s) \<in> measure (\<lambda>s. unat (cons_e s - cons_w s))"
    by (simp add: algebra_simps)
qed simp

declare kill_line.simps [simp del]

definition consoleintr :: "u32 \<Rightarrow> kernel \<Rightarrow> unit kres" where
  "consoleintr c s =
     bnd (acquire ConsLock s) (\<lambda>_ s.
     bnd (if c = 0x10 then procdump s
          else if c = 0x15 then Ret () (kill_line s)
          else if c = 8 \<or> c = 0x7F then
            if cons_e s \<noteq> cons_w s then Ret () (consputc BACKSPACE (s\<lparr>cons_e := cons_e s - 1\<rparr>))
            else Ret () s
          else if c \<noteq> 0 \<and> cons_e s - cons_r s < INPUT_BUF_SIZE then
            let c = (if c = 13 then 10 else c);
                s = consputc c s;
                s = s\<lparr>cons_buf := (cons_buf s)(unat (cons_e s mod INPUT_BUF_SIZE) := ucast c),
                      cons_e := cons_e s + 1\<rparr> in
            if c = 10 \<or> c = 4 \<or> cons_e s - cons_r s = INPUT_BUF_SIZE
            then wakeup ChCons (s\<lparr>cons_w := cons_e s\<rparr>)
            else Ret () s
          else Ret () s) (\<lambda>_ s.
     release ConsLock s))"

fun uart_input :: "u8 list \<Rightarrow> kernel \<Rightarrow> unit kres" where
  "uart_input [] s = Ret () s"
| "uart_input (c # cs) s = bnd (consoleintr (ucast c) s) (\<lambda>_ s. uart_input cs s)"

definition uartintr :: "bool \<Rightarrow> u8 list \<Rightarrow> kernel \<Rightarrow> unit kres" where
  "uartintr tx_idle input s =
     bnd (acquire TxLock s) (\<lambda>_ s.
     bnd (if tx_idle then wakeup ChTx (s\<lparr>tx_busy := False\<rparr>) else Ret () s) (\<lambda>_ s.
     bnd (release TxLock s) (\<lambda>_ s.
     uart_input input s)))"

definition consoleinit :: "kernel \<Rightarrow> kernel" where
  "consoleinit s = s\<lparr>devsw := (devsw s)(CONSOLE := True)\<rparr>"

end
