(* ===== verification/Bio.thy ===== *)
theory Bio
  imports Printf
begin

text \<open>
  The buffer cache, \<^verbatim>\<open>kernel/bio.c\<close>: thirty buffers on a circular doubly linked list in
  least-recently-used order. A buffer's \<^verbatim>\<open>next\<close> and \<^verbatim>\<open>prev\<close> pointers are the
  functions \<^verbatim>\<open>lru_next\<close> and \<^verbatim>\<open>lru_prev\<close> of the state. The disk is seen through
  the contract of \<^verbatim>\<open>virtio_disk_rw\<close>: the transfer is complete when the call returns;
  theory \<^verbatim>\<open>Virtio\<close> derives it from the driver.
\<close>

unbundle bit_operations_syntax

subsection \<open>Integers inside a block\<close>

definition get32 :: "block \<Rightarrow> nat \<Rightarrow> u32" where
  "get32 d k = le_word 4 (\<lambda>i. d (k + i))"

definition put32 :: "nat \<Rightarrow> u32 \<Rightarrow> block \<Rightarrow> block" where
  "put32 k w d = (\<lambda>j. if k \<le> j \<and> j < k + 4 then byte_of w (j - k) else d j)"

definition get16 :: "block \<Rightarrow> nat \<Rightarrow> u16" where
  "get16 d k = le_word 2 (\<lambda>i. d (k + i))"

definition put16 :: "nat \<Rightarrow> u16 \<Rightarrow> block \<Rightarrow> block" where
  "put16 k w d = (\<lambda>j. if k \<le> j \<and> j < k + 2 then byte_of w (j - k) else d j)"

subsection \<open>Disk transfers\<close>

definition upd_buf :: "nat \<Rightarrow> (buf \<Rightarrow> buf) \<Rightarrow> kernel \<Rightarrow> kernel" where
  "upd_buf i f s = s\<lparr>bufs := (bufs s)(i := f (bufs s i))\<rparr>"

text \<open>The transfer of one block between buffer and disk. The caller sleeps until the
  interrupt, so it must be a process that holds no other spinlock.\<close>

definition disk_xfer :: "nat \<Rightarrow> bool \<Rightarrow> kernel \<Rightarrow> kernel" where
  "disk_xfer b write s =
     (if write
      then s\<lparr>disk := (disk s)(b_blockno (bufs s b) := b_data (bufs s b)),
             dwrites := dwrites s @ [(b_blockno (bufs s b), b_data (bufs s b))]\<rparr>
      else upd_buf b (\<lambda>q. q\<lparr>b_data := disk s (b_blockno q)\<rparr>) s)"

definition disk_rw :: "nat \<Rightarrow> bool \<Rightarrow> kernel \<Rightarrow> unit kres" where
  "disk_rw b write s =
     bnd (acquire VdiskLock s) (\<lambda>_ s.
     with_proc s (\<lambda>p.
       if ProcLock p \<in> held s then Panic ''acquire''
       else if held s \<noteq> {VdiskLock} then Panic ''sched locks''
       else release VdiskLock (upd_buf b (\<lambda>q. q\<lparr>b_disk := False\<rparr>) (disk_xfer b write s))))"

subsection \<open>The cache\<close>

definition binit_buf :: "nat \<Rightarrow> kernel \<Rightarrow> kernel" where
  "binit_buf b s =
     (let s = s\<lparr>lru_next := (lru_next s)(Buf b := lru_next s BHead)\<rparr>;
          s = s\<lparr>lru_prev := (lru_prev s)(Buf b := BHead)\<rparr>;
          s = initsleeplock (BufSL b) s;
          s = s\<lparr>lru_prev := (lru_prev s)(lru_next s BHead := Buf b)\<rparr>
      in s\<lparr>lru_next := (lru_next s)(BHead := Buf b)\<rparr>)"

definition binit :: "kernel \<Rightarrow> kernel" where
  "binit s = fold binit_buf [0..<NBUF]
     (s\<lparr>lru_prev := (lru_prev s)(BHead := BHead), lru_next := (lru_next s)(BHead := BHead)\<rparr>)"

definition has_block :: "u32 \<Rightarrow> u32 \<Rightarrow> kernel \<Rightarrow> nat \<Rightarrow> bool" where
  "has_block dev blockno s i \<longleftrightarrow> b_dev (bufs s i) = dev \<and> b_blockno (bufs s i) = blockno"

definition unused :: "kernel \<Rightarrow> nat \<Rightarrow> bool" where
  "unused s i \<longleftrightarrow> b_refcnt (bufs s i) = 0"

text \<open>A scan of the list: stop at the head, or at the first buffer with property \<^verbatim>\<open>P\<close>.\<close>

fun scanning :: "(nat \<Rightarrow> bool) \<Rightarrow> bptr \<Rightarrow> bool" where
  "scanning P BHead = False"
| "scanning P (Buf i) = (\<not> P i)"

definition bget :: "u32 \<Rightarrow> u32 \<Rightarrow> kernel \<Rightarrow> nat kres" where
  "bget dev blockno s =
     bnd (acquire BcacheLock s) (\<lambda>_ s.
     loop_res (scanning (has_block dev blockno s)) (lru_next s) (lru_next s BHead) (\<lambda>b.
     case b of
       Buf i \<Rightarrow>
         bnd (release BcacheLock (upd_buf i (\<lambda>q. q\<lparr>b_refcnt := b_refcnt q + 1\<rparr>) s)) (\<lambda>_ s.
         bnd (acquiresleep (BufSL i) s) (\<lambda>_ s. Ret i s))
     | BHead \<Rightarrow>
         loop_res (scanning (unused s)) (lru_prev s) (lru_prev s BHead) (\<lambda>b.
         case b of
           Buf i \<Rightarrow>
             bnd (release BcacheLock
               (upd_buf i (\<lambda>q. q\<lparr>b_dev := dev, b_blockno := blockno, b_valid := False, b_refcnt := 1\<rparr>) s)) (\<lambda>_ s.
             bnd (acquiresleep (BufSL i) s) (\<lambda>_ s. Ret i s))
         | BHead \<Rightarrow> Panic ''bget: no buffers'')))"

definition bread :: "u32 \<Rightarrow> u32 \<Rightarrow> kernel \<Rightarrow> nat kres" where
  "bread dev blockno s =
     bnd (bget dev blockno s) (\<lambda>b s.
     if \<not> b_valid (bufs s b)
     then bnd (disk_rw b False s) (\<lambda>_ s. Ret b (upd_buf b (\<lambda>q. q\<lparr>b_valid := True\<rparr>) s))
     else Ret b s)"

definition bwrite :: "nat \<Rightarrow> kernel \<Rightarrow> unit kres" where
  "bwrite b s =
     bnd (holdingsleep (BufSL b) s) (\<lambda>h s.
     if \<not> h then Panic ''bwrite'' else disk_rw b True s)"

definition lru_front :: "nat \<Rightarrow> kernel \<Rightarrow> kernel" where
  "lru_front b s =
     (let s = s\<lparr>lru_prev := (lru_prev s)(lru_next s (Buf b) := lru_prev s (Buf b))\<rparr>;
          s = s\<lparr>lru_next := (lru_next s)(lru_prev s (Buf b) := lru_next s (Buf b))\<rparr>;
          s = s\<lparr>lru_next := (lru_next s)(Buf b := lru_next s BHead)\<rparr>;
          s = s\<lparr>lru_prev := (lru_prev s)(Buf b := BHead)\<rparr>;
          s = s\<lparr>lru_prev := (lru_prev s)(lru_next s BHead := Buf b)\<rparr>
      in s\<lparr>lru_next := (lru_next s)(BHead := Buf b)\<rparr>)"

definition brelse :: "nat \<Rightarrow> kernel \<Rightarrow> unit kres" where
  "brelse b s =
     bnd (holdingsleep (BufSL b) s) (\<lambda>h s.
     if \<not> h then Panic ''brelse''
     else
       bnd (releasesleep (BufSL b) s) (\<lambda>_ s.
       bnd (acquire BcacheLock s) (\<lambda>_ s.
       let s = upd_buf b (\<lambda>q. q\<lparr>b_refcnt := b_refcnt q - 1\<rparr>) s in
       release BcacheLock (if b_refcnt (bufs s b) = 0 then lru_front b s else s))))"

definition bpin :: "nat \<Rightarrow> kernel \<Rightarrow> unit kres" where
  "bpin b s =
     bnd (acquire BcacheLock s) (\<lambda>_ s.
     release BcacheLock (upd_buf b (\<lambda>q. q\<lparr>b_refcnt := b_refcnt q + 1\<rparr>) s))"

definition bunpin :: "nat \<Rightarrow> kernel \<Rightarrow> unit kres" where
  "bunpin b s =
     bnd (acquire BcacheLock s) (\<lambda>_ s.
     release BcacheLock (upd_buf b (\<lambda>q. q\<lparr>b_refcnt := b_refcnt q - 1\<rparr>) s))"

subsection \<open>The circular list\<close>

text \<open>\<^verbatim>\<open>lseg f a xs z\<close>: following \<^verbatim>\<open>f\<close> from \<^verbatim>\<open>a\<close> visits the buffers \<^verbatim>\<open>xs\<close>
  and then \<^verbatim>\<open>z\<close>.\<close>

fun lseg :: "(bptr \<Rightarrow> bptr) \<Rightarrow> bptr \<Rightarrow> nat list \<Rightarrow> bptr \<Rightarrow> bool" where
  "lseg f a [] z \<longleftrightarrow> f a = z"
| "lseg f a (x # xs) z \<longleftrightarrow> f a = Buf x \<and> lseg f (Buf x) xs z"

definition lastp :: "bptr \<Rightarrow> nat list \<Rightarrow> bptr" where
  "lastp a xs = (if xs = [] then a else Buf (last xs))"

lemma BHead_image [simp]: "BHead \<notin> Buf ` A"
  by auto

lemma Buf_image [simp]: "Buf i \<in> Buf ` A \<longleftrightarrow> i \<in> A"
  by auto

lemma lseg_append: "lseg f a (xs @ y # ys) z \<longleftrightarrow> lseg f a xs (Buf y) \<and> lseg f (Buf y) ys z"
  by (induction xs arbitrary: a) auto

lemma lseg_upd: "p \<noteq> a \<Longrightarrow> p \<notin> Buf ` set xs \<Longrightarrow> lseg (f(p := q)) a xs z = lseg f a xs z"
  by (induction xs arbitrary: a) auto

lemma lseg_last:
  "lseg f a xs z \<Longrightarrow> distinct xs \<Longrightarrow> a \<notin> Buf ` set xs \<Longrightarrow> lseg (f(lastp a xs := w)) a xs w"
proof (induction xs arbitrary: a)
  case Nil
  then show ?case by (simp add: lastp_def)
next
  case (Cons x xs)
  define g where "g = f(lastp (Buf x) xs := w)"
  have "lastp (Buf x) xs \<noteq> a" using Cons.prems by (auto simp: lastp_def)
  then have "g a = Buf x" using Cons.prems by (simp add: g_def)
  moreover have "lseg g (Buf x) xs w"
    unfolding g_def using Cons.prems by (intro Cons.IH) auto
  moreover have "f(lastp a (x # xs) := w) = g" by (simp add: g_def lastp_def)
  ultimately show ?case by (simp del: fun_upd_apply)
qed

text \<open>Taking a buffer out of the list, putting one in front, putting one at the end.\<close>

lemma lseg_unlink:
  assumes "lseg f a (xs @ b # ys) z" and "distinct (xs @ b # ys)" and "a \<notin> Buf ` set (xs @ b # ys)"
  shows "lseg (f(lastp a xs := f (Buf b))) a (xs @ ys) z"
proof -
  have xs: "lseg f a xs (Buf b)" and ys: "lseg f (Buf b) ys z" using assms by (auto simp: lseg_append)
  have xs': "lseg (f(lastp a xs := f (Buf b))) a xs (f (Buf b))"
    using lseg_last [OF xs] assms by auto
  show ?thesis
  proof (cases ys)
    case Nil
    with xs' ys show ?thesis by simp
  next
    case (Cons y ys')
    have "lastp a xs \<noteq> Buf y" "lastp a xs \<notin> Buf ` set ys'"
      using assms Cons by (auto simp: lastp_def dest: last_in_set split: if_splits)
    with xs' ys Cons show ?thesis by (simp add: lseg_append lseg_upd)
  qed
qed

lemma lseg_push:
  assumes "lseg f a xs z" and "b \<notin> set xs" and "a \<notin> Buf ` set xs" and "a \<noteq> Buf b"
  shows "lseg (f(Buf b := f a, a := Buf b)) a (b # xs) z"
proof (cases xs)
  case Nil
  with assms show ?thesis by simp
next
  case (Cons w ws)
  with assms have "lseg (f(Buf b := f a, a := Buf b)) (Buf w) ws z = lseg f (Buf w) ws z"
    by (subst lseg_upd; (subst lseg_upd)?) auto
  with Cons assms show ?thesis by auto
qed

lemma lseg_snoc:
  assumes "lseg f a xs z" and "distinct xs" and "b \<notin> set xs" and "a \<notin> Buf ` set xs" and "a \<noteq> Buf b"
  shows "lseg (f(Buf b := z, lastp a xs := Buf b)) a (xs @ [b]) z"
proof -
  have "lseg (f(Buf b := z)) a xs z" using assms by (subst lseg_upd) auto
  then have "lseg (f(Buf b := z, lastp a xs := Buf b)) a xs (Buf b)"
    using assms by (intro lseg_last) auto
  moreover have "lastp a xs \<noteq> Buf b"
    using assms by (auto simp: lastp_def)
  ultimately show ?thesis by (simp add: lseg_append)
qed

text \<open>The list of the cache: \<^verbatim>\<open>ls\<close> from most to least recently used.\<close>

definition ring :: "kernel \<Rightarrow> nat list \<Rightarrow> bool" where
  "ring s ls \<longleftrightarrow> lseg (lru_next s) BHead ls BHead \<and> lseg (lru_prev s) BHead (rev ls) BHead \<and> distinct ls"

lemma lseg_first: "lseg f a xs BHead \<Longrightarrow> f a = lastp BHead (rev xs)"
  by (cases xs) (auto simp: lastp_def)

lemma ring_push:
  assumes "ring s ls" and "b \<notin> set ls"
    and "n = (lru_next s)(Buf b := lru_next s BHead, BHead := Buf b)"
    and "v = (lru_prev s)(Buf b := BHead, lru_next s BHead := Buf b)"
  shows "ring (s\<lparr>lru_next := n, lru_prev := v\<rparr>) (b # ls)"
proof -
  have "lseg n BHead (b # ls) BHead"
    unfolding assms(3) using assms(1,2) by (intro lseg_push) (auto simp: ring_def)
  moreover have "lru_next s BHead = lastp BHead (rev ls)"
    using assms(1) by (intro lseg_first) (simp add: ring_def)
  then have "lseg v BHead (rev ls @ [b]) BHead"
    unfolding assms(4) using assms(1,2) by (auto simp: ring_def intro!: lseg_snoc)
  ultimately show ?thesis using assms(1,2) by (simp add: ring_def)
qed

lemma ring_unlink:
  assumes r: "ring s (xs @ b # ys)"
    and "v = (lru_prev s)(lru_next s (Buf b) := lru_prev s (Buf b))"
    and "n = (lru_next s)(lru_prev s (Buf b) := lru_next s (Buf b))"
  shows "ring (s\<lparr>lru_next := n, lru_prev := v\<rparr>) (xs @ ys)"
proof -
  have d: "distinct (xs @ b # ys)" "distinct (rev ys @ b # rev xs)" using r by (auto simp: ring_def)
  have n: "lseg (lru_next s) BHead (xs @ b # ys) BHead"
    and v: "lseg (lru_prev s) BHead (rev ys @ b # rev xs) BHead" using r by (auto simp: ring_def)
  have "lru_next s (Buf b) = lastp BHead (rev ys)" "lru_prev s (Buf b) = lastp BHead xs"
    using n v lseg_first [of "lru_prev s" "Buf b" "rev xs"] by (auto simp: lseg_append intro: lseg_first)
  then have "lseg n BHead (xs @ ys) BHead" "lseg v BHead (rev ys @ rev xs) BHead"
    using lseg_unlink [OF n d(1)] lseg_unlink [OF v d(2)] assms(2,3) by auto
  with r show ?thesis by (auto simp: ring_def)
qed

lemma ring_front:
  assumes r: "ring s (xs @ b # ys)"
  shows "ring (lru_front b s) (b # xs @ ys)"
proof -
  have n: "lseg (lru_next s) BHead (xs @ b # ys) BHead" using r by (simp add: ring_def)
  then have ne: "lru_next s (Buf b) \<noteq> Buf b"
    using r by (cases ys) (auto simp: ring_def lseg_append)
  let ?v = "(lru_prev s)(lru_next s (Buf b) := lru_prev s (Buf b))"
  let ?n = "(lru_next s)(lru_prev s (Buf b) := lru_next s (Buf b))"
  have u: "ring (s\<lparr>lru_next := ?n, lru_prev := ?v\<rparr>) (xs @ ys)"
    by (rule ring_unlink [OF r]) simp_all
  have eq: "lru_front b s = (s\<lparr>lru_next := ?n, lru_prev := ?v\<rparr>)\<lparr>
      lru_next := ?n(Buf b := ?n BHead, BHead := Buf b),
      lru_prev := ?v(Buf b := BHead, ?n BHead := Buf b)\<rparr>"
    using ne by (simp add: lru_front_def Let_def)
  show ?thesis
    unfolding eq by (rule ring_push [OF u]) (use r in \<open>auto simp: ring_def\<close>)
qed

lemma ring_scan:
  "lseg f a xs BHead \<Longrightarrow>
   while_option (scanning P) f (f a) = Some (case find P xs of None \<Rightarrow> BHead | Some i \<Rightarrow> Buf i)"
  by (induction xs arbitrary: a) (auto simp: while_option_unfold)

end
