(* ===== verification/Log.thy ===== *)
theory Log
  imports Bio
begin

text \<open>
  The write-ahead log, \<^verbatim>\<open>kernel/log.c\<close>. Transactions collect block numbers in the
  in-memory header, \<^verbatim>\<open>commit\<close> writes the blocks to the log, the header, and then the
  home locations, and recovery replays a committed log. The header block holds \<^verbatim>\<open>n\<close> at
  offset 0 and \<^verbatim>\<open>block[i]\<close> at offset \<^verbatim>\<open>4 + 4 * i\<close>.
\<close>

unbundle bit_operations_syntax

subsection \<open>Header and log blocks\<close>

definition upd_log :: "(log \<Rightarrow> log) \<Rightarrow> kernel \<Rightarrow> kernel" where
  "upd_log f s = s\<lparr>klog := f (klog s)\<rparr>"

definition log_blockno :: "log \<Rightarrow> nat \<Rightarrow> u32" where
  "log_blockno l tail = lg_start l + of_nat tail + 1"

text \<open>\<^verbatim>\<open>memmove(to->data, from->data, BSIZE)\<close>: all of the buffer's data.\<close>

definition copy_data :: "nat \<Rightarrow> nat \<Rightarrow> kernel \<Rightarrow> kernel" where
  "copy_data to from s = upd_buf to (\<lambda>q. q\<lparr>b_data := b_data (bufs s from)\<rparr>) s"

fun install_trans_loop :: "bool \<Rightarrow> nat list \<Rightarrow> kernel \<Rightarrow> unit kres" where
  "install_trans_loop recovering [] s = Ret () s"
| "install_trans_loop recovering (tail # ts) s =
     bnd (if recovering
          then printf (''recovering tail %d dst %d'' @ [CHR 0x0A])
                 [VInt (of_nat tail), VInt (ucast (lg_block (klog s) tail))] s
          else Ret () s) (\<lambda>_ s.
     bnd (bread (lg_dev (klog s)) (log_blockno (klog s) tail) s) (\<lambda>lbuf s.
     bnd (bread (lg_dev (klog s)) (lg_block (klog s) tail) s) (\<lambda>dbuf s.
     bnd (bwrite dbuf (copy_data dbuf lbuf s)) (\<lambda>_ s.
     bnd (if \<not> recovering then bunpin dbuf s else Ret () s) (\<lambda>_ s.
     bnd (brelse lbuf s) (\<lambda>_ s.
     bnd (brelse dbuf s) (\<lambda>_ s.
     install_trans_loop recovering ts s)))))))"

definition install_trans :: "bool \<Rightarrow> kernel \<Rightarrow> unit kres" where
  "install_trans recovering s = install_trans_loop recovering [0..<nat (lg_n (klog s))] s"

fun head_blocks :: "block \<Rightarrow> nat list \<Rightarrow> (nat \<Rightarrow> u32) \<Rightarrow> nat \<Rightarrow> u32" where
  "head_blocks d [] f = f"
| "head_blocks d (i # is) f = head_blocks d is (f(i := get32 d (4 + 4 * i)))"

definition read_head :: "kernel \<Rightarrow> unit kres" where
  "read_head s =
     bnd (bread (lg_dev (klog s)) (lg_start (klog s)) s) (\<lambda>buf s.
     let d = b_data (bufs s buf);
         n = sint (get32 d 0)
     in brelse buf (upd_log (\<lambda>l. l\<lparr>lg_n := n, lg_block := head_blocks d [0..<nat n] (lg_block l)\<rparr>) s))"

fun put_blocks :: "(nat \<Rightarrow> u32) \<Rightarrow> nat list \<Rightarrow> block \<Rightarrow> block" where
  "put_blocks f [] d = d"
| "put_blocks f (i # is) d = put_blocks f is (put32 (4 + 4 * i) (f i) d)"

definition write_head :: "kernel \<Rightarrow> unit kres" where
  "write_head s =
     bnd (bread (lg_dev (klog s)) (lg_start (klog s)) s) (\<lambda>buf s.
     let l = klog s;
         s = upd_buf buf (\<lambda>q. q\<lparr>b_data :=
               put_blocks (lg_block l) [0..<nat (lg_n l)] (put32 0 (of_int (lg_n l)) (b_data q))\<rparr>) s in
     bnd (bwrite buf s) (\<lambda>_ s.
     brelse buf s))"

subsection \<open>Recovery\<close>

definition recover_from_log :: "kernel \<Rightarrow> unit kres" where
  "recover_from_log s =
     bnd (read_head s) (\<lambda>_ s.
     bnd (install_trans True s) (\<lambda>_ s.
     write_head (upd_log (\<lambda>l. l\<lparr>lg_n := 0\<rparr>) s)))"

text \<open>The size of \<^verbatim>\<open>struct logheader\<close> is four bytes for \<^verbatim>\<open>n\<close> and four for
  each of the \<^verbatim>\<open>LOGBLOCKS\<close> entries.\<close>

definition initlog :: "u32 \<Rightarrow> superblock \<Rightarrow> kernel \<Rightarrow> unit kres" where
  "initlog dev super s =
     (if 4 + 4 * nat LOGBLOCKS \<ge> BSIZE then Panic ''initlog: too big logheader''
      else recover_from_log (upd_log (\<lambda>l. l\<lparr>lg_start := sb_logstart super, lg_dev := dev\<rparr>) s))"

subsection \<open>Transactions\<close>

definition begin_op_loop :: "kernel \<Rightarrow> unit kres" where
  "begin_op_loop s =
     (let l = klog s in
      if lg_committing l then sleep ChLog LogLock s
      else if lg_n l + (lg_outstanding l + 1) * MAXOPBLOCKS > LOGBLOCKS then sleep ChLog LogLock s
      else release LogLock (upd_log (\<lambda>l. l\<lparr>lg_outstanding := lg_outstanding l + 1\<rparr>) s))"

definition begin_op :: "kernel \<Rightarrow> unit kres" where
  "begin_op s = bnd (acquire LogLock s) (\<lambda>_ s. begin_op_loop s)"

definition begin_op_resume :: "nat \<Rightarrow> kernel \<Rightarrow> unit kres" where
  "begin_op_resume p s = bnd (sleep_resume p LogLock s) (\<lambda>_ s. begin_op_loop s)"

fun write_log_loop :: "nat list \<Rightarrow> kernel \<Rightarrow> unit kres" where
  "write_log_loop [] s = Ret () s"
| "write_log_loop (tail # ts) s =
     bnd (bread (lg_dev (klog s)) (log_blockno (klog s) tail) s) (\<lambda>to s.
     bnd (bread (lg_dev (klog s)) (lg_block (klog s) tail) s) (\<lambda>from s.
     bnd (bwrite to (copy_data to from s)) (\<lambda>_ s.
     bnd (brelse from s) (\<lambda>_ s.
     bnd (brelse to s) (\<lambda>_ s.
     write_log_loop ts s)))))"

definition write_log :: "kernel \<Rightarrow> unit kres" where
  "write_log s = write_log_loop [0..<nat (lg_n (klog s))] s"

definition commit :: "kernel \<Rightarrow> unit kres" where
  "commit s =
     (if lg_n (klog s) > 0 then
        bnd (write_log s) (\<lambda>_ s.
        bnd (write_head s) (\<lambda>_ s.
        bnd (install_trans False s) (\<lambda>_ s.
        write_head (upd_log (\<lambda>l. l\<lparr>lg_n := 0\<rparr>) s))))
      else Ret () s)"

definition end_op :: "kernel \<Rightarrow> unit kres" where
  "end_op s =
     bnd (acquire LogLock s) (\<lambda>_ s.
     let s = upd_log (\<lambda>l. l\<lparr>lg_outstanding := lg_outstanding l - 1\<rparr>) s in
     if lg_committing (klog s) then Panic ''log.committing''
     else if lg_outstanding (klog s) = 0 then
       bnd (release LogLock (upd_log (\<lambda>l. l\<lparr>lg_committing := True\<rparr>) s)) (\<lambda>_ s.
       bnd (commit s) (\<lambda>_ s.
       bnd (acquire LogLock s) (\<lambda>_ s.
       bnd (wakeup ChLog (upd_log (\<lambda>l. l\<lparr>lg_committing := False\<rparr>) s)) (\<lambda>_ s.
       release LogLock s))))
     else
       bnd (wakeup ChLog s) (\<lambda>_ s.
       release LogLock s))"

text \<open>The loop of \<^verbatim>\<open>log_write\<close>: the entry that already holds the block, or \<^verbatim>\<open>n\<close>.\<close>

definition log_index :: "log \<Rightarrow> u32 \<Rightarrow> nat" where
  "log_index l b = length (takeWhile (\<lambda>i. lg_block l i \<noteq> b) [0..<nat (lg_n l)])"

definition log_write :: "nat \<Rightarrow> kernel \<Rightarrow> unit kres" where
  "log_write b s =
     bnd (acquire LogLock s) (\<lambda>_ s.
     if lg_n (klog s) \<ge> LOGBLOCKS then Panic ''too big a transaction''
     else if lg_outstanding (klog s) < 1 then Panic ''log_write outside of trans''
     else
       let i = log_index (klog s) (b_blockno (bufs s b));
           s = upd_log (\<lambda>l. l\<lparr>lg_block := (lg_block l)(i := b_blockno (bufs s b))\<rparr>) s in
       bnd (if int i = lg_n (klog s)
            then bnd (bpin b s) (\<lambda>_ s. Ret () (upd_log (\<lambda>l. l\<lparr>lg_n := lg_n l + 1\<rparr>) s))
            else Ret () s) (\<lambda>_ s.
       release LogLock s))"

end
