(* ===== verification/Fs.thy ===== *)
theory Fs
  imports Log Sched
begin

text \<open>
  The file system, \<^verbatim>\<open>kernel/fs.c\<close>: block allocator, inodes, file contents,
  directories and path names. A pointer to an in-memory inode is its index in the inode
  table; a C string is the list of its bytes. A \<^verbatim>\<open>struct dinode\<close> occupies 64 bytes of
  an inode block, a \<^verbatim>\<open>struct dirent\<close> 16 bytes of a directory.
\<close>

unbundle bit_operations_syntax

abbreviation (input) FSMAGIC :: u32 where "FSMAGIC \<equiv> 0x10203040"
abbreviation (input) ROOTINO :: u32 where "ROOTINO \<equiv> 1"
abbreviation (input) T_DIR :: i16 where "T_DIR \<equiv> 1"
abbreviation (input) T_FILE :: i16 where "T_FILE \<equiv> 2"
abbreviation (input) T_DEVICE :: i16 where "T_DEVICE \<equiv> 3"
abbreviation (input) IPB :: u32 where "IPB \<equiv> 16"
abbreviation (input) BPB :: nat where "BPB \<equiv> 8192"

definition IBLOCK :: "u32 \<Rightarrow> superblock \<Rightarrow> u32" where
  "IBLOCK i super = i div IPB + sb_inodestart super"

definition BBLOCK :: "u32 \<Rightarrow> superblock \<Rightarrow> u32" where
  "BBLOCK b super = b div of_nat BPB + sb_bmapstart super"

definition upd_inode :: "nat \<Rightarrow> (inode \<Rightarrow> inode) \<Rightarrow> kernel \<Rightarrow> kernel" where
  "upd_inode i f s = s\<lparr>inodes := (inodes s)(i := f (inodes s i))\<rparr>"

subsection \<open>Super block\<close>

definition super_of :: "block \<Rightarrow> superblock" where
  "super_of d = \<lparr>sb_magic = get32 d 0, sb_size = get32 d 4, sb_nblocks = get32 d 8,
     sb_ninodes = get32 d 12, sb_nlog = get32 d 16, sb_logstart = get32 d 20,
     sb_inodestart = get32 d 24, sb_bmapstart = get32 d 28\<rparr>"

definition readsb :: "u32 \<Rightarrow> kernel \<Rightarrow> unit kres" where
  "readsb dev s =
     bnd (bread dev 1 s) (\<lambda>bp s.
     brelse bp (s\<lparr>sb := super_of (b_data (bufs s bp))\<rparr>))"

subsection \<open>Block allocator\<close>

definition bzero :: "u32 \<Rightarrow> u32 \<Rightarrow> kernel \<Rightarrow> unit kres" where
  "bzero dev bno s =
     bnd (bread dev bno s) (\<lambda>bp s.
     bnd (log_write bp (upd_buf bp (\<lambda>q. q\<lparr>b_data := \<lambda>_. 0\<rparr>) s)) (\<lambda>_ s.
     brelse bp s))"

definition bit_used :: "block \<Rightarrow> nat \<Rightarrow> bool" where
  "bit_used d bi \<longleftrightarrow> d (bi div 8) AND push_bit (bi mod 8) 1 \<noteq> 0"

definition set_used :: "nat \<Rightarrow> block \<Rightarrow> block" where
  "set_used bi d = d(bi div 8 := d (bi div 8) OR push_bit (bi mod 8) 1)"

definition clear_used :: "nat \<Rightarrow> block \<Rightarrow> block" where
  "clear_used bi d = d(bi div 8 := d (bi div 8) AND NOT (push_bit (bi mod 8) 1))"

text \<open>The inner loop: the first free bit of the bitmap block that starts at block \<^verbatim>\<open>b\<close>.\<close>

definition free_bit :: "block \<Rightarrow> nat \<Rightarrow> nat \<Rightarrow> nat option" where
  "free_bit d b sz = find (\<lambda>bi. \<not> bit_used d bi) [0..<min BPB (sz - b)]"

fun balloc_loop :: "u32 \<Rightarrow> nat list \<Rightarrow> kernel \<Rightarrow> u32 kres" where
  "balloc_loop dev [] s =
     bnd (printf (''balloc: out of blocks'' @ [CHR 0x0A]) [] s) (\<lambda>_ s. Ret 0 s)"
| "balloc_loop dev (b # bs) s =
     bnd (bread dev (BBLOCK (of_nat b) (sb s)) s) (\<lambda>bp s.
     case free_bit (b_data (bufs s bp)) b (unat (sb_size (sb s))) of
       Some bi \<Rightarrow>
         bnd (log_write bp (upd_buf bp (\<lambda>q. q\<lparr>b_data := set_used bi (b_data q)\<rparr>) s)) (\<lambda>_ s.
         bnd (brelse bp s) (\<lambda>_ s.
         bnd (bzero dev (of_nat (b + bi)) s) (\<lambda>_ s.
         Ret (of_nat (b + bi)) s)))
     | None \<Rightarrow> bnd (brelse bp s) (\<lambda>_ s. balloc_loop dev bs s))"

text \<open>The outer loop visits the multiples of \<^verbatim>\<open>BPB\<close> below \<^verbatim>\<open>sb.size\<close>.\<close>

definition balloc :: "u32 \<Rightarrow> kernel \<Rightarrow> u32 kres" where
  "balloc dev s =
     balloc_loop dev (map (\<lambda>k. k * BPB) [0..<(unat (sb_size (sb s)) + (BPB - 1)) div BPB]) s"

definition bfree :: "u32 \<Rightarrow> u32 \<Rightarrow> kernel \<Rightarrow> unit kres" where
  "bfree dev b s =
     bnd (bread dev (BBLOCK b (sb s)) s) (\<lambda>bp s.
     let bi = unat b mod BPB in
     if \<not> bit_used (b_data (bufs s bp)) bi then Panic ''freeing free block''
     else bnd (log_write bp (upd_buf bp (\<lambda>q. q\<lparr>b_data := clear_used bi (b_data q)\<rparr>) s)) (\<lambda>_ s.
       brelse bp s))"

subsection \<open>Inodes\<close>

definition iinit :: "kernel \<Rightarrow> kernel" where
  "iinit s = fold (\<lambda>i. initsleeplock (InodeSL i)) [0..<NINODE] s"

text \<open>Byte offset of inode \<^verbatim>\<open>inum\<close> in its block.\<close>

definition dinode_off :: "u32 \<Rightarrow> nat" where
  "dinode_off inum = 64 * unat (inum mod IPB)"

definition dinode_type :: "block \<Rightarrow> nat \<Rightarrow> i16" where
  "dinode_type d k = get16 d k"

definition dinode_nlink :: "block \<Rightarrow> nat \<Rightarrow> i16" where
  "dinode_nlink d k = get16 d (k + 6)"

definition dinode_load :: "block \<Rightarrow> nat \<Rightarrow> inode \<Rightarrow> inode" where
  "dinode_load d k ip = ip\<lparr>i_type := get16 d k, i_major := get16 d (k + 2),
     i_minor := get16 d (k + 4), i_nlink := get16 d (k + 6), i_size := get32 d (k + 8),
     i_addrs := \<lambda>i. if i < NDIRECT + 1 then get32 d (k + 12 + 4 * i) else i_addrs ip i\<rparr>"

definition dinode_store :: "inode \<Rightarrow> nat \<Rightarrow> block \<Rightarrow> block" where
  "dinode_store ip k d =
     fold (\<lambda>i. put32 (k + 12 + 4 * i) (i_addrs ip i)) [0..<NDIRECT + 1]
       (put32 (k + 8) (i_size ip)
       (put16 (k + 6) (i_nlink ip)
       (put16 (k + 4) (i_minor ip)
       (put16 (k + 2) (i_major ip)
       (put16 k (i_type ip) d)))))"

fun iget_loop :: "u32 \<Rightarrow> u32 \<Rightarrow> nat list \<Rightarrow> nat option \<Rightarrow> kernel \<Rightarrow> nat kres" where
  "iget_loop dev inum [] emp s =
     (case emp of
        None \<Rightarrow> Panic ''iget: no inodes''
      | Some ip \<Rightarrow>
          bnd (release ItableLock
            (upd_inode ip (\<lambda>q. q\<lparr>i_dev := dev, i_inum := inum, i_ref := 1, i_valid := False\<rparr>) s)) (\<lambda>_ s.
          Ret ip s))"
| "iget_loop dev inum (ip # ips) emp s =
     (let q = inodes s ip in
      if 0 <s i_ref q \<and> i_dev q = dev \<and> i_inum q = inum then
        bnd (release ItableLock (upd_inode ip (\<lambda>q. q\<lparr>i_ref := i_ref q + 1\<rparr>) s)) (\<lambda>_ s. Ret ip s)
      else iget_loop dev inum ips (if emp = None \<and> i_ref q = 0 then Some ip else emp) s)"

definition iget :: "u32 \<Rightarrow> u32 \<Rightarrow> kernel \<Rightarrow> nat kres" where
  "iget dev inum s =
     bnd (acquire ItableLock s) (\<lambda>_ s. iget_loop dev inum [0..<NINODE] None s)"

fun ialloc_loop :: "u32 \<Rightarrow> i16 \<Rightarrow> nat list \<Rightarrow> kernel \<Rightarrow> nat option kres" where
  "ialloc_loop dev type [] s =
     bnd (printf (''ialloc: no inodes'' @ [CHR 0x0A]) [] s) (\<lambda>_ s. Ret None s)"
| "ialloc_loop dev type (inum # is) s =
     bnd (bread dev (IBLOCK (of_nat inum) (sb s)) s) (\<lambda>bp s.
     let k = dinode_off (of_nat inum) in
     if dinode_type (b_data (bufs s bp)) k = 0 then
       let s = upd_buf bp (\<lambda>q. q\<lparr>b_data :=
             put16 k type (\<lambda>j. if k \<le> j \<and> j < k + 64 then 0 else b_data q j)\<rparr>) s in
       bnd (log_write bp s) (\<lambda>_ s.
       bnd (brelse bp s) (\<lambda>_ s.
       bnd (iget dev (of_nat inum) s) (\<lambda>ip s. Ret (Some ip) s)))
     else bnd (brelse bp s) (\<lambda>_ s. ialloc_loop dev type is s))"

definition ialloc :: "u32 \<Rightarrow> i16 \<Rightarrow> kernel \<Rightarrow> nat option kres" where
  "ialloc dev type s = ialloc_loop dev type [1..<unat (sb_ninodes (sb s))] s"

definition iupdate :: "nat \<Rightarrow> kernel \<Rightarrow> unit kres" where
  "iupdate ip s =
     bnd (bread (i_dev (inodes s ip)) (IBLOCK (i_inum (inodes s ip)) (sb s)) s) (\<lambda>bp s.
     let q = inodes s ip;
         s = upd_buf bp (\<lambda>b. b\<lparr>b_data := dinode_store q (dinode_off (i_inum q)) (b_data b)\<rparr>) s in
     bnd (log_write bp s) (\<lambda>_ s.
     brelse bp s))"

definition idup :: "nat \<Rightarrow> kernel \<Rightarrow> nat kres" where
  "idup ip s =
     bnd (acquire ItableLock s) (\<lambda>_ s.
     bnd (release ItableLock (upd_inode ip (\<lambda>q. q\<lparr>i_ref := i_ref q + 1\<rparr>) s)) (\<lambda>_ s.
     Ret ip s))"

definition ilock :: "nat option \<Rightarrow> kernel \<Rightarrow> unit kres" where
  "ilock ipo s =
     (case ipo of
        None \<Rightarrow> Panic ''ilock''
      | Some ip \<Rightarrow>
          if i_ref (inodes s ip) <s 1 then Panic ''ilock''
          else bnd (acquiresleep (InodeSL ip) s) (\<lambda>_ s.
            if \<not> i_valid (inodes s ip) then
              bnd (bread (i_dev (inodes s ip)) (IBLOCK (i_inum (inodes s ip)) (sb s)) s) (\<lambda>bp s.
              let s = upd_inode ip (\<lambda>q. dinode_load (b_data (bufs s bp)) (dinode_off (i_inum q)) q) s in
              bnd (brelse bp s) (\<lambda>_ s.
              let s = upd_inode ip (\<lambda>q. q\<lparr>i_valid := True\<rparr>) s in
              if i_type (inodes s ip) = 0 then Panic ''ilock: no type'' else Ret () s))
            else Ret () s))"

definition iunlock :: "nat option \<Rightarrow> kernel \<Rightarrow> unit kres" where
  "iunlock ipo s =
     (case ipo of
        None \<Rightarrow> Panic ''iunlock''
      | Some ip \<Rightarrow>
          bnd (holdingsleep (InodeSL ip) s) (\<lambda>h s.
          if \<not> h \<or> i_ref (inodes s ip) <s 1 then Panic ''iunlock''
          else releasesleep (InodeSL ip) s))"

subsection \<open>Truncation and the last reference\<close>

fun itrunc_direct :: "nat \<Rightarrow> nat list \<Rightarrow> kernel \<Rightarrow> unit kres" where
  "itrunc_direct ip [] s = Ret () s"
| "itrunc_direct ip (i # is) s =
     (if i_addrs (inodes s ip) i \<noteq> 0 then
        bnd (bfree (i_dev (inodes s ip)) (i_addrs (inodes s ip) i) s) (\<lambda>_ s.
        itrunc_direct ip is (upd_inode ip (\<lambda>q. q\<lparr>i_addrs := (i_addrs q)(i := 0)\<rparr>) s))
      else itrunc_direct ip is s)"

fun itrunc_indirect :: "nat \<Rightarrow> nat \<Rightarrow> nat list \<Rightarrow> kernel \<Rightarrow> unit kres" where
  "itrunc_indirect ip bp [] s = Ret () s"
| "itrunc_indirect ip bp (j # js) s =
     (let a = get32 (b_data (bufs s bp)) (4 * j) in
      if a \<noteq> 0 then
        bnd (bfree (i_dev (inodes s ip)) a s) (\<lambda>_ s. itrunc_indirect ip bp js s)
      else itrunc_indirect ip bp js s)"

definition itrunc :: "nat \<Rightarrow> kernel \<Rightarrow> unit kres" where
  "itrunc ip s =
     bnd (itrunc_direct ip [0..<NDIRECT] s) (\<lambda>_ s.
     bnd (if i_addrs (inodes s ip) NDIRECT \<noteq> 0 then
            bnd (bread (i_dev (inodes s ip)) (i_addrs (inodes s ip) NDIRECT) s) (\<lambda>bp s.
            bnd (itrunc_indirect ip bp [0..<NINDIRECT] s) (\<lambda>_ s.
            bnd (brelse bp s) (\<lambda>_ s.
            bnd (bfree (i_dev (inodes s ip)) (i_addrs (inodes s ip) NDIRECT) s) (\<lambda>_ s.
            Ret () (upd_inode ip (\<lambda>q. q\<lparr>i_addrs := (i_addrs q)(NDIRECT := 0)\<rparr>) s)))))
          else Ret () s) (\<lambda>_ s.
     iupdate ip (upd_inode ip (\<lambda>q. q\<lparr>i_size := 0\<rparr>) s)))"

definition iput :: "nat \<Rightarrow> kernel \<Rightarrow> unit kres" where
  "iput ip s =
     bnd (acquire ItableLock s) (\<lambda>_ s.
     let q = inodes s ip in
     bnd (if i_ref q = 1 \<and> i_valid q \<and> i_nlink q = 0 then
            bnd (acquiresleep (InodeSL ip) s) (\<lambda>_ s.
            bnd (release ItableLock s) (\<lambda>_ s.
            bnd (itrunc ip s) (\<lambda>_ s.
            bnd (iupdate ip (upd_inode ip (\<lambda>q. q\<lparr>i_type := 0\<rparr>) s)) (\<lambda>_ s.
            bnd (releasesleep (InodeSL ip) (upd_inode ip (\<lambda>q. q\<lparr>i_valid := False\<rparr>) s)) (\<lambda>_ s.
            acquire ItableLock s)))))
          else Ret () s) (\<lambda>_ s.
     release ItableLock (upd_inode ip (\<lambda>q. q\<lparr>i_ref := i_ref q - 1\<rparr>) s)))"

definition iunlockput :: "nat \<Rightarrow> kernel \<Rightarrow> unit kres" where
  "iunlockput ip s = bnd (iunlock (Some ip) s) (\<lambda>_ s. iput ip s)"

fun ireclaim_loop :: "u32 \<Rightarrow> nat list \<Rightarrow> kernel \<Rightarrow> unit kres" where
  "ireclaim_loop dev [] s = Ret () s"
| "ireclaim_loop dev (inum # is) s =
     bnd (bread dev (IBLOCK (of_nat inum) (sb s)) s) (\<lambda>bp s.
     let d = b_data (bufs s bp); k = dinode_off (of_nat inum) in
     bnd (if dinode_type d k \<noteq> 0 \<and> dinode_nlink d k = 0 then
            bnd (printf (''ireclaim: orphaned inode %d'' @ [CHR 0x0A]) [VInt (of_nat inum)] s) (\<lambda>_ s.
            bnd (iget dev (of_nat inum) s) (\<lambda>ip s. Ret (Some ip) s))
          else Ret None s) (\<lambda>ip s.
     bnd (brelse bp s) (\<lambda>_ s.
     bnd (case ip of
            Some i \<Rightarrow>
              bnd (begin_op s) (\<lambda>_ s.
              bnd (ilock (Some i) s) (\<lambda>_ s.
              bnd (iunlock (Some i) s) (\<lambda>_ s.
              bnd (iput i s) (\<lambda>_ s.
              end_op s))))
          | None \<Rightarrow> Ret () s) (\<lambda>_ s.
     ireclaim_loop dev is s))))"

definition ireclaim :: "u32 \<Rightarrow> kernel \<Rightarrow> unit kres" where
  "ireclaim dev s = ireclaim_loop dev [1..<unat (sb_ninodes (sb s))] s"

definition fsinit :: "u32 \<Rightarrow> kernel \<Rightarrow> unit kres" where
  "fsinit dev s =
     bnd (readsb dev s) (\<lambda>_ s.
     if sb_magic (sb s) \<noteq> FSMAGIC then Panic ''invalid file system''
     else bnd (initlog dev (sb s) s) (\<lambda>_ s.
       ireclaim dev s))"

subsection \<open>File contents\<close>

definition bmap :: "nat \<Rightarrow> u32 \<Rightarrow> kernel \<Rightarrow> u32 kres" where
  "bmap ip bn s =
     (if bn < of_nat NDIRECT then
        let addr = i_addrs (inodes s ip) (unat bn) in
        if addr = 0 then
          bnd (balloc (i_dev (inodes s ip)) s) (\<lambda>addr s.
          if addr = 0 then Ret 0 s
          else Ret addr (upd_inode ip (\<lambda>q. q\<lparr>i_addrs := (i_addrs q)(unat bn := addr)\<rparr>) s))
        else Ret addr s
      else
        let bn = bn - of_nat NDIRECT in
        if bn < of_nat NINDIRECT then
          bnd (if i_addrs (inodes s ip) NDIRECT = 0 then
                 bnd (balloc (i_dev (inodes s ip)) s) (\<lambda>addr s.
                 if addr = 0 then Ret 0 s
                 else Ret addr (upd_inode ip (\<lambda>q. q\<lparr>i_addrs := (i_addrs q)(NDIRECT := addr)\<rparr>) s))
               else Ret (i_addrs (inodes s ip) NDIRECT) s) (\<lambda>addr s.
          if addr = 0 then Ret 0 s
          else
            bnd (bread (i_dev (inodes s ip)) addr s) (\<lambda>bp s.
            let addr = get32 (b_data (bufs s bp)) (4 * unat bn) in
            bnd (if addr = 0 then
                   bnd (balloc (i_dev (inodes s ip)) s) (\<lambda>addr s.
                   if addr \<noteq> 0 then
                     bnd (log_write bp (upd_buf bp (\<lambda>q. q\<lparr>b_data := put32 (4 * unat bn) addr (b_data q)\<rparr>) s))
                       (\<lambda>_ s. Ret addr s)
                   else Ret addr s)
                 else Ret addr s) (\<lambda>addr s.
            bnd (brelse bp s) (\<lambda>_ s. Ret addr s))))
        else Panic ''bmap: out of range'')"

record stat =
  st_dev :: i32
  st_ino :: u32
  st_type :: i16
  st_nlink :: i16
  st_size :: u64

definition stati :: "nat \<Rightarrow> kernel \<Rightarrow> stat" where
  "stati ip s = (let q = inodes s ip in
     \<lparr>st_dev = i_dev q, st_ino = i_inum q, st_type = i_type q, st_nlink = i_nlink q,
      st_size = ucast (i_size q)\<rparr>)"

text \<open>Where \<^verbatim>\<open>readi\<close> puts the bytes: a user address, a kernel address of physical memory,
  or a local variable of the caller (which gets them as the second result). Where
  \<^verbatim>\<open>writei\<close> takes them from, likewise.\<close>

datatype rdst = DUser u64 | DKern u64 | DLocal
datatype wsrc = SUser u64 | SKern u64 | SLocal "u8 list"

fun copy_to :: "rdst \<Rightarrow> u8 list \<Rightarrow> kernel \<Rightarrow> i32 kres" where
  "copy_to (DUser a) bs s = either_copyout True a bs s"
| "copy_to (DKern a) bs s = either_copyout False a bs s"
| "copy_to DLocal bs s = Ret 0 s"

fun advance_dst :: "rdst \<Rightarrow> u32 \<Rightarrow> rdst" where
  "advance_dst (DUser a) m = DUser (a + ucast m)"
| "advance_dst (DKern a) m = DKern (a + ucast m)"
| "advance_dst DLocal m = DLocal"

fun copy_from :: "wsrc \<Rightarrow> u32 \<Rightarrow> kernel \<Rightarrow> (i32 \<times> u8 list) kres" where
  "copy_from (SUser a) m s = either_copyin True a (unat m) s"
| "copy_from (SKern a) m s = either_copyin False a (unat m) s"
| "copy_from (SLocal bs) m s = Ret (0, take (unat m) bs) s"

fun advance_src :: "wsrc \<Rightarrow> u32 \<Rightarrow> wsrc" where
  "advance_src (SUser a) m = SUser (a + ucast m)"
| "advance_src (SKern a) m = SKern (a + ucast m)"
| "advance_src (SLocal bs) m = SLocal (drop (unat m) bs)"

definition chunk :: "u32 \<Rightarrow> u32 \<Rightarrow> u32 \<Rightarrow> u32" where
  "chunk n tot off = min (n - tot) (of_nat BSIZE - off mod of_nat BSIZE)"

definition block_bytes :: "block \<Rightarrow> u32 \<Rightarrow> u32 \<Rightarrow> u8 list" where
  "block_bytes d k m = map d [unat k..<unat k + unat m]"

definition block_write :: "u32 \<Rightarrow> u8 list \<Rightarrow> block \<Rightarrow> block" where
  "block_write k bs d = (\<lambda>j. if unat k \<le> j \<and> j < unat k + length bs then bs ! (j - unat k) else d j)"

lemma chunk_measure:
  assumes "tot < n"
  shows "unat (n - (tot + chunk n tot off)) < unat (n - tot)"
proof -
  have "0 < of_nat BSIZE - off mod (of_nat BSIZE :: u32)"
    using word_mod_less_divisor [of "of_nat BSIZE" off] by (simp add: word_less_nat_alt unat_sub_if')
  moreover have "0 < n - tot" using assms by (simp add: word_less_nat_alt unat_sub_if')
  ultimately have c: "0 < chunk n tot off" "chunk n tot off \<le> n - tot" by (simp_all add: chunk_def)
  have "n - (tot + chunk n tot off) = (n - tot) - chunk n tot off" by simp
  then have "unat (n - (tot + chunk n tot off)) = unat (n - tot) - unat (chunk n tot off)"
    by (simp only: unat_sub [OF c(2)])
  with c show ?thesis by (simp add: word_less_nat_alt word_le_nat_alt)
qed

text \<open>The loop of \<^verbatim>\<open>readi\<close>: the number of bytes read (or -1) and the bytes.\<close>

function readi_loop :: "nat \<Rightarrow> rdst \<Rightarrow> u32 \<Rightarrow> u32 \<Rightarrow> u32 \<Rightarrow> u8 list \<Rightarrow> kernel \<Rightarrow> (u32 \<times> u8 list) kres" where
  "readi_loop ip dst off n tot acc s =
     (if tot < n then
        bnd (bmap ip (off div of_nat BSIZE) s) (\<lambda>addr s.
        if addr = 0 then Ret (tot, acc) s
        else
          bnd (bread (i_dev (inodes s ip)) addr s) (\<lambda>bp s.
          let m = chunk n tot off;
              bs = block_bytes (b_data (bufs s bp)) (off mod of_nat BSIZE) m in
          bnd (copy_to dst bs s) (\<lambda>r s.
          if r = -1 then bnd (brelse bp s) (\<lambda>_ s. Ret (-1, acc) s)
          else bnd (brelse bp s) (\<lambda>_ s.
            readi_loop ip (advance_dst dst m) (off + m) n (tot + m) (acc @ bs) s))))
      else Ret (tot, acc) s)"
  by pat_completeness auto
termination
  by (relation "measure (\<lambda>(ip, dst, off, n, tot, acc, s). unat (n - tot))")
    (simp_all add: chunk_measure)

declare readi_loop.simps [simp del]

definition readi :: "nat \<Rightarrow> rdst \<Rightarrow> u32 \<Rightarrow> u32 \<Rightarrow> kernel \<Rightarrow> (u32 \<times> u8 list) kres" where
  "readi ip dst off n s =
     (let sz = i_size (inodes s ip) in
      if off > sz \<or> off + n < off then Ret (0, []) s
      else readi_loop ip dst off (if off + n > sz then sz - off else n) 0 [] s)"

text \<open>The loop of \<^verbatim>\<open>writei\<close>: the number of bytes written and the offset reached.\<close>

function writei_loop :: "nat \<Rightarrow> wsrc \<Rightarrow> u32 \<Rightarrow> u32 \<Rightarrow> u32 \<Rightarrow> kernel \<Rightarrow> (u32 \<times> u32) kres" where
  "writei_loop ip src off n tot s =
     (if tot < n then
        bnd (bmap ip (off div of_nat BSIZE) s) (\<lambda>addr s.
        if addr = 0 then Ret (tot, off) s
        else
          bnd (bread (i_dev (inodes s ip)) addr s) (\<lambda>bp s.
          let m = chunk n tot off in
          bnd (copy_from src m s) (\<lambda>(r, bs) s.
          let s = upd_buf bp (\<lambda>q. q\<lparr>b_data := block_write (off mod of_nat BSIZE) bs (b_data q)\<rparr>) s in
          if r = -1 then bnd (brelse bp s) (\<lambda>_ s. Ret (tot, off) s)
          else
            bnd (log_write bp s) (\<lambda>_ s.
            bnd (brelse bp s) (\<lambda>_ s.
            writei_loop ip (advance_src src m) (off + m) n (tot + m) s)))))
      else Ret (tot, off) s)"
  by pat_completeness auto
termination
  by (relation "measure (\<lambda>(ip, src, off, n, tot, s). unat (n - tot))")
    (simp_all add: chunk_measure)

declare writei_loop.simps [simp del]

definition writei :: "nat \<Rightarrow> wsrc \<Rightarrow> u32 \<Rightarrow> u32 \<Rightarrow> kernel \<Rightarrow> u32 kres" where
  "writei ip src off n s =
     (if off > i_size (inodes s ip) \<or> off + n < off then Ret (-1) s
      else if off + n > of_nat (MAXFILE * BSIZE) then Ret (-1) s
      else
        bnd (writei_loop ip src off n 0 s) (\<lambda>(tot, off) s.
        let s = (if off > i_size (inodes s ip) then upd_inode ip (\<lambda>q. q\<lparr>i_size := off\<rparr>) s else s) in
        bnd (iupdate ip s) (\<lambda>_ s.
        Ret tot s)))"

subsection \<open>Directories\<close>

definition namecmp :: "u8 list \<Rightarrow> u8 list \<Rightarrow> int" where
  "namecmp a b = strncmp a b DIRSIZ"

definition de_inum :: "u8 list \<Rightarrow> u16" where
  "de_inum bs = le_word 2 ((!) bs)"

definition de_name :: "u8 list \<Rightarrow> u8 list" where
  "de_name bs = take DIRSIZ (drop 2 bs)"

definition dirent :: "u16 \<Rightarrow> u8 list \<Rightarrow> u8 list" where
  "dirent inum name = map (byte_of inum) [0..<2] @ name"

text \<open>The offsets of the entries of a directory of \<^verbatim>\<open>sz\<close> bytes.\<close>

definition dir_offs :: "u32 \<Rightarrow> nat list" where
  "dir_offs sz = map (\<lambda>k. 16 * k) [0..<(unat sz + 15) div 16]"

fun dirlookup_loop :: "nat \<Rightarrow> u8 list \<Rightarrow> nat list \<Rightarrow> kernel \<Rightarrow> (nat \<times> u32) option kres" where
  "dirlookup_loop dp name [] s = Ret None s"
| "dirlookup_loop dp name (off # offs) s =
     bnd (readi dp DLocal (of_nat off) 16 s) (\<lambda>(r, de) s.
     if r \<noteq> 16 then Panic ''dirlookup read''
     else if de_inum de = 0 then dirlookup_loop dp name offs s
     else if namecmp name (de_name de) = 0 then
       bnd (iget (i_dev (inodes s dp)) (ucast (de_inum de)) s) (\<lambda>ip s. Ret (Some (ip, of_nat off)) s)
     else dirlookup_loop dp name offs s)"

text \<open>The inode of the entry and its offset (\<^verbatim>\<open>*poff\<close>), or \<^verbatim>\<open>None\<close>.\<close>

definition dirlookup :: "nat \<Rightarrow> u8 list \<Rightarrow> kernel \<Rightarrow> (nat \<times> u32) option kres" where
  "dirlookup dp name s =
     (if i_type (inodes s dp) \<noteq> T_DIR then Panic ''dirlookup not DIR''
      else dirlookup_loop dp name (dir_offs (i_size (inodes s dp))) s)"

fun dirlink_loop :: "nat \<Rightarrow> nat \<Rightarrow> nat list \<Rightarrow> kernel \<Rightarrow> nat kres" where
  "dirlink_loop dp endoff [] s = Ret endoff s"
| "dirlink_loop dp endoff (off # offs) s =
     bnd (readi dp DLocal (of_nat off) 16 s) (\<lambda>(r, de) s.
     if r \<noteq> 16 then Panic ''dirlink read''
     else if de_inum de = 0 then Ret off s
     else dirlink_loop dp endoff offs s)"

definition dirlink :: "nat \<Rightarrow> u8 list \<Rightarrow> u32 \<Rightarrow> kernel \<Rightarrow> i32 kres" where
  "dirlink dp name inum s =
     bnd (dirlookup dp name s) (\<lambda>r s.
     case r of
       Some (ip, _) \<Rightarrow> bnd (iput ip s) (\<lambda>_ s. Ret (-1) s)
     | None \<Rightarrow>
         let offs = dir_offs (i_size (inodes s dp)) in
         bnd (dirlink_loop dp (16 * length offs) offs s) (\<lambda>off s.
         bnd (writei dp (SLocal (dirent (ucast inum) (strncpy (replicate DIRSIZ 0) name DIRSIZ)))
               (of_nat off) 16 s) (\<lambda>r s.
         if r \<noteq> 16 then Ret (-1) s else Ret 0 s)))"

subsection \<open>Paths\<close>

abbreviation (input) slash :: u8 where "slash \<equiv> 0x2F"

text \<open>The next path element (what the source leaves in \<^verbatim>\<open>name\<close>) and the rest of the
  path; \<^verbatim>\<open>None\<close> for the null pointer.\<close>

definition skipelem :: "u8 list \<Rightarrow> (u8 list \<times> u8 list) option" where
  "skipelem path =
     (let path = dropWhile (\<lambda>c. c = slash) path in
      if deref path = 0 then None
      else
        let elem = takeWhile (\<lambda>c. c \<noteq> slash \<and> c \<noteq> 0) path;
            rest = dropWhile (\<lambda>c. c \<noteq> slash \<and> c \<noteq> 0) path
        in Some (if length elem \<ge> DIRSIZ then take DIRSIZ elem else elem,
                 dropWhile (\<lambda>c. c = slash) rest))"

lemma skipelem_shorter:
  assumes "skipelem path = Some (name, rest)"
  shows "length rest < length path"
proof -
  define p where "p = dropWhile (\<lambda>c. c = slash) path"
  have p: "deref p \<noteq> 0" and rest: "rest = dropWhile (\<lambda>c. c = slash) (dropWhile (\<lambda>c. c \<noteq> slash \<and> c \<noteq> 0) p)"
    using assms by (auto simp: skipelem_def p_def Let_def split: if_splits)
  from p obtain c cs where c: "p = c # cs" "c \<noteq> 0" by (cases p) auto
  then have "c \<noteq> slash"
    using p_def hd_dropWhile [of "\<lambda>c. c = slash" path] by (metis list.discI list.sel(1))
  then have "rest = dropWhile (\<lambda>c. c = slash) (dropWhile (\<lambda>c. c \<noteq> slash \<and> c \<noteq> 0) cs)"
    using rest c by simp
  then have "length rest \<le> length cs"
    by (simp add: length_dropWhile_le le_trans [OF length_dropWhile_le])
  moreover have "length p \<le> length path" by (simp add: p_def length_dropWhile_le)
  ultimately show ?thesis using c by simp
qed

function namex_loop :: "u8 list \<Rightarrow> bool \<Rightarrow> u8 list \<Rightarrow> nat \<Rightarrow> kernel \<Rightarrow> (nat option \<times> u8 list) kres" where
  "namex_loop path parent name ip s =
     (case skipelem path of
        None \<Rightarrow>
          if parent then bnd (iput ip s) (\<lambda>_ s. Ret (None, name) s)
          else Ret (Some ip, name) s
      | Some (name, path) \<Rightarrow>
          bnd (ilock (Some ip) s) (\<lambda>_ s.
          if i_type (inodes s ip) \<noteq> T_DIR then
            bnd (iunlockput ip s) (\<lambda>_ s. Ret (None, name) s)
          else if parent \<and> deref path = 0 then
            bnd (iunlock (Some ip) s) (\<lambda>_ s. Ret (Some ip, name) s)
          else
            bnd (dirlookup ip name s) (\<lambda>r s.
            case r of
              None \<Rightarrow> bnd (iunlockput ip s) (\<lambda>_ s. Ret (None, name) s)
            | Some (nxt, _) \<Rightarrow>
                bnd (iunlockput ip s) (\<lambda>_ s.
                namex_loop path parent name nxt s))))"
  by pat_completeness auto
termination
  by (relation "measure (\<lambda>(path, parent, name, ip, s). length path)")
    (auto dest: skipelem_shorter)

declare namex_loop.simps [simp del]

text \<open>A process without a current directory would make \<^verbatim>\<open>idup\<close> follow a null pointer.\<close>

definition namex :: "u8 list \<Rightarrow> bool \<Rightarrow> kernel \<Rightarrow> (nat option \<times> u8 list) kres" where
  "namex path parent s =
     bnd (if deref path = slash then iget ROOTDEV ROOTINO s
          else with_proc s (\<lambda>p.
            case p_cwd (procs s p) of
              None \<Rightarrow> Panic ''kerneltrap''
            | Some cwd \<Rightarrow> idup cwd s)) (\<lambda>ip s.
     namex_loop path parent [] ip s)"

definition namei :: "u8 list \<Rightarrow> kernel \<Rightarrow> nat option kres" where
  "namei path s = bnd (namex path False s) (\<lambda>(ip, _) s. Ret ip s)"

definition nameiparent :: "u8 list \<Rightarrow> kernel \<Rightarrow> (nat option \<times> u8 list) kres" where
  "nameiparent path s = namex path True s"

end
