(* ===== verification/File.thy ===== *)
theory File
  imports Pipe Console Fs
begin

text \<open>
  The file table, \<^verbatim>\<open>kernel/file.c\<close>, and \<^verbatim>\<open>pipealloc\<close> of \<^verbatim>\<open>pipe.c\<close>. A
  \<^verbatim>\<open>struct file *\<close> is an index into the table; the device switch has one driver, the
  console, so an installed entry calls \<^verbatim>\<open>consoleread\<close> and \<^verbatim>\<open>consolewrite\<close>.
\<close>

unbundle bit_operations_syntax

definition upd_file :: "nat \<Rightarrow> (kfile \<Rightarrow> kfile) \<Rightarrow> kernel \<Rightarrow> kernel" where
  "upd_file i f s = s\<lparr>files := (files s)(i := f (files s i))\<rparr>"

fun filealloc_loop :: "nat list \<Rightarrow> kernel \<Rightarrow> nat option kres" where
  "filealloc_loop [] s = bnd (release FtableLock s) (\<lambda>_ s. Ret None s)"
| "filealloc_loop (f # fs) s =
     (if f_ref (files s f) = 0 then
        bnd (release FtableLock (upd_file f (\<lambda>q. q\<lparr>f_ref := 1\<rparr>) s)) (\<lambda>_ s. Ret (Some f) s)
      else filealloc_loop fs s)"

definition filealloc :: "kernel \<Rightarrow> nat option kres" where
  "filealloc s = bnd (acquire FtableLock s) (\<lambda>_ s. filealloc_loop [0..<NFILE] s)"

definition filedup :: "nat \<Rightarrow> kernel \<Rightarrow> nat kres" where
  "filedup f s =
     bnd (acquire FtableLock s) (\<lambda>_ s.
     if f_ref (files s f) <s 1 then Panic ''filedup''
     else bnd (release FtableLock (upd_file f (\<lambda>q. q\<lparr>f_ref := f_ref q + 1\<rparr>) s)) (\<lambda>_ s.
       Ret f s))"

definition iput_ptr :: "nat option \<Rightarrow> kernel \<Rightarrow> unit kres" where
  "iput_ptr ipo s = (case ipo of None \<Rightarrow> Panic ''kerneltrap'' | Some ip \<Rightarrow> iput ip s)"

definition fileclose :: "nat \<Rightarrow> kernel \<Rightarrow> unit kres" where
  "fileclose f s =
     bnd (acquire FtableLock s) (\<lambda>_ s.
     if f_ref (files s f) <s 1 then Panic ''fileclose''
     else
       let s = upd_file f (\<lambda>q. q\<lparr>f_ref := f_ref q - 1\<rparr>) s in
       if 0 <s f_ref (files s f) then release FtableLock s
       else
         let ff = files s f in
         bnd (release FtableLock (upd_file f (\<lambda>q. q\<lparr>f_ref := 0, f_type := FD_NONE\<rparr>) s)) (\<lambda>_ s.
         if f_type ff = FD_PIPE then pipeclose (f_pipe ff) (f_writable ff) s
         else if f_type ff = FD_INODE \<or> f_type ff = FD_DEVICE then
           bnd (begin_op s) (\<lambda>_ s.
           bnd (iput_ptr (f_ip ff) s) (\<lambda>_ s.
           end_op s))
         else Ret () s))"

text \<open>The bytes of a \<^verbatim>\<open>struct stat\<close>; four bytes of padding before \<^verbatim>\<open>size\<close> are
  whatever the stack held.\<close>

definition stat_bytes :: "stat \<Rightarrow> (nat \<Rightarrow> u8) \<Rightarrow> u8 list" where
  "stat_bytes st pad =
     map (byte_of (st_dev st)) [0..<4] @ map (byte_of (st_ino st)) [0..<4] @
     map (byte_of (st_type st)) [0..<2] @ map (byte_of (st_nlink st)) [0..<2] @
     map pad [0..<4] @ map (byte_of (st_size st)) [0..<8]"

definition filestat :: "nat \<Rightarrow> u64 \<Rightarrow> kernel \<Rightarrow> i32 kres" where
  "filestat f addr s = with_proc s (\<lambda>p.
     if f_type (files s f) = FD_INODE \<or> f_type (files s f) = FD_DEVICE then
       let ipo = f_ip (files s f) in
       bnd (ilock ipo s) (\<lambda>_ s.
       let st = stati (the ipo) s in
       bnd (iunlock ipo s) (\<lambda>_ s.
       bnd (copyout (p_pagetable (procs s p)) addr (stat_bytes st (junk s)) s) (\<lambda>r s.
       if r <s 0 then Ret (-1) s else Ret 0 s)))
     else Ret (-1) s)"

text \<open>The check of a device number before the device switch is consulted.\<close>

definition no_device :: "i16 \<Rightarrow> kernel \<Rightarrow> bool" where
  "no_device m s \<longleftrightarrow> m <s 0 \<or> of_nat NDEV \<le>s m \<or> \<not> devsw s (unat m)"

definition fileread :: "nat \<Rightarrow> u64 \<Rightarrow> i32 \<Rightarrow> kernel \<Rightarrow> i32 kres" where
  "fileread f addr n s =
     (let ff = files s f in
      if \<not> f_readable ff then Ret (-1) s
      else case f_type ff of
        FD_PIPE \<Rightarrow> piperead (f_pipe ff) addr n s
      | FD_DEVICE \<Rightarrow> if no_device (f_major ff) s then Ret (-1) s else consoleread True addr n s
      | FD_INODE \<Rightarrow>
          bnd (ilock (f_ip ff) s) (\<lambda>_ s.
          bnd (readi (the (f_ip ff)) (DUser addr) (f_off (files s f)) n s) (\<lambda>(r, _) s.
          let s = (if 0 <s r then upd_file f (\<lambda>q. q\<lparr>f_off := f_off q + r\<rparr>) s else s) in
          bnd (iunlock (f_ip ff) s) (\<lambda>_ s. Ret r s)))
      | FD_NONE \<Rightarrow> Panic ''fileread'')"

text \<open>\<^verbatim>\<open>max = ((MAXOPBLOCKS-1-1-2) / 2) * BSIZE\<close>.\<close>

abbreviation (input) MAXWRITE :: nat where "MAXWRITE \<equiv> 3072"

text \<open>The loop of \<^verbatim>\<open>filewrite\<close> from byte \<^verbatim>\<open>i\<close> with \<^verbatim>\<open>k\<close> bytes left: how
  many bytes were written.\<close>

function filewrite_loop :: "nat \<Rightarrow> u64 \<Rightarrow> nat \<Rightarrow> nat \<Rightarrow> kernel \<Rightarrow> nat kres" where
  "filewrite_loop f addr i k s =
     (if k = 0 then Ret i s
      else
        let n1 = min k MAXWRITE; ipo = f_ip (files s f) in
        bnd (begin_op s) (\<lambda>_ s.
        bnd (ilock ipo s) (\<lambda>_ s.
        bnd (writei (the ipo) (SUser (addr + of_nat i)) (f_off (files s f)) (of_nat n1) s) (\<lambda>r s.
        let s = (if 0 <s r then upd_file f (\<lambda>q. q\<lparr>f_off := f_off q + r\<rparr>) s else s) in
        bnd (iunlock ipo s) (\<lambda>_ s.
        bnd (end_op s) (\<lambda>_ s.
        if r \<noteq> of_nat n1 then Ret i s
        else filewrite_loop f addr (i + n1) (k - n1) s))))))"
  by pat_completeness auto
termination
  by (relation "measure (\<lambda>(f, addr, i, k, s). k)") auto

declare filewrite_loop.simps [simp del]

definition filewrite :: "nat \<Rightarrow> u64 \<Rightarrow> i32 \<Rightarrow> kernel \<Rightarrow> i32 kres" where
  "filewrite f addr n s =
     (let ff = files s f in
      if \<not> f_writable ff then Ret (-1) s
      else case f_type ff of
        FD_PIPE \<Rightarrow> pipewrite (f_pipe ff) addr n s
      | FD_DEVICE \<Rightarrow> if no_device (f_major ff) s then Ret (-1) s else consolewrite True addr n s
      | FD_INODE \<Rightarrow>
          bnd (filewrite_loop f addr 0 (nat (sint n)) s) (\<lambda>i s.
          Ret (if int i = sint n then n else -1) s)
      | FD_NONE \<Rightarrow> Panic ''filewrite'')"

subsection \<open>Making a pipe\<close>

definition pipealloc_bad :: "u64 \<Rightarrow> nat option \<Rightarrow> nat option \<Rightarrow> kernel \<Rightarrow> (nat \<times> nat) option kres" where
  "pipealloc_bad pi f0 f1 s =
     bnd (if pi \<noteq> 0 then kfree pi s else Ret () s) (\<lambda>_ s.
     bnd (case f0 of Some f \<Rightarrow> fileclose f s | None \<Rightarrow> Ret () s) (\<lambda>_ s.
     bnd (case f1 of Some f \<Rightarrow> fileclose f s | None \<Rightarrow> Ret () s) (\<lambda>_ s.
     Ret None s)))"

text \<open>The two ends, or \<^verbatim>\<open>None\<close> for the result -1. A fresh page holds the byte 5
  everywhere.\<close>

definition pipealloc :: "kernel \<Rightarrow> (nat \<times> nat) option kres" where
  "pipealloc s =
     bnd (filealloc s) (\<lambda>f0 s.
     case f0 of
       None \<Rightarrow> pipealloc_bad 0 None None s
     | Some r \<Rightarrow>
         bnd (filealloc s) (\<lambda>f1 s.
         case f1 of
           None \<Rightarrow> pipealloc_bad 0 f0 None s
         | Some w \<Rightarrow>
             bnd (kalloc s) (\<lambda>pi s.
             if pi = 0 then pipealloc_bad 0 f0 f1 s
             else
               let s = s\<lparr>pipes := (pipes s)(pi := \<lparr>pi_data = (\<lambda>_. 5), pi_nread = 0, pi_nwrite = 0,
                             pi_readopen = True, pi_writeopen = True\<rparr>)\<rparr>;
                   s = upd_file r (\<lambda>q. q\<lparr>f_type := FD_PIPE, f_readable := True, f_writable := False,
                             f_pipe := pi\<rparr>) s;
                   s = upd_file w (\<lambda>q. q\<lparr>f_type := FD_PIPE, f_readable := False, f_writable := True,
                             f_pipe := pi\<rparr>) s
               in Ret (Some (r, w)) s)))"

end
