(* ===== verification/Proc.thy ===== *)
theory Proc
  imports File
begin

text \<open>
  Process creation and destruction, \<^verbatim>\<open>kernel/proc.c\<close>: \<^verbatim>\<open>allocproc\<close>,
  \<^verbatim>\<open>freeproc\<close>, the user page table, \<^verbatim>\<open>growproc\<close>, \<^verbatim>\<open>kfork\<close>,
  \<^verbatim>\<open>kexit\<close> and \<^verbatim>\<open>kwait\<close>. A trapframe is addressed by its page; a fresh page
  holds the byte 5 everywhere.
\<close>

unbundle bit_operations_syntax

definition procinit :: "kernel \<Rightarrow> kernel" where
  "procinit s = fold (\<lambda>p. upd_proc p (\<lambda>q. q\<lparr>p_state := UNUSED, p_kstack := KSTACK p\<rparr>)) [0..<NPROC] s"

definition allocpid :: "kernel \<Rightarrow> i32 kres" where
  "allocpid s =
     bnd (acquire PidLock s) (\<lambda>_ s.
     let pid = nextpid s in
     bnd (release PidLock (s\<lparr>nextpid := nextpid s + 1\<rparr>)) (\<lambda>_ s. Ret pid s))"

subsection \<open>User page tables\<close>

definition proc_pagetable :: "nat \<Rightarrow> kernel \<Rightarrow> u64 kres" where
  "proc_pagetable p s =
     bnd (uvmcreate s) (\<lambda>pagetable s.
     if pagetable = 0 then Ret 0 s
     else
       bnd (mappages pagetable TRAMPOLINE PGSIZE (ksym s Sym_trampoline) (PTE_R OR PTE_X) s) (\<lambda>r s.
       if r <s 0 then bnd (uvmfree pagetable 0 s) (\<lambda>_ s. Ret 0 s)
       else
         bnd (mappages pagetable TRAPFRAME PGSIZE (p_trapframe (procs s p)) (PTE_R OR PTE_W) s) (\<lambda>r s.
         if r <s 0 then
           bnd (uvmunmap pagetable TRAMPOLINE 1 False s) (\<lambda>_ s.
           bnd (uvmfree pagetable 0 s) (\<lambda>_ s. Ret 0 s))
         else Ret pagetable s)))"

definition proc_freepagetable :: "u64 \<Rightarrow> u64 \<Rightarrow> kernel \<Rightarrow> unit kres" where
  "proc_freepagetable pagetable sz s =
     bnd (uvmunmap pagetable TRAMPOLINE 1 False s) (\<lambda>_ s.
     bnd (uvmunmap pagetable TRAPFRAME 1 False s) (\<lambda>_ s.
     uvmfree pagetable sz s))"

subsection \<open>Slots of the process table\<close>

definition freeproc :: "nat \<Rightarrow> kernel \<Rightarrow> unit kres" where
  "freeproc p s =
     bnd (if p_trapframe (procs s p) \<noteq> 0 then kfree (p_trapframe (procs s p)) s else Ret () s) (\<lambda>_ s.
     let s = upd_proc p (\<lambda>q. q\<lparr>p_trapframe := 0\<rparr>) s in
     bnd (if p_pagetable (procs s p) \<noteq> 0
          then proc_freepagetable (p_pagetable (procs s p)) (p_sz (procs s p)) s else Ret () s) (\<lambda>_ s.
     Ret () (upd_proc p (\<lambda>q. q\<lparr>p_pagetable := 0, p_sz := 0, p_pid := 0, p_parent := None,
       p_name := (p_name q)[0 := 0], p_chan := None, p_killed := False, p_xstate := 0,
       p_power_mode := POWER_NORMAL, p_cpu_budget := 0, p_ticks_used := 0, p_ticks_total := 0,
       p_budget_window_start := 0, p_eco_skip_counter := 0, p_state := UNUSED,
       p_cpu_ticks := 0, p_sched_count := 0, p_disk_writes := 0, p_cpu_ticks_limit := 0\<rparr>) s)))"

text \<open>The search for an \<^verbatim>\<open>UNUSED\<close> slot, which is left locked.\<close>

fun allocproc_find :: "nat list \<Rightarrow> kernel \<Rightarrow> nat option kres" where
  "allocproc_find [] s = Ret None s"
| "allocproc_find (p # ps) s =
     bnd (acquire (ProcLock p) s) (\<lambda>_ s.
     if p_state (procs s p) = UNUSED then Ret (Some p) s
     else bnd (release (ProcLock p) s) (\<lambda>_ s. allocproc_find ps s))"

definition allocproc_fail :: "nat \<Rightarrow> kernel \<Rightarrow> nat option kres" where
  "allocproc_fail p s =
     bnd (freeproc p s) (\<lambda>_ s.
     bnd (release (ProcLock p) s) (\<lambda>_ s. Ret None s))"

definition fresh_context :: "u64 \<Rightarrow> u64 \<Rightarrow> kcontext" where
  "fresh_context ra kstack = (\<lambda>_. 0)(C_ra := ra, C_sp := kstack + PGSIZE)"

definition allocproc :: "kernel \<Rightarrow> nat option kres" where
  "allocproc s =
     bnd (allocproc_find [0..<NPROC] s) (\<lambda>r s.
     case r of
       None \<Rightarrow> Ret None s
     | Some p \<Rightarrow>
         bnd (allocpid s) (\<lambda>pid s.
         let s = upd_proc p (\<lambda>q. q\<lparr>p_pid := pid, p_state := USED, p_power_mode := POWER_NORMAL,
               p_cpu_budget := 0, p_ticks_used := 0, p_ticks_total := 0, p_budget_window_start := 0,
               p_eco_skip_counter := 0, p_cpu_ticks := 0, p_cpu_ticks_limit := 0, p_sched_count := 0,
               p_disk_writes := 0\<rparr>) s in
         bnd (kalloc s) (\<lambda>tf s.
         let s = upd_proc p (\<lambda>q. q\<lparr>p_trapframe := tf\<rparr>) s in
         if tf = 0 then allocproc_fail p s
         else
           let s = s\<lparr>tframes := (tframes s)(tf := \<lambda>_. 0x0505050505050505)\<rparr> in
           bnd (proc_pagetable p s) (\<lambda>pt s.
           let s = upd_proc p (\<lambda>q. q\<lparr>p_pagetable := pt\<rparr>) s in
           if pt = 0 then allocproc_fail p s
           else Ret (Some p) (upd_proc p (\<lambda>q. q\<lparr>p_context :=
                  fresh_context (ksym s Sym_forkret) (p_kstack q)\<rparr>) s)))))"

definition userinit :: "kernel \<Rightarrow> unit kres" where
  "userinit s =
     bnd (allocproc s) (\<lambda>r s.
     let s = s\<lparr>initproc := r\<rparr> in
     case r of
       None \<Rightarrow> Panic ''kerneltrap''
     | Some p \<Rightarrow>
         bnd (namei [slash] s) (\<lambda>cwd s.
         release (ProcLock p) (upd_proc p (\<lambda>q. q\<lparr>p_cwd := cwd, p_state := RUNNABLE\<rparr>) s)))"

definition growproc :: "i32 \<Rightarrow> kernel \<Rightarrow> i32 kres" where
  "growproc n s = with_proc s (\<lambda>p.
     let sz = p_sz (procs s p); pt = p_pagetable (procs s p); newsz = sz + scast n in
     if 0 <s n then
       if newsz > TRAPFRAME then Ret (-1) s
       else bnd (uvmalloc pt sz newsz PTE_W s) (\<lambda>sz s.
         if sz = 0 then Ret (-1) s
         else Ret 0 (upd_proc p (\<lambda>q. q\<lparr>p_sz := sz\<rparr>) s))
     else if n <s 0 then
       bnd (uvmdealloc pt sz newsz s) (\<lambda>sz s.
       Ret 0 (upd_proc p (\<lambda>q. q\<lparr>p_sz := sz\<rparr>) s))
     else Ret 0 (upd_proc p (\<lambda>q. q\<lparr>p_sz := sz\<rparr>) s))"

subsection \<open>Fork\<close>

fun fork_files :: "nat \<Rightarrow> nat \<Rightarrow> nat list \<Rightarrow> kernel \<Rightarrow> unit kres" where
  "fork_files p np [] s = Ret () s"
| "fork_files p np (i # is) s =
     (case p_ofile (procs s p) i of
        None \<Rightarrow> fork_files p np is s
      | Some f \<Rightarrow>
          bnd (filedup f s) (\<lambda>f s.
          fork_files p np is (upd_proc np (\<lambda>q. q\<lparr>p_ofile := (p_ofile q)(i := Some f)\<rparr>) s)))"

definition inherit :: "proc \<Rightarrow> proc \<Rightarrow> proc" where
  "inherit p np = np\<lparr>p_power_mode := p_power_mode p, p_cpu_budget := p_cpu_budget p,
     p_ticks_used := 0, p_ticks_total := 0, p_budget_window_start := p_budget_window_start p,
     p_eco_skip_counter := 0, p_cpu_ticks := 0, p_cpu_ticks_limit := p_cpu_ticks_limit p\<rparr>"

definition kfork :: "kernel \<Rightarrow> i32 kres" where
  "kfork s = with_proc s (\<lambda>p.
     bnd (allocproc s) (\<lambda>r s.
     case r of
       None \<Rightarrow> Ret (-1) s
     | Some np \<Rightarrow>
         bnd (uvmcopy (p_pagetable (procs s p)) (p_pagetable (procs s np)) (p_sz (procs s p)) s) (\<lambda>r s.
         if r <s 0 then
           bnd (freeproc np s) (\<lambda>_ s.
           bnd (release (ProcLock np) s) (\<lambda>_ s. Ret (-1) s))
         else
           let s = upd_proc np (\<lambda>q. q\<lparr>p_sz := p_sz (procs s p)\<rparr>) s;
               s = s\<lparr>tframes := (tframes s)(p_trapframe (procs s np) :=
                     (tframes s (p_trapframe (procs s p)))(T_a0 := 0))\<rparr> in
           bnd (fork_files p np [0..<NOFILE] s) (\<lambda>_ s.
           case p_cwd (procs s p) of
             None \<Rightarrow> Panic ''kerneltrap''
           | Some d \<Rightarrow>
               bnd (idup d s) (\<lambda>d s.
               let s = upd_proc np (\<lambda>q. q\<lparr>p_cwd := Some d,
                     p_name := safestrcpy (p_name q) (p_name (procs s p)) 16\<rparr>) s in
               bnd (acquire (ProcLock p) s) (\<lambda>_ s.
               bnd (release (ProcLock p) (upd_proc np (inherit (procs s p)) s)) (\<lambda>_ s.
               let pid = p_pid (procs s np) in
               bnd (release (ProcLock np) s) (\<lambda>_ s.
               bnd (acquire WaitLock s) (\<lambda>_ s.
               bnd (release WaitLock (upd_proc np (\<lambda>q. q\<lparr>p_parent := Some p\<rparr>) s)) (\<lambda>_ s.
               bnd (acquire (ProcLock np) s) (\<lambda>_ s.
               bnd (release (ProcLock np) (upd_proc np (\<lambda>q. q\<lparr>p_state := RUNNABLE\<rparr>) s)) (\<lambda>_ s.
               Ret pid s))))))))))))"

subsection \<open>Exit and wait\<close>

text \<open>Nobody sleeps on a null channel.\<close>

definition wakeup_proc :: "nat option \<Rightarrow> kernel \<Rightarrow> unit kres" where
  "wakeup_proc r s = (case r of None \<Rightarrow> Ret () s | Some p \<Rightarrow> wakeup (ChProc p) s)"

fun reparent_loop :: "nat \<Rightarrow> nat list \<Rightarrow> kernel \<Rightarrow> unit kres" where
  "reparent_loop p [] s = Ret () s"
| "reparent_loop p (pp # ps) s =
     (if p_parent (procs s pp) = Some p then
        bnd (wakeup_proc (initproc s) (upd_proc pp (\<lambda>q. q\<lparr>p_parent := initproc s\<rparr>) s)) (\<lambda>_ s.
        reparent_loop p ps s)
      else reparent_loop p ps s)"

definition reparent :: "nat \<Rightarrow> kernel \<Rightarrow> unit kres" where
  "reparent p s = reparent_loop p [0..<NPROC] s"

fun close_files :: "nat \<Rightarrow> nat list \<Rightarrow> kernel \<Rightarrow> unit kres" where
  "close_files p [] s = Ret () s"
| "close_files p (fd # fds) s =
     (case p_ofile (procs s p) fd of
        None \<Rightarrow> close_files p fds s
      | Some f \<Rightarrow>
          bnd (fileclose f s) (\<lambda>_ s.
          close_files p fds (upd_proc p (\<lambda>q. q\<lparr>p_ofile := (p_ofile q)(fd := None)\<rparr>) s)))"

definition kexit :: "i32 \<Rightarrow> kernel \<Rightarrow> unit kres" where
  "kexit status s = with_proc s (\<lambda>p.
     if Some p = initproc s then Panic ''init exiting''
     else
       bnd (close_files p [0..<NOFILE] s) (\<lambda>_ s.
       bnd (begin_op s) (\<lambda>_ s.
       bnd (iput_ptr (p_cwd (procs s p)) s) (\<lambda>_ s.
       bnd (end_op s) (\<lambda>_ s.
       let s = upd_proc p (\<lambda>q. q\<lparr>p_cwd := None\<rparr>) s in
       bnd (acquire WaitLock s) (\<lambda>_ s.
       bnd (reparent p s) (\<lambda>_ s.
       bnd (wakeup_proc (p_parent (procs s p)) s) (\<lambda>_ s.
       bnd (acquire (ProcLock p) s) (\<lambda>_ s.
       bnd (release WaitLock (upd_proc p (\<lambda>q. q\<lparr>p_xstate := status, p_state := ZOMBIE\<rparr>) s)) (\<lambda>_ s.
       bnd (sched s) (\<lambda>_ s. Panic ''zombie exit'')))))))))))"

text \<open>One scan of the table by \<^verbatim>\<open>kwait\<close>: its return value, if it found an exited child,
  and whether the caller has children.\<close>

fun kwait_scan :: "nat \<Rightarrow> u64 \<Rightarrow> nat list \<Rightarrow> bool \<Rightarrow> kernel \<Rightarrow> (i32 option \<times> bool) kres" where
  "kwait_scan p addr [] havekids s = Ret (None, havekids) s"
| "kwait_scan p addr (pp # ps) havekids s =
     (if p_parent (procs s pp) = Some p then
        bnd (acquire (ProcLock pp) s) (\<lambda>_ s.
        if p_state (procs s pp) = ZOMBIE then
          let pid = p_pid (procs s pp) in
          bnd (if addr \<noteq> 0
               then copyout (p_pagetable (procs s p)) addr (map (byte_of (p_xstate (procs s pp))) [0..<4]) s
               else Ret 0 s) (\<lambda>r s.
          if r <s 0 then
            bnd (release (ProcLock pp) s) (\<lambda>_ s.
            bnd (release WaitLock s) (\<lambda>_ s. Ret (Some (-1), True) s))
          else
            bnd (freeproc pp s) (\<lambda>_ s.
            bnd (release (ProcLock pp) s) (\<lambda>_ s.
            bnd (release WaitLock s) (\<lambda>_ s. Ret (Some pid, True) s))))
        else
          bnd (release (ProcLock pp) s) (\<lambda>_ s. kwait_scan p addr ps True s))
      else kwait_scan p addr ps havekids s)"

definition kwait_loop :: "nat \<Rightarrow> u64 \<Rightarrow> kernel \<Rightarrow> i32 kres" where
  "kwait_loop p addr s =
     bnd (kwait_scan p addr [0..<NPROC] False s) (\<lambda>(r, havekids) s.
     case r of
       Some pid \<Rightarrow> Ret pid s
     | None \<Rightarrow>
         bnd (if \<not> havekids then Ret True s else killed p s) (\<lambda>stop s.
         if stop then bnd (release WaitLock s) (\<lambda>_ s. Ret (-1) s)
         else bnd (sleep (ChProc p) WaitLock s) (\<lambda>_ s. Ret 0 s)))"

definition kwait :: "u64 \<Rightarrow> kernel \<Rightarrow> i32 kres" where
  "kwait addr s = with_proc s (\<lambda>p.
     bnd (acquire WaitLock s) (\<lambda>_ s. kwait_loop p addr s))"

definition kwait_resume :: "nat \<Rightarrow> u64 \<Rightarrow> kernel \<Rightarrow> i32 kres" where
  "kwait_resume p addr s = bnd (sleep_resume p WaitLock s) (\<lambda>_ s. kwait_loop p addr s)"

end
