(* ===== verification/Sysarg.thy ===== *)
theory Sysarg
  imports Proc
begin

text \<open>
  System call arguments, the first half of \<^verbatim>\<open>kernel/syscall.c\<close>: raw arguments come from
  the trapframe, strings and words from user memory. A function that fills a buffer
  returns its contents beside its status.
\<close>

unbundle bit_operations_syntax

definition fetchaddr :: "u64 \<Rightarrow> kernel \<Rightarrow> (i32 \<times> u64) kres" where
  "fetchaddr addr s = with_proc s (\<lambda>p.
     let sz = p_sz (procs s p) in
     if addr \<ge> sz \<or> addr + 8 > sz then Ret (-1, 0) s
     else bnd (copyin (p_pagetable (procs s p)) addr 8 s) (\<lambda>(r, bs) s.
       if r \<noteq> 0 then Ret (-1, 0) s else Ret (0, le_word 8 ((!) bs)) s))"

definition fetchstr :: "u64 \<Rightarrow> nat \<Rightarrow> kernel \<Rightarrow> (i32 \<times> u8 list) kres" where
  "fetchstr addr mx s = with_proc s (\<lambda>p.
     bnd (copyinstr (p_pagetable (procs s p)) addr mx s) (\<lambda>(r, buf) s.
     if r <s 0 then Ret (-1, buf) s else Ret (of_nat (strlen buf), buf) s))"

definition argraw :: "nat \<Rightarrow> kernel \<Rightarrow> u64 kres" where
  "argraw n s = with_proc s (\<lambda>p.
     let tf = tframes s (p_trapframe (procs s p)) in
     if n = 0 then Ret (tf T_a0) s
     else if n = 1 then Ret (tf T_a1) s
     else if n = 2 then Ret (tf T_a2) s
     else if n = 3 then Ret (tf T_a3) s
     else if n = 4 then Ret (tf T_a4) s
     else if n = 5 then Ret (tf T_a5) s
     else Panic ''argraw'')"

definition argint :: "nat \<Rightarrow> kernel \<Rightarrow> i32 kres" where
  "argint n s = bnd (argraw n s) (\<lambda>x s. Ret (u64_to_i x) s)"

definition argaddr :: "nat \<Rightarrow> kernel \<Rightarrow> u64 kres" where
  "argaddr n s = argraw n s"

definition argstr :: "nat \<Rightarrow> nat \<Rightarrow> kernel \<Rightarrow> (i32 \<times> u8 list) kres" where
  "argstr n mx s = bnd (argaddr n s) (\<lambda>addr s. fetchstr addr mx s)"

end
