(* ===== verification/Sysproc.thy ===== *)
theory Sysproc
  imports Sysarg
begin

text \<open>
  The system calls of \<^verbatim>\<open>kernel/sysproc.c\<close>: processes, memory, time, power modes, CPU
  budgets and usage limits, cost accounting and system health. Each returns the value the
  dispatcher stores in \<^verbatim>\<open>a0\<close>.
\<close>

unbundle bit_operations_syntax

abbreviation (input) SBRK_EAGER :: i32 where "SBRK_EAGER \<equiv> 1"

definition ret_int :: "i32 kres \<Rightarrow> u64 kres" where
  "ret_int m = bnd m (\<lambda>r s. Ret (i2u64 r) s)"

definition sys_exit :: "kernel \<Rightarrow> u64 kres" where
  "sys_exit s = bnd (argint 0 s) (\<lambda>n s. bnd (kexit n s) (\<lambda>_ s. Ret 0 s))"

definition sys_getpid :: "kernel \<Rightarrow> u64 kres" where
  "sys_getpid s = with_proc s (\<lambda>p. Ret (i2u64 (p_pid (procs s p))) s)"

definition sys_fork :: "kernel \<Rightarrow> u64 kres" where
  "sys_fork s = ret_int (kfork s)"

definition sys_wait :: "kernel \<Rightarrow> u64 kres" where
  "sys_wait s = bnd (argaddr 0 s) (\<lambda>p s. ret_int (kwait p s))"

definition sys_sbrk :: "kernel \<Rightarrow> u64 kres" where
  "sys_sbrk s =
     bnd (argint 0 s) (\<lambda>n s.
     bnd (argint 1 s) (\<lambda>t s. with_proc s (\<lambda>p.
     let addr = p_sz (procs s p) in
     if t = SBRK_EAGER \<or> n <s 0 then
       bnd (growproc n s) (\<lambda>r s.
       if r <s 0 then Ret (-1) s else Ret addr s)
     else if addr + scast n < addr then Ret (-1) s
     else if addr + scast n > TRAPFRAME then Ret (-1) s
     else Ret addr (upd_proc p (\<lambda>q. q\<lparr>p_sz := p_sz q + scast n\<rparr>) s))))"

text \<open>The loop of \<^verbatim>\<open>sys_pause\<close>, \<^verbatim>\<open>tickslock\<close> held.\<close>

definition sys_pause_loop :: "u32 \<Rightarrow> u32 \<Rightarrow> kernel \<Rightarrow> u64 kres" where
  "sys_pause_loop ticks0 n s =
     (if ticks s - ticks0 < n then with_proc s (\<lambda>p.
        bnd (killed p s) (\<lambda>k s.
        if k then bnd (release TicksLock s) (\<lambda>_ s. Ret (-1) s)
        else bnd (sleep ChTicks TicksLock s) (\<lambda>_ s. Ret 0 s)))
      else bnd (release TicksLock s) (\<lambda>_ s. Ret 0 s))"

definition sys_pause :: "kernel \<Rightarrow> u64 kres" where
  "sys_pause s =
     bnd (argint 0 s) (\<lambda>n s.
     let n = (if n <s 0 then 0 else n) in
     bnd (acquire TicksLock s) (\<lambda>_ s.
     sys_pause_loop (ticks s) n s))"

definition sys_pause_resume :: "nat \<Rightarrow> u32 \<Rightarrow> u32 \<Rightarrow> kernel \<Rightarrow> u64 kres" where
  "sys_pause_resume p ticks0 n s = bnd (sleep_resume p TicksLock s) (\<lambda>_ s. sys_pause_loop ticks0 n s)"

definition sys_kill :: "kernel \<Rightarrow> u64 kres" where
  "sys_kill s = bnd (argint 0 s) (\<lambda>pid s. ret_int (kkill pid s))"

definition sys_setpowermode :: "kernel \<Rightarrow> u64 kres" where
  "sys_setpowermode s =
     bnd (argint 0 s) (\<lambda>pid s. bnd (argint 1 s) (\<lambda>mode s. ret_int (setpowermode_pid pid mode s)))"

definition sys_setcpulimit :: "kernel \<Rightarrow> u64 kres" where
  "sys_setcpulimit s =
     bnd (argint 0 s) (\<lambda>pid s. bnd (argint 1 s) (\<lambda>limit s. ret_int (setcpulimit_pid pid limit s)))"

definition sys_getcputicks :: "kernel \<Rightarrow> u64 kres" where
  "sys_getcputicks s = bnd (argint 0 s) (\<lambda>pid s. ret_int (getcputicks_pid pid s))"

definition sys_uptime :: "kernel \<Rightarrow> u64 kres" where
  "sys_uptime s =
     bnd (acquire TicksLock s) (\<lambda>_ s.
     let xticks = ticks s in
     bnd (release TicksLock s) (\<lambda>_ s. Ret (ucast xticks) s))"

subsection \<open>Cost accounting\<close>

definition cost_entry :: "u8 list \<Rightarrow> proc \<Rightarrow> proccostinfo" where
  "cost_entry name q =
     \<lparr>pc_pid = p_pid q, pc_name = safestrcpy name (p_name q) 16, pc_cpu_ticks = p_cpu_ticks q,
      pc_sched_count = p_sched_count q, pc_disk_writes = p_disk_writes q,
      pc_cost = p_cpu_ticks q + 5 * p_disk_writes q\<rparr>"

text \<open>The 56 bytes of a \<^verbatim>\<open>struct proccostinfo\<close>, four of them padding.\<close>

definition cost_bytes :: "proccostinfo \<Rightarrow> (nat \<Rightarrow> u8) \<Rightarrow> u8 list" where
  "cost_bytes e pad =
     map (byte_of (pc_pid e)) [0..<4] @ pc_name e @ map pad [0..<4] @
     map (byte_of (pc_cpu_ticks e)) [0..<8] @ map (byte_of (pc_sched_count e)) [0..<8] @
     map (byte_of (pc_disk_writes e)) [0..<8] @ map (byte_of (pc_cost e)) [0..<8]"

text \<open>The walk over the table; \<^verbatim>\<open>name\<close> is what the local variable \<^verbatim>\<open>entry.name\<close>
  holds from the previous entry.\<close>

fun proccost_loop :: "nat \<Rightarrow> u64 \<Rightarrow> nat \<Rightarrow> nat list \<Rightarrow> nat \<Rightarrow> u8 list \<Rightarrow> kernel \<Rightarrow> u64 kres" where
  "proccost_loop p uaddr mx [] cnt name s = Ret (of_nat cnt) s"
| "proccost_loop p uaddr mx (q # qs) cnt name s =
     (if cnt < mx then
        bnd (acquire (ProcLock q) s) (\<lambda>_ s.
        if p_state (procs s q) \<noteq> UNUSED \<and> p_state (procs s q) \<noteq> USED then
          let e = cost_entry name (procs s q) in
          bnd (release (ProcLock q) s) (\<lambda>_ s.
          bnd (copyout (p_pagetable (procs s p)) (uaddr + of_nat cnt * 56)
                 (cost_bytes e (\<lambda>i. junk s (16 + i))) s) (\<lambda>r s.
          if r <s 0 then Ret (-1) s
          else proccost_loop p uaddr mx qs (cnt + 1) (pc_name e) s))
        else bnd (release (ProcLock q) s) (\<lambda>_ s. proccost_loop p uaddr mx qs cnt name s))
      else Ret (of_nat cnt) s)"

definition sys_proccost :: "kernel \<Rightarrow> u64 kres" where
  "sys_proccost s =
     bnd (argaddr 0 s) (\<lambda>uaddr s.
     bnd (argint 1 s) (\<lambda>mx s.
     if mx \<le>s 0 then Ret (-1) s
     else with_proc s (\<lambda>p.
       proccost_loop p uaddr (nat (sint mx)) [0..<NPROC] 0 (map (junk s) [0..<16]) s)))"

subsection \<open>System health\<close>

definition count_procs :: "(procstate \<Rightarrow> bool) \<Rightarrow> (nat \<Rightarrow> proc) \<Rightarrow> u32" where
  "count_procs P pt = of_nat (length (filter (\<lambda>p. P (p_state (pt p))) [0..<NPROC]))"

definition health_bytes :: "syshealth \<Rightarrow> u8 list" where
  "health_bytes sh = concat (map (\<lambda>w. map (byte_of w) [0..<4])
     [sh_uptime_ticks sh, sh_active_ticks sh, sh_idle_ticks sh, sh_context_switches sh,
      sh_nproc_running sh, sh_nproc_total sh, sh_free_pages sh])"

definition sys_getsyshealth :: "kernel \<Rightarrow> u64 kres" where
  "sys_getsyshealth s =
     bnd (argaddr 0 s) (\<lambda>addr s.
     bnd (acquire TicksLock s) (\<lambda>_ s.
     let up = ticks s; act = active_ticks s; idle = idle_ticks s in
     bnd (release TicksLock s) (\<lambda>_ s.
     let cs = context_switches s in
     bnd (kfreepages s) (\<lambda>free s.
     let sh = \<lparr>sh_uptime_ticks = up, sh_active_ticks = act, sh_idle_ticks = idle,
               sh_context_switches = cs,
               sh_nproc_running = count_procs (\<lambda>st. st = RUNNING \<or> st = RUNNABLE) (procs s),
               sh_nproc_total = count_procs (\<lambda>st. st \<noteq> UNUSED) (procs s),
               sh_free_pages = free\<rparr> in
     with_proc s (\<lambda>p.
     bnd (copyout (p_pagetable (procs s p)) addr (health_bytes sh) s) (\<lambda>r s.
     if r <s 0 then Ret (-1) s else Ret 0 s))))))"

subsection \<open>Usage limits\<close>

fun setusagelimit_loop :: "i32 \<Rightarrow> i32 \<Rightarrow> nat list \<Rightarrow> kernel \<Rightarrow> u64 kres" where
  "setusagelimit_loop pid mx [] s = Ret (-1) s"
| "setusagelimit_loop pid mx (p # ps) s =
     bnd (acquire (ProcLock p) s) (\<lambda>_ s.
     if p_pid (procs s p) = pid then
       bnd (release (ProcLock p)
         (upd_proc p (\<lambda>q. q\<lparr>p_cpu_ticks_limit := if mx <s 0 then 0 else scast mx\<rparr>) s)) (\<lambda>_ s. Ret 0 s)
     else bnd (release (ProcLock p) s) (\<lambda>_ s. setusagelimit_loop pid mx ps s))"

definition sys_setusagelimit :: "kernel \<Rightarrow> u64 kres" where
  "sys_setusagelimit s =
     bnd (argint 0 s) (\<lambda>pid s.
     bnd (argint 1 s) (\<lambda>mx s. setusagelimit_loop pid mx [0..<NPROC] s))"

fun getusagestats_loop :: "i32 \<Rightarrow> u64 \<Rightarrow> nat list \<Rightarrow> kernel \<Rightarrow> u64 kres" where
  "getusagestats_loop pid addr [] s = Ret (-1) s"
| "getusagestats_loop pid addr (p # ps) s =
     bnd (acquire (ProcLock p) s) (\<lambda>_ s.
     if p_pid (procs s p) = pid then
       let bs = map (byte_of (p_cpu_ticks (procs s p))) [0..<8] @
                map (byte_of (p_cpu_ticks_limit (procs s p))) [0..<8] in
       bnd (release (ProcLock p) s) (\<lambda>_ s.
       bnd (either_copyout True addr bs s) (\<lambda>r s.
       if r <s 0 then Ret (-1) s else Ret 0 s))
     else bnd (release (ProcLock p) s) (\<lambda>_ s. getusagestats_loop pid addr ps s))"

definition sys_getusagestats :: "kernel \<Rightarrow> u64 kres" where
  "sys_getusagestats s =
     bnd (argint 0 s) (\<lambda>pid s.
     bnd (argaddr 1 s) (\<lambda>addr s. getusagestats_loop pid addr [0..<NPROC] s))"

end
