(* ===== verification/Exec.thy ===== *)
theory Exec
  imports Proc
begin

text \<open>
  Program loading, \<^verbatim>\<open>kernel/exec.c\<close>: reading the ELF headers, mapping and loading the
  segments, building the argument stack, and switching to the new image. The error exit
  (\<^verbatim>\<open>bad:\<close>) is \<^verbatim>\<open>kexec_bad\<close>, called with the page table, the size and whether
  the inode is still locked.
\<close>

unbundle bit_operations_syntax

abbreviation (input) ELF_MAGIC :: u32 where "ELF_MAGIC \<equiv> 0x464C457F"
abbreviation (input) ELF_PROG_LOAD :: u32 where "ELF_PROG_LOAD \<equiv> 1"
abbreviation (input) USERSTACK :: u64 where "USERSTACK \<equiv> 1"

definition flags2perm :: "u32 \<Rightarrow> u64" where
  "flags2perm flags =
     (let perm = (if flags AND 1 \<noteq> 0 then PTE_X else 0)
      in if flags AND 2 \<noteq> 0 then perm OR PTE_W else perm)"

subsection \<open>ELF headers\<close>

record elfhdr =
  eh_magic :: u32
  eh_entry :: u64
  eh_phoff :: u64
  eh_phnum :: u16

record proghdr =
  ph_type :: u32
  ph_flags :: u32
  ph_off :: u64
  ph_vaddr :: u64
  ph_filesz :: u64
  ph_memsz :: u64

definition le_at :: "nat \<Rightarrow> nat \<Rightarrow> u8 list \<Rightarrow> 'a::len word" where
  "le_at n k bs = le_word n (\<lambda>i. bs ! (k + i))"

definition elfhdr_of :: "u8 list \<Rightarrow> elfhdr" where
  "elfhdr_of bs = \<lparr>eh_magic = le_at 4 0 bs, eh_entry = le_at 8 24 bs, eh_phoff = le_at 8 32 bs,
     eh_phnum = le_at 2 56 bs\<rparr>"

definition proghdr_of :: "u8 list \<Rightarrow> proghdr" where
  "proghdr_of bs = \<lparr>ph_type = le_at 4 0 bs, ph_flags = le_at 4 4 bs, ph_off = le_at 8 8 bs,
     ph_vaddr = le_at 8 16 bs, ph_filesz = le_at 8 32 bs, ph_memsz = le_at 8 40 bs\<rparr>"

subsection \<open>Loading\<close>

text \<open>The pages of a segment; a file is far smaller than the \<^verbatim>\<open>uint\<close> range, so the offset
  does not wrap around.\<close>

fun loadseg_loop :: "u64 \<Rightarrow> u64 \<Rightarrow> nat \<Rightarrow> u32 \<Rightarrow> nat \<Rightarrow> nat list \<Rightarrow> kernel \<Rightarrow> i32 kres" where
  "loadseg_loop pagetable va ip off sz [] s = Ret 0 s"
| "loadseg_loop pagetable va ip off sz (i # is) s =
     bnd (walkaddr pagetable (va + of_nat i) s) (\<lambda>pa s.
     if pa = 0 then Panic ''loadseg: address should exist''
     else
       let n = of_nat (min (sz - i) 4096) in
       bnd (readi ip (DKern pa) (off + of_nat i) n s) (\<lambda>(r, _) s.
       if r \<noteq> n then Ret (-1) s
       else loadseg_loop pagetable va ip off sz is s))"

definition loadseg :: "u64 \<Rightarrow> u64 \<Rightarrow> nat \<Rightarrow> u32 \<Rightarrow> u32 \<Rightarrow> kernel \<Rightarrow> i32 kres" where
  "loadseg pagetable va ip off sz s =
     loadseg_loop pagetable va ip off (unat sz)
       (map (\<lambda>k. 4096 * k) [0..<(unat sz + 4095) div 4096]) s"

text \<open>The loop over the program headers: the size of the image, or \<^verbatim>\<open>Inl sz\<close> where the
  source jumps to \<^verbatim>\<open>bad\<close>.\<close>

fun exec_segments :: "u8 list \<Rightarrow> u64 \<Rightarrow> nat \<Rightarrow> nat \<Rightarrow> u32 \<Rightarrow> u64 \<Rightarrow> kernel \<Rightarrow> (u64 + u64) kres" where
  "exec_segments path pagetable ip 0 off sz s = Ret (Inr sz) s"
| "exec_segments path pagetable ip (Suc i) off sz s =
     bnd (readi ip DLocal off 56 s) (\<lambda>(r, bs) s.
     if r \<noteq> 56 then
       bnd (printf (''kexec: readi program header failed for %s'' @ [CHR 0x0A]) [VStr path] s) (\<lambda>_ s.
       Ret (Inl sz) s)
     else
       let ph = proghdr_of bs in
       if ph_type ph \<noteq> ELF_PROG_LOAD then exec_segments path pagetable ip i (off + 56) sz s
       else if ph_memsz ph < ph_filesz ph then
         bnd (printf (''kexec: ph.memsz < ph.filesz for %s'' @ [CHR 0x0A]) [VStr path] s) (\<lambda>_ s.
         Ret (Inl sz) s)
       else if ph_vaddr ph + ph_memsz ph < ph_vaddr ph then Ret (Inl sz) s
       else if ph_vaddr ph mod PGSIZE \<noteq> 0 then Ret (Inl sz) s
       else
         bnd (uvmalloc pagetable sz (ph_vaddr ph + ph_memsz ph) (flags2perm (ph_flags ph)) s) (\<lambda>sz1 s.
         if sz1 = 0 then
           bnd (printf (''kexec: uvmalloc failed for %s'' @ [CHR 0x0A]) [VStr path] s) (\<lambda>_ s.
           Ret (Inl sz) s)
         else
           bnd (loadseg pagetable (ph_vaddr ph) ip (ucast (ph_off ph)) (ucast (ph_filesz ph)) s) (\<lambda>r s.
           if r <s 0 then
             bnd (printf (''kexec: loadseg failed for %s'' @ [CHR 0x0A]) [VStr path] s) (\<lambda>_ s.
             Ret (Inl sz1) s)
           else exec_segments path pagetable ip i (off + 56) sz1 s)))"

subsection \<open>Arguments\<close>

text \<open>Copy the argument strings to the new stack: the stack pointer and the addresses of the
  strings, or \<^verbatim>\<open>None\<close> where the source jumps to \<^verbatim>\<open>bad\<close>.\<close>

definition align16 :: "u64 \<Rightarrow> u64" where
  "align16 sp = sp - sp mod 16"

fun push_args :: "u64 \<Rightarrow> u64 \<Rightarrow> u8 list list \<Rightarrow> u64 \<Rightarrow> u64 list \<Rightarrow> kernel \<Rightarrow> (u64 \<times> u64 list) option kres" where
  "push_args pagetable stackbase [] sp ustack s = Ret (Some (sp, ustack)) s"
| "push_args pagetable stackbase (a # argv) sp ustack s =
     (if length ustack \<ge> MAXARG then Ret None s
      else
        let sp = align16 (sp - of_nat (strlen a + 1)) in
        if sp < stackbase then Ret None s
        else
          bnd (copyout pagetable sp (take (strlen a) a @ [0]) s) (\<lambda>r s.
          if r <s 0 then Ret None s
          else push_args pagetable stackbase argv sp (ustack @ [sp]) s))"

definition word_bytes :: "u64 list \<Rightarrow> u8 list" where
  "word_bytes ws = concat (map (\<lambda>w. map (byte_of w) [0..<8]) ws)"

text \<open>\<^verbatim>\<open>last\<close>: what follows the last slash of the path.\<close>

definition exec_name :: "u8 list \<Rightarrow> u8 list" where
  "exec_name path = rev (takeWhile (\<lambda>c. c \<noteq> slash) (rev (cstr path)))"

subsection \<open>The system call\<close>

definition kexec_bad :: "u64 \<Rightarrow> u64 \<Rightarrow> nat option \<Rightarrow> kernel \<Rightarrow> i32 kres" where
  "kexec_bad pagetable sz ipo s =
     bnd (if pagetable \<noteq> 0 then proc_freepagetable pagetable sz s else Ret () s) (\<lambda>_ s.
     bnd (case ipo of
            Some ip \<Rightarrow> bnd (iunlockput ip s) (\<lambda>_ s. end_op s)
          | None \<Rightarrow> Ret () s) (\<lambda>_ s.
     Ret (-1) s))"

text \<open>The second half: stack, arguments and the switch to the new image.\<close>

definition exec_finish :: "nat \<Rightarrow> u8 list \<Rightarrow> u8 list list \<Rightarrow> u64 \<Rightarrow> u64 \<Rightarrow> u64 \<Rightarrow> kernel \<Rightarrow> i32 kres" where
  "exec_finish p path argv pagetable sz entry s =
     (let oldsz = p_sz (procs s p); sz = PGROUNDUP sz in
      bnd (uvmalloc pagetable sz (sz + (USERSTACK + 1) * PGSIZE) PTE_W s) (\<lambda>sz1 s.
      if sz1 = 0 then kexec_bad pagetable sz None s
      else
        let sz = sz1 in
        bnd (uvmclear pagetable (sz - (USERSTACK + 1) * PGSIZE) s) (\<lambda>_ s.
        let stackbase = sz - USERSTACK * PGSIZE in
        bnd (push_args pagetable stackbase argv sz [] s) (\<lambda>r s.
        case r of
          None \<Rightarrow> kexec_bad pagetable sz None s
        | Some (sp, ustack) \<Rightarrow>
            let argc = length ustack;
                sp = align16 (sp - of_nat ((argc + 1) * 8)) in
            if sp < stackbase then kexec_bad pagetable sz None s
            else
              bnd (copyout pagetable sp (word_bytes (ustack @ [0])) s) (\<lambda>r s.
              if r <s 0 then kexec_bad pagetable sz None s
              else
                let tf = p_trapframe (procs s p);
                    oldpagetable = p_pagetable (procs s p);
                    s = upd_proc p (\<lambda>q. q\<lparr>p_name := safestrcpy (p_name q) (exec_name path) 16,
                          p_pagetable := pagetable, p_sz := sz\<rparr>) s;
                    s = s\<lparr>tframes := (tframes s)(tf := (tframes s tf)(T_a1 := sp, epc := entry, T_sp := sp))\<rparr> in
                bnd (proc_freepagetable oldpagetable oldsz s) (\<lambda>_ s.
                Ret (of_nat argc) s))))))"

definition kexec :: "u8 list \<Rightarrow> u8 list list \<Rightarrow> kernel \<Rightarrow> i32 kres" where
  "kexec path argv s = with_proc s (\<lambda>p.
     bnd (begin_op s) (\<lambda>_ s.
     bnd (namei path s) (\<lambda>r s.
     case r of
       None \<Rightarrow>
         bnd (printf (''kexec: namei(%s) failed'' @ [CHR 0x0A]) [VStr path] s) (\<lambda>_ s.
         bnd (end_op s) (\<lambda>_ s. Ret (-1) s))
     | Some ip \<Rightarrow>
         bnd (ilock (Some ip) s) (\<lambda>_ s.
         bnd (readi ip DLocal 0 64 s) (\<lambda>(r, bs) s.
         if r \<noteq> 64 then
           bnd (printf (''kexec: readi ELF header failed for %s'' @ [CHR 0x0A]) [VStr path] s) (\<lambda>_ s.
           kexec_bad 0 0 (Some ip) s)
         else
           let elf = elfhdr_of bs in
           if eh_magic elf \<noteq> ELF_MAGIC then
             bnd (printf (''kexec: ELF magic mismatch for %s: 0x%x'' @ [CHR 0x0A])
               [VStr path, VInt (ucast (eh_magic elf))] s) (\<lambda>_ s.
             kexec_bad 0 0 (Some ip) s)
           else
             bnd (proc_pagetable p s) (\<lambda>pagetable s.
             if pagetable = 0 then
               bnd (printf (''kexec: proc_pagetable failed'' @ [CHR 0x0A]) [] s) (\<lambda>_ s.
               kexec_bad 0 0 (Some ip) s)
             else
               bnd (exec_segments path pagetable ip (unat (eh_phnum elf)) (ucast (eh_phoff elf)) 0 s) (\<lambda>r s.
               case r of
                 Inl sz \<Rightarrow> kexec_bad pagetable sz (Some ip) s
               | Inr sz \<Rightarrow>
                   bnd (iunlockput ip s) (\<lambda>_ s.
                   bnd (end_op s) (\<lambda>_ s.
                   exec_finish p path argv pagetable sz (eh_entry elf) s)))))))))"

end
