(* ===== verification/Sysfile.thy ===== *)
theory Sysfile
  imports Sysarg Exec
begin

text \<open>
  The file system calls, \<^verbatim>\<open>kernel/sysfile.c\<close>. Buffers for path names hold what
  \<^verbatim>\<open>argstr\<close> copied in, terminated by a NUL.
\<close>

unbundle bit_operations_syntax

abbreviation (input) O_RDONLY :: i32 where "O_RDONLY \<equiv> 0"
abbreviation (input) O_WRONLY :: i32 where "O_WRONLY \<equiv> 1"
abbreviation (input) O_RDWR :: i32 where "O_RDWR \<equiv> 2"
abbreviation (input) O_CREATE :: i32 where "O_CREATE \<equiv> 0x200"
abbreviation (input) O_TRUNC :: i32 where "O_TRUNC \<equiv> 0x400"

definition ret_i32 :: "i32 kres \<Rightarrow> u64 kres" where
  "ret_i32 m = bnd m (\<lambda>r s. Ret (i2u64 r) s)"

subsection \<open>File descriptors\<close>

text \<open>The descriptor and its file, or \<^verbatim>\<open>None\<close> for the result -1.\<close>

definition argfd :: "nat \<Rightarrow> kernel \<Rightarrow> (nat \<times> nat) option kres" where
  "argfd n s =
     bnd (argint n s) (\<lambda>fd s.
     if fd <s 0 \<or> of_nat NOFILE \<le>s fd then Ret None s
     else with_proc s (\<lambda>p.
       case p_ofile (procs s p) (unat fd) of
         None \<Rightarrow> Ret None s
       | Some f \<Rightarrow> Ret (Some (unat fd, f)) s))"

fun fdalloc_loop :: "nat \<Rightarrow> nat \<Rightarrow> nat list \<Rightarrow> kernel \<Rightarrow> nat option kres" where
  "fdalloc_loop p f [] s = Ret None s"
| "fdalloc_loop p f (fd # fds) s =
     (if p_ofile (procs s p) fd = None
      then Ret (Some fd) (upd_proc p (\<lambda>q. q\<lparr>p_ofile := (p_ofile q)(fd := Some f)\<rparr>) s)
      else fdalloc_loop p f fds s)"

definition fdalloc :: "nat \<Rightarrow> kernel \<Rightarrow> nat option kres" where
  "fdalloc f s = with_proc s (\<lambda>p. fdalloc_loop p f [0..<NOFILE] s)"

definition sys_dup :: "kernel \<Rightarrow> u64 kres" where
  "sys_dup s =
     bnd (argfd 0 s) (\<lambda>r s.
     case r of
       None \<Rightarrow> Ret (-1) s
     | Some (_, f) \<Rightarrow>
         bnd (fdalloc f s) (\<lambda>r s.
         case r of
           None \<Rightarrow> Ret (-1) s
         | Some fd \<Rightarrow> bnd (filedup f s) (\<lambda>_ s. Ret (of_nat fd) s)))"

definition sys_read :: "kernel \<Rightarrow> u64 kres" where
  "sys_read s =
     bnd (argaddr 1 s) (\<lambda>p s.
     bnd (argint 2 s) (\<lambda>n s.
     bnd (argfd 0 s) (\<lambda>r s.
     case r of
       None \<Rightarrow> Ret (-1) s
     | Some (_, f) \<Rightarrow> ret_i32 (fileread f p n s))))"

definition sys_write :: "kernel \<Rightarrow> u64 kres" where
  "sys_write s =
     bnd (argaddr 1 s) (\<lambda>p s.
     bnd (argint 2 s) (\<lambda>n s.
     bnd (argfd 0 s) (\<lambda>r s.
     case r of
       None \<Rightarrow> Ret (-1) s
     | Some (_, f) \<Rightarrow>
         let s = (case myproc s of
                    Some pr \<Rightarrow> if f_type (files s f) = FD_INODE
                               then upd_proc pr (\<lambda>q. q\<lparr>p_disk_writes := p_disk_writes q + 1\<rparr>) s else s
                  | None \<Rightarrow> s) in
         ret_i32 (filewrite f p n s))))"

definition sys_close :: "kernel \<Rightarrow> u64 kres" where
  "sys_close s =
     bnd (argfd 0 s) (\<lambda>r s.
     case r of
       None \<Rightarrow> Ret (-1) s
     | Some (fd, f) \<Rightarrow> with_proc s (\<lambda>p.
         bnd (fileclose f (upd_proc p (\<lambda>q. q\<lparr>p_ofile := (p_ofile q)(fd := None)\<rparr>) s)) (\<lambda>_ s.
         Ret 0 s)))"

definition sys_fstat :: "kernel \<Rightarrow> u64 kres" where
  "sys_fstat s =
     bnd (argaddr 1 s) (\<lambda>st s.
     bnd (argfd 0 s) (\<lambda>r s.
     case r of
       None \<Rightarrow> Ret (-1) s
     | Some (_, f) \<Rightarrow> ret_i32 (filestat f st s)))"

subsection \<open>Links\<close>

definition fail_op :: "kernel \<Rightarrow> u64 kres" where
  "fail_op s = bnd (end_op s) (\<lambda>_ s. Ret (-1) s)"

definition link_bad :: "nat \<Rightarrow> kernel \<Rightarrow> u64 kres" where
  "link_bad ip s =
     bnd (ilock (Some ip) s) (\<lambda>_ s.
     bnd (iupdate ip (upd_inode ip (\<lambda>q. q\<lparr>i_nlink := i_nlink q - 1\<rparr>) s)) (\<lambda>_ s.
     bnd (iunlockput ip s) (\<lambda>_ s.
     fail_op s)))"

definition sys_link :: "kernel \<Rightarrow> u64 kres" where
  "sys_link s =
     bnd (argstr 0 MAXPATH s) (\<lambda>(r, old) s.
     if r <s 0 then Ret (-1) s
     else bnd (argstr 1 MAXPATH s) (\<lambda>(r, new) s.
     if r <s 0 then Ret (-1) s
     else
       bnd (begin_op s) (\<lambda>_ s.
       bnd (namei old s) (\<lambda>r s.
       case r of
         None \<Rightarrow> fail_op s
       | Some ip \<Rightarrow>
           bnd (ilock (Some ip) s) (\<lambda>_ s.
           if i_type (inodes s ip) = T_DIR then bnd (iunlockput ip s) (\<lambda>_ s. fail_op s)
           else
             bnd (iupdate ip (upd_inode ip (\<lambda>q. q\<lparr>i_nlink := i_nlink q + 1\<rparr>) s)) (\<lambda>_ s.
             bnd (iunlock (Some ip) s) (\<lambda>_ s.
             bnd (nameiparent new s) (\<lambda>(r, name) s.
             case r of
               None \<Rightarrow> link_bad ip s
             | Some dp \<Rightarrow>
                 bnd (ilock (Some dp) s) (\<lambda>_ s.
                 bnd (if i_dev (inodes s dp) \<noteq> i_dev (inodes s ip) then Ret (-1) s
                      else dirlink dp name (i_inum (inodes s ip)) s) (\<lambda>r s.
                 if r <s 0 then bnd (iunlockput dp s) (\<lambda>_ s. link_bad ip s)
                 else
                   bnd (iunlockput dp s) (\<lambda>_ s.
                   bnd (iput ip s) (\<lambda>_ s.
                   bnd (end_op s) (\<lambda>_ s.
                   Ret 0 s)))))))))))))"

fun isdirempty_loop :: "nat \<Rightarrow> nat list \<Rightarrow> kernel \<Rightarrow> bool kres" where
  "isdirempty_loop dp [] s = Ret True s"
| "isdirempty_loop dp (off # offs) s =
     bnd (readi dp DLocal (of_nat off) 16 s) (\<lambda>(r, de) s.
     if r \<noteq> 16 then Panic ''isdirempty: readi''
     else if de_inum de \<noteq> 0 then Ret False s
     else isdirempty_loop dp offs s)"

definition isdirempty :: "nat \<Rightarrow> kernel \<Rightarrow> bool kres" where
  "isdirempty dp s = isdirempty_loop dp (drop 2 (dir_offs (i_size (inodes s dp)))) s"

definition unlink_bad :: "nat \<Rightarrow> kernel \<Rightarrow> u64 kres" where
  "unlink_bad dp s = bnd (iunlockput dp s) (\<lambda>_ s. fail_op s)"

text \<open>\<^verbatim>\<open>sys_unlink\<close> once the entry is found and both inodes are locked.\<close>

definition unlink_entry :: "nat \<Rightarrow> nat \<Rightarrow> u32 \<Rightarrow> kernel \<Rightarrow> u64 kres" where
  "unlink_entry dp ip off s =
     bnd (writei dp (SLocal (replicate 16 0)) off 16 s) (\<lambda>r s.
     if r \<noteq> 16 then Panic ''unlink: writei''
     else
       bnd (if i_type (inodes s ip) = T_DIR
            then iupdate dp (upd_inode dp (\<lambda>q. q\<lparr>i_nlink := i_nlink q - 1\<rparr>) s)
            else Ret () s) (\<lambda>_ s.
       bnd (iunlockput dp s) (\<lambda>_ s.
       bnd (iupdate ip (upd_inode ip (\<lambda>q. q\<lparr>i_nlink := i_nlink q - 1\<rparr>) s)) (\<lambda>_ s.
       bnd (iunlockput ip s) (\<lambda>_ s.
       bnd (end_op s) (\<lambda>_ s. Ret 0 s))))))"

definition sys_unlink :: "kernel \<Rightarrow> u64 kres" where
  "sys_unlink s =
     bnd (argstr 0 MAXPATH s) (\<lambda>(r, path) s.
     if r <s 0 then Ret (-1) s
     else
       bnd (begin_op s) (\<lambda>_ s.
       bnd (nameiparent path s) (\<lambda>(r, name) s.
       case r of
         None \<Rightarrow> fail_op s
       | Some dp \<Rightarrow>
           bnd (ilock (Some dp) s) (\<lambda>_ s.
           if namecmp name (bytes_of ''.'') = 0 \<or> namecmp name (bytes_of ''..'') = 0 then unlink_bad dp s
           else
             bnd (dirlookup dp name s) (\<lambda>r s.
             case r of
               None \<Rightarrow> unlink_bad dp s
             | Some (ip, off) \<Rightarrow>
                 bnd (ilock (Some ip) s) (\<lambda>_ s.
                 if i_nlink (inodes s ip) <s 1 then Panic ''unlink: nlink < 1''
                 else
                   bnd (if i_type (inodes s ip) = T_DIR then isdirempty ip s else Ret True s) (\<lambda>ok s.
                   if \<not> ok then bnd (iunlockput ip s) (\<lambda>_ s. unlink_bad dp s)
                   else unlink_entry dp ip off s)))))))"

subsection \<open>Creating and opening\<close>

definition create_fail :: "nat \<Rightarrow> nat \<Rightarrow> kernel \<Rightarrow> nat option kres" where
  "create_fail ip dp s =
     bnd (iupdate ip (upd_inode ip (\<lambda>q. q\<lparr>i_nlink := 0\<rparr>) s)) (\<lambda>_ s.
     bnd (iunlockput ip s) (\<lambda>_ s.
     bnd (iunlockput dp s) (\<lambda>_ s.
     Ret None s)))"

text \<open>The fresh inode gets its fields, its entries and its name.\<close>

definition create_new :: "nat \<Rightarrow> u8 list \<Rightarrow> nat \<Rightarrow> i16 \<Rightarrow> i16 \<Rightarrow> i16 \<Rightarrow> kernel \<Rightarrow> nat option kres" where
  "create_new dp name ip type mj mn s =
     bnd (ilock (Some ip) s) (\<lambda>_ s.
     bnd (iupdate ip (upd_inode ip (\<lambda>q. q\<lparr>i_major := mj, i_minor := mn, i_nlink := 1\<rparr>) s)) (\<lambda>_ s.
     bnd (if type = T_DIR then
            bnd (dirlink ip (bytes_of ''.'') (i_inum (inodes s ip)) s) (\<lambda>r s.
            if r <s 0 then Ret r s
            else dirlink ip (bytes_of ''..'') (i_inum (inodes s dp)) s)
          else Ret 0 s) (\<lambda>r s.
     if r <s 0 then create_fail ip dp s
     else
       bnd (dirlink dp name (i_inum (inodes s ip)) s) (\<lambda>r s.
       if r <s 0 then create_fail ip dp s
       else
         bnd (if type = T_DIR then iupdate dp (upd_inode dp (\<lambda>q. q\<lparr>i_nlink := i_nlink q + 1\<rparr>) s)
              else Ret () s) (\<lambda>_ s.
         bnd (iunlockput dp s) (\<lambda>_ s.
         Ret (Some ip) s))))))"

definition create :: "u8 list \<Rightarrow> i16 \<Rightarrow> i16 \<Rightarrow> i16 \<Rightarrow> kernel \<Rightarrow> nat option kres" where
  "create path type mj mn s =
     bnd (nameiparent path s) (\<lambda>(r, name) s.
     case r of
       None \<Rightarrow> Ret None s
     | Some dp \<Rightarrow>
         bnd (ilock (Some dp) s) (\<lambda>_ s.
         bnd (dirlookup dp name s) (\<lambda>r s.
         case r of
           Some (ip, _) \<Rightarrow>
             bnd (iunlockput dp s) (\<lambda>_ s.
             bnd (ilock (Some ip) s) (\<lambda>_ s.
             if type = T_FILE \<and> (i_type (inodes s ip) = T_FILE \<or> i_type (inodes s ip) = T_DEVICE)
             then Ret (Some ip) s
             else bnd (iunlockput ip s) (\<lambda>_ s. Ret None s)))
         | None \<Rightarrow>
             bnd (ialloc (i_dev (inodes s dp)) type s) (\<lambda>r s.
             case r of
               None \<Rightarrow> bnd (iunlockput dp s) (\<lambda>_ s. Ret None s)
             | Some ip \<Rightarrow> create_new dp name ip type mj mn s))))"

definition open_bad :: "nat \<Rightarrow> kernel \<Rightarrow> u64 kres" where
  "open_bad ip s = bnd (iunlockput ip s) (\<lambda>_ s. fail_op s)"

text \<open>\<^verbatim>\<open>sys_open\<close> from the locked inode on.\<close>

definition open_inode :: "nat \<Rightarrow> i32 \<Rightarrow> kernel \<Rightarrow> u64 kres" where
  "open_inode ip omode s =
     (let q = inodes s ip in
      if i_type q = T_DEVICE \<and> (i_major q <s 0 \<or> of_nat NDEV \<le>s i_major q) then open_bad ip s
      else
        bnd (filealloc s) (\<lambda>r s.
        case r of
          None \<Rightarrow> open_bad ip s
        | Some f \<Rightarrow>
            bnd (fdalloc f s) (\<lambda>r s.
            case r of
              None \<Rightarrow> bnd (fileclose f s) (\<lambda>_ s. open_bad ip s)
            | Some fd \<Rightarrow>
                let s = (if i_type (inodes s ip) = T_DEVICE
                         then upd_file f (\<lambda>q. q\<lparr>f_type := FD_DEVICE, f_major := i_major (inodes s ip)\<rparr>) s
                         else upd_file f (\<lambda>q. q\<lparr>f_type := FD_INODE, f_off := 0\<rparr>) s);
                    s = upd_file f (\<lambda>q. q\<lparr>f_ip := Some ip,
                          f_readable := (omode AND O_WRONLY = 0),
                          f_writable := (omode AND O_WRONLY \<noteq> 0 \<or> omode AND O_RDWR \<noteq> 0)\<rparr>) s in
                bnd (if omode AND O_TRUNC \<noteq> 0 \<and> i_type (inodes s ip) = T_FILE then itrunc ip s
                     else Ret () s) (\<lambda>_ s.
                bnd (iunlock (Some ip) s) (\<lambda>_ s.
                bnd (end_op s) (\<lambda>_ s.
                Ret (of_nat fd) s))))))"

definition sys_open :: "kernel \<Rightarrow> u64 kres" where
  "sys_open s =
     bnd (argint 1 s) (\<lambda>omode s.
     bnd (argstr 0 MAXPATH s) (\<lambda>(r, path) s.
     if r <s 0 then Ret (-1) s
     else
       bnd (begin_op s) (\<lambda>_ s.
       if omode AND O_CREATE \<noteq> 0 then
         bnd (create path T_FILE 0 0 s) (\<lambda>r s.
         case r of
           None \<Rightarrow> fail_op s
         | Some ip \<Rightarrow> open_inode ip omode s)
       else
         bnd (namei path s) (\<lambda>r s.
         case r of
           None \<Rightarrow> fail_op s
         | Some ip \<Rightarrow>
             bnd (ilock (Some ip) s) (\<lambda>_ s.
             if i_type (inodes s ip) = T_DIR \<and> omode \<noteq> O_RDONLY then open_bad ip s
             else open_inode ip omode s)))))"

definition sys_mkdir :: "kernel \<Rightarrow> u64 kres" where
  "sys_mkdir s =
     bnd (begin_op s) (\<lambda>_ s.
     bnd (argstr 0 MAXPATH s) (\<lambda>(r, path) s.
     if r <s 0 then fail_op s
     else
       bnd (create path T_DIR 0 0 s) (\<lambda>r s.
       case r of
         None \<Rightarrow> fail_op s
       | Some ip \<Rightarrow>
           bnd (iunlockput ip s) (\<lambda>_ s.
           bnd (end_op s) (\<lambda>_ s. Ret 0 s)))))"

definition sys_mknod :: "kernel \<Rightarrow> u64 kres" where
  "sys_mknod s =
     bnd (begin_op s) (\<lambda>_ s.
     bnd (argint 1 s) (\<lambda>mj s.
     bnd (argint 2 s) (\<lambda>mn s.
     bnd (argstr 0 MAXPATH s) (\<lambda>(r, path) s.
     if r <s 0 then fail_op s
     else
       bnd (create path T_DEVICE (ucast mj) (ucast mn) s) (\<lambda>r s.
       case r of
         None \<Rightarrow> fail_op s
       | Some ip \<Rightarrow>
           bnd (iunlockput ip s) (\<lambda>_ s.
           bnd (end_op s) (\<lambda>_ s. Ret 0 s)))))))"

definition sys_chdir :: "kernel \<Rightarrow> u64 kres" where
  "sys_chdir s = with_proc s (\<lambda>p.
     bnd (begin_op s) (\<lambda>_ s.
     bnd (argstr 0 MAXPATH s) (\<lambda>(r, path) s.
     if r <s 0 then fail_op s
     else
       bnd (namei path s) (\<lambda>r s.
       case r of
         None \<Rightarrow> fail_op s
       | Some ip \<Rightarrow>
           bnd (ilock (Some ip) s) (\<lambda>_ s.
           if i_type (inodes s ip) \<noteq> T_DIR then bnd (iunlockput ip s) (\<lambda>_ s. fail_op s)
           else
             bnd (iunlock (Some ip) s) (\<lambda>_ s.
             bnd (iput_ptr (p_cwd (procs s p)) s) (\<lambda>_ s.
             bnd (end_op s) (\<lambda>_ s.
             Ret 0 (upd_proc p (\<lambda>q. q\<lparr>p_cwd := Some ip\<rparr>) s)))))))))"

subsection \<open>Exec and pipe\<close>

fun free_args :: "u64 list \<Rightarrow> kernel \<Rightarrow> unit kres" where
  "free_args [] s = Ret () s"
| "free_args (a # as) s = bnd (kfree a s) (\<lambda>_ s. free_args as s)"

text \<open>The loop that fetches the arguments: the pages allocated so far and, unless it jumps to
  \<^verbatim>\<open>bad\<close>, the strings.\<close>

fun fetch_args :: "u64 \<Rightarrow> nat list \<Rightarrow> u64 list \<Rightarrow> u8 list list \<Rightarrow> kernel \<Rightarrow> (u64 list \<times> u8 list list option) kres" where
  "fetch_args uargv [] pages args s = Ret (pages, None) s"
| "fetch_args uargv (i # is) pages args s =
     bnd (fetchaddr (uargv + 8 * of_nat i) s) (\<lambda>(r, uarg) s.
     if r <s 0 then
       bnd (printf (''sys_exec: fetchaddr failed for argv index %d'' @ [CHR 0x0A]) [VInt (of_nat i)] s) (\<lambda>_ s.
       Ret (pages, None) s)
     else if uarg = 0 then Ret (pages, Some args) s
     else
       bnd (kalloc s) (\<lambda>a s.
       if a = 0 then Ret (pages, None) s
       else
         bnd (fetchstr uarg 4096 s) (\<lambda>(r, buf) s.
         let s = s\<lparr>pmem := write_bytes (pmem s) a buf\<rparr> in
         if r <s 0 then Ret (pages @ [a], None) s
         else fetch_args uargv is (pages @ [a]) (args @ [buf]) s)))"

definition sys_exec :: "kernel \<Rightarrow> u64 kres" where
  "sys_exec s =
     bnd (argaddr 1 s) (\<lambda>uargv s.
     bnd (argstr 0 MAXPATH s) (\<lambda>(r, path) s.
     if r <s 0 then
       bnd (printf (''sys_exec: argstr(path) failed'' @ [CHR 0x0A]) [] s) (\<lambda>_ s. Ret (-1) s)
     else
       bnd (fetch_args uargv [0..<MAXARG] [] [] s) (\<lambda>(pages, argv) s.
       case argv of
         None \<Rightarrow> bnd (free_args pages s) (\<lambda>_ s. Ret (-1) s)
       | Some args \<Rightarrow>
           bnd (kexec path args s) (\<lambda>ret s.
           bnd (if ret <s 0
                then printf (''sys_exec: kexec returned -1 for path %s'' @ [CHR 0x0A]) [VStr path] s
                else Ret () s) (\<lambda>_ s.
           bnd (free_args pages s) (\<lambda>_ s.
           Ret (i2u64 ret) s))))))"

definition pipe_bad :: "nat \<Rightarrow> nat list \<Rightarrow> nat \<Rightarrow> nat \<Rightarrow> kernel \<Rightarrow> u64 kres" where
  "pipe_bad p fds rfile wfile s =
     bnd (fileclose rfile (upd_proc p (\<lambda>q. q\<lparr>p_ofile := fold (\<lambda>fd g. g(fd := None)) fds (p_ofile q)\<rparr>) s)) (\<lambda>_ s.
     bnd (fileclose wfile s) (\<lambda>_ s. Ret (-1) s))"

definition sys_pipe :: "kernel \<Rightarrow> u64 kres" where
  "sys_pipe s = with_proc s (\<lambda>p.
     bnd (argaddr 0 s) (\<lambda>fdarray s.
     bnd (pipealloc s) (\<lambda>r s.
     case r of
       None \<Rightarrow> Ret (-1) s
     | Some (rfile, wfile) \<Rightarrow>
         bnd (fdalloc rfile s) (\<lambda>r s.
         case r of
           None \<Rightarrow> pipe_bad p [] rfile wfile s
         | Some fd0 \<Rightarrow>
             bnd (fdalloc wfile s) (\<lambda>r s.
             case r of
               None \<Rightarrow> pipe_bad p [fd0] rfile wfile s
             | Some fd1 \<Rightarrow>
                 let pt = p_pagetable (procs s p) in
                 bnd (copyout pt fdarray (map (byte_of (of_nat fd0 :: i32)) [0..<4]) s) (\<lambda>r s.
                 if r <s 0 then pipe_bad p [fd0, fd1] rfile wfile s
                 else
                   bnd (copyout pt (fdarray + 4) (map (byte_of (of_nat fd1 :: i32)) [0..<4]) s) (\<lambda>r s.
                   if r <s 0 then pipe_bad p [fd0, fd1] rfile wfile s
                   else Ret 0 s)))))))"

end
