(* ===== verification/Virtio.thy ===== *)
theory Virtio
  imports Bio Kalloc
begin

text \<open>
  The virtio disk driver, \<^verbatim>\<open>kernel/virtio_disk.c\<close>. A request is a chain of three
  descriptors (header, data, status) put into the available ring; the device answers
  through the used ring and an interrupt. \<^verbatim>\<open>virtio_disk_rw\<close> sleeps until then, so it
  comes in two halves. The device is not part of the program; theory
  \<^verbatim>\<open>Virtio_Refine\<close> states what the driver relies on.
\<close>

unbundle bit_operations_syntax

abbreviation (input) NUM :: nat where "NUM \<equiv> 8"
abbreviation (input) VRING_DESC_F_NEXT :: u16 where "VRING_DESC_F_NEXT \<equiv> 1"
abbreviation (input) VRING_DESC_F_WRITE :: u16 where "VRING_DESC_F_WRITE \<equiv> 2"
abbreviation (input) VIRTIO_BLK_T_IN :: u32 where "VIRTIO_BLK_T_IN \<equiv> 0"
abbreviation (input) VIRTIO_BLK_T_OUT :: u32 where "VIRTIO_BLK_T_OUT \<equiv> 1"

definition upd_vd :: "(vdisk \<Rightarrow> vdisk) \<Rightarrow> kernel \<Rightarrow> kernel" where
  "upd_vd f s = s\<lparr>vdisk := f (vdisk s)\<rparr>"

subsection \<open>Initialisation\<close>

text \<open>Register offsets of \<^verbatim>\<open>virtio.h\<close>. \<^verbatim>\<open>rd r\<close> is what the device returns for a read of
  register \<^verbatim>\<open>r\<close>.\<close>

abbreviation (input) R_STATUS :: nat where "R_STATUS \<equiv> 0x070"

definition wreg :: "nat \<Rightarrow> u32 \<Rightarrow> kernel \<Rightarrow> kernel" where
  "wreg r v s = upd_vd (\<lambda>d. d\<lparr>vd_writes := vd_writes d @ [(r, v)]\<rparr>) s"

definition wreg64 :: "nat \<Rightarrow> u64 \<Rightarrow> kernel \<Rightarrow> kernel" where
  "wreg64 r v s = wreg (r + 4) (ucast (drop_bit 32 v)) (wreg r (ucast v) s)"

definition negotiate :: "u32 \<Rightarrow> u32" where
  "negotiate f = fold (\<lambda>k x. x AND NOT (push_bit k 1)) [5, 7, 11, 12, 27, 29, 28] f"

definition virtio_queue_init :: "(nat \<Rightarrow> u32) \<Rightarrow> u32 \<Rightarrow> kernel \<Rightarrow> unit kres" where
  "virtio_queue_init rd status s =
     (let s = wreg 0x030 0 s in
      if rd 0x044 \<noteq> 0 then Panic ''virtio disk should not be ready''
      else if rd 0x034 = 0 then Panic ''virtio disk has no queue 0''
      else if rd 0x034 < of_nat NUM then Panic ''virtio disk max queue too short''
      else
        bnd (kalloc s) (\<lambda>desc s.
        bnd (kalloc s) (\<lambda>avail s.
        bnd (kalloc s) (\<lambda>used s.
        if desc = 0 \<or> avail = 0 \<or> used = 0 then Panic ''virtio disk kalloc''
        else
          let s = s\<lparr>pmem := memset (memset (memset (pmem s) desc 0 4096) avail 0 4096) used 0 4096\<rparr>;
              s = upd_vd (\<lambda>d. d\<lparr>vd_desc := (\<lambda>_. \<lparr>d_addr = VNone, d_len = 0, d_flags = 0, d_next = 0\<rparr>),
                    vd_avail_idx := 0, vd_avail_ring := (\<lambda>_. 0), vd_dev_idx := 0,
                    vd_used_ring := (\<lambda>_. 0)\<rparr>) s;
              s = wreg 0x038 (of_nat NUM) s;
              s = wreg64 0x080 desc s;
              s = wreg64 0x090 avail s;
              s = wreg64 0x0A0 used s;
              s = wreg 0x044 1 s;
              s = upd_vd (\<lambda>d. d\<lparr>vd_free := \<lambda>i. if i < NUM then True else vd_free d i\<rparr>) s
          in Ret () (wreg R_STATUS (status OR 4) s)))))"

definition virtio_disk_init :: "(nat \<Rightarrow> u32) \<Rightarrow> kernel \<Rightarrow> unit kres" where
  "virtio_disk_init rd s =
     (if rd 0x000 \<noteq> 0x74726976 \<or> rd 0x004 \<noteq> 2 \<or> rd 0x008 \<noteq> 2 \<or> rd 0x00C \<noteq> 0x554D4551
      then Panic ''could not find virtio disk''
      else
        let s = wreg R_STATUS 0 s;
            s = wreg R_STATUS 1 s;
            s = wreg R_STATUS 3 s;
            s = wreg 0x020 (negotiate (rd 0x010)) s;
            s = wreg R_STATUS 11 s;
            status = rd R_STATUS in
        if status AND 8 = 0 then Panic ''virtio disk FEATURES_OK unset''
        else virtio_queue_init rd status s)"

subsection \<open>Descriptors\<close>

text \<open>The first free descriptor, marked as used; \<^verbatim>\<open>None\<close> for -1.\<close>

definition alloc_desc :: "kernel \<Rightarrow> nat option \<times> kernel" where
  "alloc_desc s =
     (case find (vd_free (vdisk s)) [0..<NUM] of
        None \<Rightarrow> (None, s)
      | Some i \<Rightarrow> (Some i, upd_vd (\<lambda>d. d\<lparr>vd_free := (vd_free d)(i := False)\<rparr>) s))"

definition free_desc :: "nat \<Rightarrow> kernel \<Rightarrow> unit kres" where
  "free_desc i s =
     (if i \<ge> NUM then Panic ''free_desc 1''
      else if vd_free (vdisk s) i then Panic ''free_desc 2''
      else wakeup ChDiskFree
        (upd_vd (\<lambda>d. d\<lparr>vd_desc := (vd_desc d)(i := \<lparr>d_addr = VNone, d_len = 0, d_flags = 0, d_next = 0\<rparr>),
                       vd_free := (vd_free d)(i := True)\<rparr>) s))"

text \<open>Freeing a chain never visits a descriptor twice (the second visit panics), so \<^verbatim>\<open>NUM + 1\<close>
  steps are enough.\<close>

fun free_chain_loop :: "nat \<Rightarrow> nat \<Rightarrow> kernel \<Rightarrow> unit kres" where
  "free_chain_loop 0 i s = Diverge"
| "free_chain_loop (Suc k) i s =
     (let flag = d_flags (vd_desc (vdisk s) i); nxt = d_next (vd_desc (vdisk s) i) in
      bnd (free_desc i s) (\<lambda>_ s.
      if flag AND VRING_DESC_F_NEXT \<noteq> 0 then free_chain_loop k (unat nxt) s else Ret () s))"

definition free_chain :: "nat \<Rightarrow> kernel \<Rightarrow> unit kres" where
  "free_chain i s = free_chain_loop (NUM + 1) i s"

fun free_descs :: "nat list \<Rightarrow> kernel \<Rightarrow> unit kres" where
  "free_descs [] s = Ret () s"
| "free_descs (i # is) s = bnd (free_desc i s) (\<lambda>_ s. free_descs is s)"

fun alloc3_loop :: "nat \<Rightarrow> nat list \<Rightarrow> kernel \<Rightarrow> nat list option kres" where
  "alloc3_loop 0 idx s = Ret (Some idx) s"
| "alloc3_loop (Suc k) idx s =
     (case alloc_desc s of
        (None, s) \<Rightarrow> bnd (free_descs idx s) (\<lambda>_ s. Ret None s)
      | (Some i, s) \<Rightarrow> alloc3_loop k (idx @ [i]) s)"

definition alloc3_desc :: "kernel \<Rightarrow> nat list option kres" where
  "alloc3_desc s = alloc3_loop 3 [] s"

subsection \<open>Requests\<close>

text \<open>Format the three descriptors of a request for buffer \<^verbatim>\<open>b\<close> and put its head into the
  available ring.\<close>

definition format_request :: "nat \<Rightarrow> bool \<Rightarrow> nat \<Rightarrow> nat \<Rightarrow> nat \<Rightarrow> kernel \<Rightarrow> kernel" where
  "format_request b write i0 i1 i2 s =
     (let sector = ucast (b_blockno (bufs s b) * 2);
          s = upd_vd (\<lambda>d. d\<lparr>vd_ops := (vd_ops d)(i0 :=
                \<lparr>q_type = (if write then VIRTIO_BLK_T_OUT else VIRTIO_BLK_T_IN), q_reserved = 0,
                 q_sector = sector\<rparr>)\<rparr>) s;
          s = upd_vd (\<lambda>d. d\<lparr>vd_desc := (vd_desc d)(i0 :=
                \<lparr>d_addr = VOps i0, d_len = 16, d_flags = VRING_DESC_F_NEXT, d_next = of_nat i1\<rparr>)\<rparr>) s;
          s = upd_vd (\<lambda>d. d\<lparr>vd_desc := (vd_desc d)(i1 :=
                \<lparr>d_addr = VData b, d_len = of_nat BSIZE,
                 d_flags = (if write then 0 else VRING_DESC_F_WRITE) OR VRING_DESC_F_NEXT,
                 d_next = of_nat i2\<rparr>)\<rparr>) s;
          s = upd_vd (\<lambda>d. d\<lparr>vd_info_status := (vd_info_status d)(i0 := 0xFF),
                vd_desc := (vd_desc d)(i2 :=
                \<lparr>d_addr = VStatus i0, d_len = 1, d_flags = VRING_DESC_F_WRITE, d_next = 0\<rparr>)\<rparr>) s;
          s = upd_buf b (\<lambda>q. q\<lparr>b_disk := True\<rparr>) s;
          s = upd_vd (\<lambda>d. d\<lparr>vd_info_b := (vd_info_b d)(i0 := Some b),
                vd_avail_ring := (vd_avail_ring d)(unat (vd_avail_idx d mod of_nat NUM) := of_nat i0),
                vd_avail_idx := vd_avail_idx d + 1\<rparr>) s
      in wreg 0x050 0 s)"

text \<open>Waiting for the completion, and the clean-up after it; the driver's lock is held.\<close>

definition virtio_wait :: "nat \<Rightarrow> nat \<Rightarrow> kernel \<Rightarrow> unit kres" where
  "virtio_wait b i0 s =
     (if b_disk (bufs s b) then sleep (ChBuf b) VdiskLock s
      else
        bnd (free_chain i0 (upd_vd (\<lambda>d. d\<lparr>vd_info_b := (vd_info_b d)(i0 := None)\<rparr>) s)) (\<lambda>_ s.
        release VdiskLock s))"

definition virtio_rw_loop :: "nat \<Rightarrow> bool \<Rightarrow> kernel \<Rightarrow> unit kres" where
  "virtio_rw_loop b write s =
     bnd (alloc3_desc s) (\<lambda>r s.
     case r of
       Some [i0, i1, i2] \<Rightarrow> virtio_wait b i0 (format_request b write i0 i1 i2 s)
     | _ \<Rightarrow> sleep ChDiskFree VdiskLock s)"

definition virtio_disk_rw :: "nat \<Rightarrow> bool \<Rightarrow> kernel \<Rightarrow> unit kres" where
  "virtio_disk_rw b write s = bnd (acquire VdiskLock s) (\<lambda>_ s. virtio_rw_loop b write s)"

text \<open>The continuations after the two sleeps.\<close>

definition virtio_rw_resume :: "nat \<Rightarrow> nat \<Rightarrow> bool \<Rightarrow> kernel \<Rightarrow> unit kres" where
  "virtio_rw_resume p b write s =
     bnd (sleep_resume p VdiskLock s) (\<lambda>_ s. virtio_rw_loop b write s)"

definition virtio_wait_resume :: "nat \<Rightarrow> nat \<Rightarrow> nat \<Rightarrow> kernel \<Rightarrow> unit kres" where
  "virtio_wait_resume p b i0 s =
     bnd (sleep_resume p VdiskLock s) (\<lambda>_ s. virtio_wait b i0 s)"

subsection \<open>Interrupts\<close>

lemma wakeup_loop_vdisk: "wakeup_loop chan ps s = Ret x t \<Longrightarrow> vdisk t = vdisk s"
  by (induction ps arbitrary: s)
    (fastforce simp: bnd_Ret_iff acquire_def release_def upd_proc_def split: if_splits)+

lemma wakeup_vdisk: "wakeup chan s = Ret x t \<Longrightarrow> vdisk t = vdisk s"
  unfolding wakeup_def by (rule wakeup_loop_vdisk)

text \<open>The loop over the new entries of the used ring. The two 16-bit counters are fewer than
  \<^verbatim>\<open>2 ^ 16\<close> steps apart, so the loop ends.\<close>

function virtio_intr_loop :: "kernel \<Rightarrow> unit kres" where
  "virtio_intr_loop s =
     (let d = vdisk s in
      if vd_used_idx d \<noteq> vd_dev_idx d then
        let id = unat (vd_used_ring d (unat (vd_used_idx d mod of_nat NUM))) in
        if vd_info_status d id \<noteq> 0 then Panic ''virtio_disk_intr status''
        else case vd_info_b d id of
          None \<Rightarrow> Panic ''kerneltrap''
        | Some b \<Rightarrow>
            bnd (wakeup (ChBuf b) (upd_buf b (\<lambda>q. q\<lparr>b_disk := False\<rparr>) s)) (\<lambda>_ s.
            virtio_intr_loop (upd_vd (\<lambda>d. d\<lparr>vd_used_idx := vd_used_idx d + 1\<rparr>) s))
      else Ret () s)"
  by pat_completeness auto
termination
proof (relation "measure (\<lambda>s. unat (vd_dev_idx (vdisk s) - vd_used_idx (vdisk s)))")
  fix s t :: kernel and d id b u
  assume d: "d = vdisk s" "vd_used_idx d \<noteq> vd_dev_idx d"
    and "wakeup (ChBuf b) (upd_buf b (\<lambda>q. q\<lparr>b_disk := False\<rparr>) s) = Ret u t"
  then have "vdisk t = d" using wakeup_vdisk by (auto simp: upd_buf_def)
  moreover have "unat (vd_dev_idx d - vd_used_idx d - 1) < unat (vd_dev_idx d - vd_used_idx d)"
    using d by (intro word_neq_0_decr) simp
  ultimately show "(upd_vd (\<lambda>d. d\<lparr>vd_used_idx := vd_used_idx d + 1\<rparr>) t, s)
      \<in> measure (\<lambda>s. unat (vd_dev_idx (vdisk s) - vd_used_idx (vdisk s)))"
    using d(1) by (simp add: upd_vd_def algebra_simps)
qed simp

declare virtio_intr_loop.simps [simp del]

text \<open>\<^verbatim>\<open>int_status\<close> is what the device returns for its interrupt status register.\<close>

definition virtio_disk_intr :: "u32 \<Rightarrow> kernel \<Rightarrow> unit kres" where
  "virtio_disk_intr int_status s =
     bnd (acquire VdiskLock s) (\<lambda>_ s.
     bnd (virtio_intr_loop (wreg 0x064 (int_status AND 3) s)) (\<lambda>_ s.
     release VdiskLock s))"

end
