(* ===== verification/Trap.thy ===== *)
theory Trap
  imports Sysproc Sysfile Virtio
begin

text \<open>
  System call dispatch (\<^verbatim>\<open>kernel/syscall.c\<close>), traps and interrupts
  (\<^verbatim>\<open>kernel/trap.c\<close>), the first return of a new process (\<^verbatim>\<open>forkret\<close> of
  \<^verbatim>\<open>proc.c\<close>) and \<^verbatim>\<open>kernel/main.c\<close>. What the devices present at an interrupt is
  an argument: the interrupt the PLIC hands out, and the registers the handlers read.
\<close>

unbundle bit_operations_syntax

subsection \<open>System calls\<close>

text \<open>The table indexed by system call number; entry 0 is empty.\<close>

definition syscalls :: "(kernel \<Rightarrow> u64 kres) list" where
  "syscalls = [sys_fork, sys_exit, sys_wait, sys_pipe, sys_read, sys_kill, sys_exec, sys_fstat,
     sys_chdir, sys_dup, sys_getpid, sys_sbrk, sys_pause, sys_uptime, sys_open, sys_write,
     sys_mknod, sys_unlink, sys_link, sys_mkdir, sys_close, sys_setpowermode, sys_setcpulimit,
     sys_getcputicks, sys_proccost, sys_getsyshealth, sys_setusagelimit, sys_getusagestats]"

definition upd_tf :: "nat \<Rightarrow> (trapframe \<Rightarrow> trapframe) \<Rightarrow> kernel \<Rightarrow> kernel" where
  "upd_tf p f s =
     (let a = p_trapframe (procs s p) in s\<lparr>tframes := (tframes s)(a := f (tframes s a))\<rparr>)"

definition syscall :: "kernel \<Rightarrow> unit kres" where
  "syscall s = with_proc s (\<lambda>p.
     let num = u64_to_i (tframes s (p_trapframe (procs s p)) T_a7) in
     if 0 <s num \<and> num <s 29 then
       bnd ((syscalls ! (unat num - 1)) s) (\<lambda>r s. Ret () (upd_tf p (\<lambda>tf. tf(T_a0 := r)) s))
     else
       bnd (printf (''%d %s: unknown sys call %d'' @ [CHR 0x0A])
         [VInt (i2u64 (p_pid (procs s p))), VStr (p_name (procs s p)), VInt (i2u64 num)] s) (\<lambda>_ s.
       Ret () (upd_tf p (\<lambda>tf. tf(T_a0 := -1)) s)))"

subsection \<open>Interrupts\<close>

record devices =
  dv_irq :: u32
  dv_tx_idle :: bool
  dv_input :: "u8 list"
  dv_int_status :: u32

abbreviation (input) UART0_IRQ :: u32 where "UART0_IRQ \<equiv> 10"
abbreviation (input) VIRTIO0_IRQ :: u32 where "VIRTIO0_IRQ \<equiv> 1"

definition trapinithart :: "kernel \<Rightarrow> kernel" where
  "trapinithart s = s\<lparr>csrs := (csrs s)(Stvec := ksym s Sym_kernelvec)\<rparr>"

definition charge_tick :: "kernel \<Rightarrow> kernel" where
  "charge_tick s =
     (case myproc s of
        Some p \<Rightarrow> if p_state (procs s p) = RUNNING
                  then upd_proc p (\<lambda>q. q\<lparr>p_cpu_ticks := p_cpu_ticks q + 1\<rparr>) s else s
      | None \<Rightarrow> s)"

definition clockintr :: "kernel \<Rightarrow> unit kres" where
  "clockintr s =
     bnd (if hartid s = 0 then
            bnd (acquire TicksLock s) (\<lambda>_ s.
            bnd (wakeup ChTicks (s\<lparr>ticks := ticks s + 1\<rparr>)) (\<lambda>_ s.
            release TicksLock
              (if c_proc (cpus s (hartid s)) \<noteq> None then s\<lparr>active_ticks := active_ticks s + 1\<rparr>
               else s\<lparr>idle_ticks := idle_ticks s + 1\<rparr>)))
          else Ret () s) (\<lambda>_ s.
     let s = charge_tick s in
     Ret () (s\<lparr>csrs := (csrs s)(Stimecmp := csrs s Time + 1000000)\<rparr>))"

text \<open>\<^verbatim>\<open>plic_claim\<close> returns the interrupt the PLIC presents; \<^verbatim>\<open>plic_complete\<close> writes
  it back.\<close>

definition devintr :: "devices \<Rightarrow> kernel \<Rightarrow> nat kres" where
  "devintr dv s =
     (let scause = csrs s Scause in
      if scause = 0x8000000000000009 then
        bnd (if dv_irq dv = UART0_IRQ then uartintr (dv_tx_idle dv) (dv_input dv) s
             else if dv_irq dv = VIRTIO0_IRQ then virtio_disk_intr (dv_int_status dv) s
             else if dv_irq dv \<noteq> 0 then
               printf (''unexpected interrupt irq=%d'' @ [CHR 0x0A]) [VInt (ucast (dv_irq dv))] s
             else Ret () s) (\<lambda>_ s.
        Ret 1 s)
      else if scause = 0x8000000000000005 then bnd (clockintr s) (\<lambda>_ s. Ret 2 s)
      else Ret 0 s)"

subsection \<open>Traps from user space\<close>

abbreviation (input) SSTATUS_SPP :: u64 where "SSTATUS_SPP \<equiv> 0x100"
abbreviation (input) SSTATUS_SPIE :: u64 where "SSTATUS_SPIE \<equiv> 0x20"

definition prepare_return :: "kernel \<Rightarrow> unit kres" where
  "prepare_return s = with_proc s (\<lambda>p.
     let s = intr_off s;
         s = s\<lparr>csrs := (csrs s)(Stvec := TRAMPOLINE + (ksym s Sym_uservec - ksym s Sym_trampoline))\<rparr>;
         s = upd_tf p (\<lambda>tf. tf(kernel_satp := csrs s Satp, kernel_sp := p_kstack (procs s p) + PGSIZE,
               kernel_trap := ksym s Sym_usertrap, kernel_hartid := of_nat (hartid s))) s;
         s = s\<lparr>csrs := (csrs s)(Sstatus := (csrs s Sstatus AND NOT SSTATUS_SPP) OR SSTATUS_SPIE)\<rparr>
     in Ret () (s\<lparr>csrs := (csrs s)(Sepc := tframes s (p_trapframe (procs s p)) epc)\<rparr>))"

definition return_satp :: "nat \<Rightarrow> kernel \<Rightarrow> u64 kres" where
  "return_satp p s =
     bnd (prepare_return s) (\<lambda>_ s. Ret (MAKE_SATP (p_pagetable (procs s p))) s)"

text \<open>Accounting of one timer tick, with the check of the hard CPU limit.\<close>

definition account_tick :: "nat \<Rightarrow> kernel \<Rightarrow> unit kres" where
  "account_tick p s =
     bnd (acquire (ProcLock p) s) (\<lambda>_ s.
     let s = upd_proc p (\<lambda>q. q\<lparr>p_ticks_used := p_ticks_used q + 1, p_ticks_total := p_ticks_total q + 1\<rparr>) s;
         q = procs s p in
     bnd (if p_cpu_ticks_limit q > 0 \<and> p_cpu_ticks q > p_cpu_ticks_limit q then
            bnd (printf (''process %d (%s) exceeded cpu limit (%d ticks)'' @ [CHR 0x0A])
              [VInt (i2u64 (p_pid q)), VStr (p_name q), VInt (i2u64 (ucast (p_cpu_ticks_limit q)))] s) (\<lambda>_ s.
            Ret () (upd_proc p (\<lambda>q. q\<lparr>p_killed := True\<rparr>) s))
          else Ret () s) (\<lambda>_ s.
     release (ProcLock p) s))"

text \<open>The trap is handled: the number of the device that interrupted.\<close>

definition handle_trap :: "devices \<Rightarrow> nat \<Rightarrow> kernel \<Rightarrow> nat kres" where
  "handle_trap dv p s =
     (if csrs s Scause = 8 then
        bnd (killed p s) (\<lambda>k s.
        bnd (if k then kexit (-1) s else Ret () s) (\<lambda>_ s.
        let s = intr_on (upd_tf p (\<lambda>tf. tf(epc := tf epc + 4)) s) in
        bnd (syscall s) (\<lambda>_ s. Ret 0 s)))
      else
        bnd (devintr dv s) (\<lambda>which_dev s.
        if which_dev \<noteq> 0 then Ret which_dev s
        else
          bnd (if csrs s Scause = 15 \<or> csrs s Scause = 13
               then vmfault (p_pagetable (procs s p)) (csrs s Stval) (csrs s Scause = 13) s
               else Ret 0 s) (\<lambda>mem s.
          if mem \<noteq> 0 then Ret 0 s
          else
            bnd (printf (''usertrap(): unexpected scause 0x%lx pid=%d'' @ [CHR 0x0A])
                   [VInt (csrs s Scause), VInt (i2u64 (p_pid (procs s p)))] s) (\<lambda>_ s.
            bnd (printf (''            sepc=0x%lx stval=0x%lx'' @ [CHR 0x0A])
                   [VInt (csrs s Sepc), VInt (csrs s Stval)] s) (\<lambda>_ s.
            bnd (setkilled p s) (\<lambda>_ s. Ret 0 s))))))"

definition usertrap :: "devices \<Rightarrow> kernel \<Rightarrow> u64 kres" where
  "usertrap dv s =
     (if csrs s Sstatus AND SSTATUS_SPP \<noteq> 0 then Panic ''usertrap: not from user mode''
      else
        let s = s\<lparr>csrs := (csrs s)(Stvec := ksym s Sym_kernelvec)\<rparr> in
        with_proc s (\<lambda>p.
        let s = upd_tf p (\<lambda>tf. tf(epc := csrs s Sepc)) s in
        bnd (handle_trap dv p s) (\<lambda>which_dev s.
        bnd (killed p s) (\<lambda>k s.
        bnd (if k then kexit (-1) s else Ret () s) (\<lambda>_ s.
        bnd (if which_dev = 2 then bnd (account_tick p s) (\<lambda>_ s. yield s) else Ret () s) (\<lambda>_ s.
        return_satp p s))))))"

text \<open>After the \<^verbatim>\<open>yield\<close> of a timer tick.\<close>

definition usertrap_resume :: "nat \<Rightarrow> kernel \<Rightarrow> u64 kres" where
  "usertrap_resume p s = bnd (yield_resume p s) (\<lambda>_ s. return_satp p s)"

subsection \<open>Traps from the kernel\<close>

definition kerneltrap_end :: "u64 \<Rightarrow> u64 \<Rightarrow> kernel \<Rightarrow> kernel" where
  "kerneltrap_end sepc sstatus s = s\<lparr>csrs := (csrs s)(Sepc := sepc, Sstatus := sstatus)\<rparr>"

definition kerneltrap :: "devices \<Rightarrow> kernel \<Rightarrow> unit kres" where
  "kerneltrap dv s =
     (let sepc = csrs s Sepc; sstatus = csrs s Sstatus; scause = csrs s Scause in
      if sstatus AND SSTATUS_SPP = 0 then Panic ''kerneltrap: not from supervisor mode''
      else if intr_get s then Panic ''kerneltrap: interrupts enabled''
      else
        bnd (devintr dv s) (\<lambda>which_dev s.
        if which_dev = 0 then
          bnd (printf (''scause=0x%lx sepc=0x%lx stval=0x%lx'' @ [CHR 0x0A])
                 [VInt scause, VInt (csrs s Sepc), VInt (csrs s Stval)] s) (\<lambda>_ s.
          Panic ''kerneltrap'')
        else
          bnd (if which_dev = 2 \<and> myproc s \<noteq> None then yield s else Ret () s) (\<lambda>_ s.
          Ret () (kerneltrap_end sepc sstatus s))))"

definition kerneltrap_resume :: "nat \<Rightarrow> u64 \<Rightarrow> u64 \<Rightarrow> kernel \<Rightarrow> unit kres" where
  "kerneltrap_resume p sepc sstatus s =
     bnd (yield_resume p s) (\<lambda>_ s. Ret () (kerneltrap_end sepc sstatus s))"

subsection \<open>The first process\<close>

definition init_path :: "u8 list" where
  "init_path = bytes_of ''/init''"

definition forkret :: "kernel \<Rightarrow> u64 kres" where
  "forkret s = with_proc s (\<lambda>p.
     bnd (release (ProcLock p) s) (\<lambda>_ s.
     bnd (if forkret_first s then
            bnd (fsinit ROOTDEV s) (\<lambda>_ s.
            let s = s\<lparr>forkret_first := False\<rparr> in
            bnd (kexec init_path [init_path] s) (\<lambda>r s.
            let s = upd_tf p (\<lambda>tf. tf(T_a0 := i2u64 r)) s in
            if tframes s (p_trapframe (procs s p)) T_a0 = -1 then Panic ''exec'' else Ret () s))
          else Ret () s) (\<lambda>_ s.
     return_satp p s)))"

text \<open>\<^verbatim>\<open>main\<close> on hart 0 up to the scheduler; \<^verbatim>\<open>rd\<close> are the virtio device's
  registers. The PLIC's enable registers are device configuration only.\<close>

definition boot :: "(nat \<Rightarrow> u32) \<Rightarrow> kernel \<Rightarrow> unit kres" where
  "boot rd s =
     (let s = consoleinit s in
      bnd (printf [CHR 0x0A] [] s) (\<lambda>_ s.
      bnd (printf (''xv6 kernel is booting'' @ [CHR 0x0A]) [] s) (\<lambda>_ s.
      bnd (printf [CHR 0x0A] [] s) (\<lambda>_ s.
      bnd (kinit s) (\<lambda>_ s.
      bnd (kvminit s) (\<lambda>_ s.
      let s = iinit (binit (trapinithart (procinit (kvminithart s)))) in
      bnd (virtio_disk_init rd s) (\<lambda>_ s.
      userinit s)))))))"

text \<open>\<^verbatim>\<open>main\<close> on the other harts, once hart 0 has set \<^verbatim>\<open>started\<close>.\<close>

definition boot_hart :: "kernel \<Rightarrow> unit kres" where
  "boot_hart s =
     bnd (printf (''hart %d starting'' @ [CHR 0x0A]) [VInt (of_nat (hartid s))] s) (\<lambda>_ s.
     Ret () (trapinithart (kvminithart s)))"

end
