(* ===== verification/Bio_Cache.thy ===== *)
theory Bio_Cache
  imports Bio
begin

text \<open>
  What the buffer cache promises. \<^verbatim>\<open>cabs\<close> reads out of a kernel state, per block of the
  disk, the contents a reader of the block would see, how many references its buffer has
  and whether it is locked; \<^verbatim>\<open>cache_inv\<close> is the invariant of the buffers and their list.
  The locale \<^verbatim>\<open>buffer_cache\<close> states each operation of \<^verbatim>\<open>bio.c\<close> as an update of that
  abstract cache; its interpretation shows that the code refines it. The log is verified
  against the locale.
\<close>

subsection \<open>Locks\<close>

text \<open>A process that runs with no spinlock held.\<close>

definition idle :: "kernel \<Rightarrow> bool" where
  "idle s \<longleftrightarrow> held s = {} \<and> myproc s \<noteq> None"

definition mypid :: "kernel \<Rightarrow> i32" where
  "mypid s = p_pid (procs s (the (myproc s)))"

lemma held_restore [simp]: "L \<notin> held s \<Longrightarrow> s\<lparr>held := insert L (held s) - {L}\<rparr> = s"
  by simp

lemma get_set_sl [simp]: "get_sl l (set_sl l v s) = v"
  by (cases l) simp_all

lemma set_sl_held [simp]:
  "held (set_sl l v s) = held s" "procs (set_sl l v s) = procs s" "myproc (set_sl l v s) = myproc s"
  "get_sl l (s\<lparr>held := H\<rparr>) = get_sl l s" "set_sl l v (s\<lparr>held := H\<rparr>) = (set_sl l v s)\<lparr>held := H\<rparr>"
  by (cases l; simp add: myproc_def)+

lemma acquiresleep_free:
  assumes "idle s" "\<not> sl_locked (get_sl l s)"
  shows "acquiresleep l s = Ret () (set_sl l \<lparr>sl_locked = True, sl_pid = mypid s\<rparr> s)"
  using assms by (auto simp: acquiresleep_def idle_def mypid_def)

lemma acquiresleep_blocks:
  assumes "held s = {}" "myproc s = Some p" "sl_locked (get_sl l s)"
  shows "acquiresleep l s = Switch (upd_proc p (\<lambda>q. q\<lparr>p_chan := Some (ChSleepLock l), p_state := SLEEPING\<rparr>)
    (s\<lparr>held := {ProcLock p}\<rparr>))"
  using assms by (simp add: acquiresleep_def sleep_switch [where p = p])

lemma holdingsleep_eq:
  "idle s \<Longrightarrow> holdingsleep l s = Ret (sl_locked (get_sl l s) \<and> sl_pid (get_sl l s) = mypid s) s"
  by (auto simp: holdingsleep_def idle_def mypid_def)

lemma plocks_free_idle: "held s \<subseteq> {L} \<Longrightarrow> (\<And>p. L \<noteq> ProcLock p) \<Longrightarrow> plocks_free s"
  by (auto simp: plocks_free_def)

lemma releasesleep_eq:
  assumes "idle s"
  shows "releasesleep l s = Ret () ((set_sl l \<lparr>sl_locked = False, sl_pid = 0\<rparr> s)
    \<lparr>procs := wake (ChSleepLock l) (myproc s) {..<NPROC} (procs s)\<rparr>)"
proof -
  let ?u = "(set_sl l \<lparr>sl_locked = False, sl_pid = 0\<rparr> s)\<lparr>held := {SleepLk l}\<rparr>"
  have "plocks_free ?u" by (rule plocks_free_idle [of _ "SleepLk l"]) simp_all
  from wakeup_eq [OF this] show ?thesis
    using assms by (simp add: releasesleep_def idle_def)
qed

subsection \<open>The operations as state changes\<close>

lemma disk_rw_eq:
  "idle s \<Longrightarrow> disk_rw b write s = Ret () (upd_buf b (\<lambda>q. q\<lparr>b_disk := False\<rparr>) (disk_xfer b write s))"
  by (auto simp: disk_rw_def idle_def disk_xfer_def upd_buf_def)

definition lock_buf :: "nat \<Rightarrow> kernel \<Rightarrow> kernel" where
  "lock_buf i s = set_sl (BufSL i) \<lparr>sl_locked = True, sl_pid = mypid s\<rparr> s"

lemma idle_simps [simp]:
  "idle (s\<lparr>bufs := x1\<rparr>) = idle s" "idle (s\<lparr>disk := x2\<rparr>) = idle s" "idle (s\<lparr>dwrites := x3\<rparr>) = idle s"
  "idle (s\<lparr>lru_next := x4\<rparr>) = idle s" "idle (s\<lparr>lru_prev := x5\<rparr>) = idle s" "idle (s\<lparr>klog := x6\<rparr>) = idle s"
  "idle (s\<lparr>procs := x7\<rparr>) = idle s" "idle (upd_buf i f s) = idle s" "idle (s\<lparr>uart_out := x8\<rparr>) = idle s"
  by (simp_all add: idle_def myproc_def upd_buf_def)

lemma mypid_simps [simp]:
  "mypid (s\<lparr>bufs := x1\<rparr>) = mypid s" "mypid (s\<lparr>disk := x2\<rparr>) = mypid s" "mypid (s\<lparr>dwrites := x3\<rparr>) = mypid s"
  "mypid (s\<lparr>lru_next := x4\<rparr>) = mypid s" "mypid (s\<lparr>lru_prev := x5\<rparr>) = mypid s" "mypid (s\<lparr>klog := x6\<rparr>) = mypid s"
  "mypid (upd_buf i f s) = mypid s" "mypid (s\<lparr>uart_out := x8\<rparr>) = mypid s"
  "mypid (s\<lparr>procs := wake c me ps (procs s)\<rparr>) = mypid s"
  by (simp_all add: mypid_def myproc_def upd_buf_def)

lemma idle_free [simp]: "idle s \<Longrightarrow> L \<notin> held s"
  by (simp add: idle_def)

lemma release_upd_buf [simp]:
  "L \<notin> held s \<Longrightarrow> release L (upd_buf i f (s\<lparr>held := insert L (held s)\<rparr>)) = Ret () (upd_buf i f s)"
  by (simp add: upd_buf_def)

lemma bget_hit:
  assumes "ring s ls" "idle s" "find (has_block dev b s) ls = Some i" "\<not> sl_locked (b_lock (bufs s i))"
  shows "bget dev b s = Ret i (lock_buf i (upd_buf i (\<lambda>q. q\<lparr>b_refcnt := b_refcnt q + 1\<rparr>) s))"
proof -
  have "while_option (scanning (has_block dev b s)) (lru_next s) (lru_next s BHead) = Some (Buf i)"
    using ring_scan [of "lru_next s" BHead ls "has_block dev b s"] assms by (simp add: ring_def)
  moreover have "has_block dev b (s\<lparr>held := H\<rparr>) = has_block dev b s" for H
    by (simp add: has_block_def fun_eq_iff)
  moreover have "acquiresleep (BufSL i) (upd_buf i (\<lambda>q. q\<lparr>b_refcnt := b_refcnt q + 1\<rparr>) s) =
      Ret () (lock_buf i (upd_buf i (\<lambda>q. q\<lparr>b_refcnt := b_refcnt q + 1\<rparr>) s))"
    using assms unfolding lock_buf_def by (subst acquiresleep_free) (simp_all add: upd_buf_def)
  ultimately show ?thesis
    using assms(2) by (simp add: bget_def loop_res_def)
qed

definition take_buf :: "u32 \<Rightarrow> u32 \<Rightarrow> nat \<Rightarrow> kernel \<Rightarrow> kernel" where
  "take_buf dev b i s = upd_buf i (\<lambda>q. q\<lparr>b_dev := dev, b_blockno := b, b_valid := False, b_refcnt := 1\<rparr>) s"

lemma bget_miss:
  assumes "ring s ls" "idle s" "find (has_block dev b s) ls = None"
    and "find (unused s) (rev ls) = Some i" "\<not> sl_locked (b_lock (bufs s i))"
  shows "bget dev b s = Ret i (lock_buf i (take_buf dev b i s))"
proof -
  have "while_option (scanning (has_block dev b s)) (lru_next s) (lru_next s BHead) = Some BHead"
    using ring_scan [of "lru_next s" BHead ls "has_block dev b s"] assms by (simp add: ring_def)
  moreover have "while_option (scanning (unused s)) (lru_prev s) (lru_prev s BHead) = Some (Buf i)"
    using ring_scan [of "lru_prev s" BHead "rev ls" "unused s"] assms by (simp add: ring_def)
  moreover have "has_block dev b (s\<lparr>held := H\<rparr>) = has_block dev b s" "unused (s\<lparr>held := H\<rparr>) = unused s" for H
    by (simp_all add: has_block_def unused_def fun_eq_iff)
  moreover have "acquiresleep (BufSL i) (take_buf dev b i s) = Ret () (lock_buf i (take_buf dev b i s))"
    using assms unfolding lock_buf_def by (subst acquiresleep_free) (simp_all add: take_buf_def upd_buf_def)
  ultimately show ?thesis
    using assms(2) by (simp add: bget_def loop_res_def take_buf_def)
qed

lemma bget_full:
  assumes "ring s ls" "BcacheLock \<notin> held s" "find (has_block dev b s) ls = None" "find (unused s) (rev ls) = None"
  shows "bget dev b s = Panic ''bget: no buffers''"
proof -
  have "while_option (scanning (has_block dev b s)) (lru_next s) (lru_next s BHead) = Some BHead"
    using ring_scan [of "lru_next s" BHead ls "has_block dev b s"] assms by (simp add: ring_def)
  moreover have "while_option (scanning (unused s)) (lru_prev s) (lru_prev s BHead) = Some BHead"
    using ring_scan [of "lru_prev s" BHead "rev ls" "unused s"] assms by (simp add: ring_def)
  moreover have "has_block dev b (s\<lparr>held := H\<rparr>) = has_block dev b s" "unused (s\<lparr>held := H\<rparr>) = unused s" for H
    by (simp_all add: has_block_def unused_def fun_eq_iff)
  ultimately show ?thesis
    using assms(2) by (simp add: bget_def loop_res_def)
qed

subsection \<open>The invariant of the buffers\<close>

text \<open>A valid buffer belongs to the disk, a referenced buffer is valid, a locked buffer is
  referenced, an unreferenced valid buffer agrees with the disk, and no block has two
  buffers.\<close>

definition buf_ok :: "buf \<Rightarrow> (u32 \<Rightarrow> block) \<Rightarrow> bool" where
  "buf_ok q d \<longleftrightarrow> (b_valid q \<longrightarrow> b_dev q = ROOTDEV) \<and> (b_refcnt q \<noteq> 0 \<longrightarrow> b_valid q) \<and>
     (sl_locked (b_lock q) \<longrightarrow> b_refcnt q \<noteq> 0) \<and>
     (b_valid q \<and> b_refcnt q = 0 \<longrightarrow> b_data q = d (b_blockno q))"

definition is_block :: "u32 \<Rightarrow> buf \<Rightarrow> bool" where
  "is_block b q \<longleftrightarrow> b_dev q = ROOTDEV \<and> b_blockno q = b"

definition bufs_ok :: "(nat \<Rightarrow> buf) \<Rightarrow> (u32 \<Rightarrow> block) \<Rightarrow> bool" where
  "bufs_ok B d \<longleftrightarrow> (\<forall>i < NBUF. buf_ok (B i) d) \<and>
     (\<forall>i < NBUF. \<forall>j < NBUF. \<forall>b. is_block b (B i) \<and> is_block b (B j) \<longrightarrow> i = j)"

definition cache_inv :: "kernel \<Rightarrow> bool" where
  "cache_inv s \<longleftrightarrow> bufs_ok (bufs s) (disk s) \<and> (\<exists>ls. ring s ls \<and> set ls = {..<NBUF})"

definition slot :: "(nat \<Rightarrow> buf) \<Rightarrow> u32 \<Rightarrow> nat option" where
  "slot B b = find (\<lambda>i. is_block b (B i)) [0..<NBUF]"

lemma find_unique:
  assumes "i \<in> set xs" "P i" "\<And>j. j \<in> set xs \<Longrightarrow> P j \<Longrightarrow> j = i"
  shows "find P xs = Some i"
proof (cases "find P xs")
  case None
  with assms(1,2) show ?thesis by (simp add: find_None_iff)
next
  case (Some j)
  then have "j \<in> set xs" "P j" by (auto simp: find_Some_iff)
  then have "j = i" by (rule assms(3))
  with Some show ?thesis by simp
qed

lemma find_SomeD: "find P xs = Some i \<Longrightarrow> i \<in> set xs \<and> P i"
  by (induction xs) (auto split: if_splits)

lemma bufs_ok_unique:
  "bufs_ok B d \<Longrightarrow> i < NBUF \<Longrightarrow> j < NBUF \<Longrightarrow> is_block b (B i) \<Longrightarrow> is_block b (B j) \<Longrightarrow> j = i"
  unfolding bufs_ok_def by blast

lemma slotI: "bufs_ok B d \<Longrightarrow> i < NBUF \<Longrightarrow> is_block b (B i) \<Longrightarrow> slot B b = Some i"
  unfolding slot_def by (rule find_unique) (auto dest: bufs_ok_unique)

lemma slot_SomeD: "slot B b = Some i \<Longrightarrow> i < NBUF \<and> is_block b (B i)"
  by (auto simp: slot_def find_Some_iff)

lemma slot_NoneD: "slot B b = None \<Longrightarrow> i < NBUF \<Longrightarrow> \<not> is_block b (B i)"
  by (auto simp: slot_def find_None_iff)

lemma slot_ring:
  assumes "bufs_ok (bufs s) (disk s)" "set ls = {..<NBUF}"
  shows "find (has_block ROOTDEV b s) ls = slot (bufs s) b"
proof -
  have h: "has_block ROOTDEV b s i = is_block b (bufs s i)" for i by (simp add: has_block_def is_block_def)
  show ?thesis
  proof (cases "slot (bufs s) b")
    case None
    then show ?thesis using assms(2) by (auto simp: find_None_iff h dest: slot_NoneD)
  next
    case (Some i)
    have "i \<in> set ls" "has_block ROOTDEV b s i" using slot_SomeD [OF Some] assms(2) by (auto simp: h)
    moreover have "j = i" if "j \<in> set ls" "has_block ROOTDEV b s j" for j
      using bufs_ok_unique [OF assms(1)] slot_SomeD [OF Some] that assms(2) by (auto simp: h)
    ultimately show ?thesis unfolding Some by (rule find_unique)
  qed
qed

text \<open>The abstract cache: contents, references and locks per block, the disk, and the writes
  it has seen.\<close>

record cache =
  ca_view :: "u32 \<Rightarrow> block"
  ca_refs :: "u32 \<Rightarrow> nat"
  ca_lck :: "u32 \<Rightarrow> bool"
  ca_disk :: "u32 \<Rightarrow> block"
  ca_hist :: "(u32 \<times> block) list"

definition buf_view :: "buf \<Rightarrow> (u32 \<Rightarrow> block) \<Rightarrow> u32 \<Rightarrow> block" where
  "buf_view q d b = (if b_valid q then b_data q else d b)"

definition cabs :: "kernel \<Rightarrow> cache" where
  "cabs s = \<lparr>
     ca_view = \<lambda>b. case slot (bufs s) b of None \<Rightarrow> disk s b | Some i \<Rightarrow> buf_view (bufs s i) (disk s) b,
     ca_refs = \<lambda>b. case slot (bufs s) b of None \<Rightarrow> 0 | Some i \<Rightarrow> unat (b_refcnt (bufs s i)),
     ca_lck = \<lambda>b. case slot (bufs s) b of None \<Rightarrow> False | Some i \<Rightarrow> sl_locked (b_lock (bufs s i)),
     ca_disk = disk s, ca_hist = dwrites s\<rparr>"

definition holds :: "kernel \<Rightarrow> nat \<Rightarrow> u32 \<Rightarrow> bool" where
  "holds s i b \<longleftrightarrow> i < NBUF \<and> is_block b (bufs s i) \<and> b_valid (bufs s i) \<and>
     b_refcnt (bufs s i) \<noteq> 0 \<and> b_lock (bufs s i) = \<lparr>sl_locked = True, sl_pid = mypid s\<rparr>"

text \<open>Changing one buffer.\<close>

lemma bufs_ok_upd:
  assumes "bufs_ok B d" "buf_ok q d"
    and "\<And>j b. j < NBUF \<Longrightarrow> j \<noteq> i \<Longrightarrow> is_block b q \<Longrightarrow> \<not> is_block b (B j)"
  shows "bufs_ok (B(i := q)) d"
  using assms unfolding bufs_ok_def by (auto simp: fun_upd_def)

lemma slot_upd_same:
  assumes "\<And>c. is_block c q = is_block c (B i)"
  shows "slot (B(i := q)) = slot B"
proof -
  have "(\<lambda>j. is_block b ((B(i := q)) j)) = (\<lambda>j. is_block b (B j))" for b
    using assms by (auto simp: fun_eq_iff)
  then show ?thesis by (simp add: slot_def fun_eq_iff)
qed

lemma cabs_upd_buf:
  assumes "cache_inv s" "i < NBUF" "is_block b (bufs s i)" "is_block b q"
  shows "cabs (s\<lparr>bufs := (bufs s)(i := q)\<rparr>) = (cabs s)\<lparr>
    ca_view := (ca_view (cabs s))(b := buf_view q (disk s) b),
    ca_refs := (ca_refs (cabs s))(b := unat (b_refcnt q)),
    ca_lck := (ca_lck (cabs s))(b := sl_locked (b_lock q))\<rparr>"
proof -
  have "is_block c q = is_block c (bufs s i)" for c using assms(3,4) by (auto simp: is_block_def)
  then have sl: "slot ((bufs s)(i := q)) = slot (bufs s)" by (rule slot_upd_same)
  have b: "slot (bufs s) b = Some i" using assms by (intro slotI [of _ "disk s"]) (auto simp: cache_inv_def)
  have ne: "slot (bufs s) c \<noteq> Some i" if "c \<noteq> b" for c
    using that assms(3) by (auto simp: is_block_def dest: slot_SomeD)
  then show ?thesis
    using b by (auto simp: cabs_def sl fun_eq_iff split: option.splits)
qed

lemma cache_inv_upd_buf:
  assumes "cache_inv s" "i < NBUF" "is_block b (bufs s i)" "is_block b q" "buf_ok q (disk s)"
  shows "cache_inv (s\<lparr>bufs := (bufs s)(i := q)\<rparr>)"
proof -
  have "bufs_ok ((bufs s)(i := q)) (disk s)"
  proof (rule bufs_ok_upd)
    show "bufs_ok (bufs s) (disk s)" using assms(1) by (simp add: cache_inv_def)
    fix j c assume "j < NBUF" "j \<noteq> i" "is_block c q"
    then have "c = b" using assms(4) by (simp add: is_block_def)
    then show "\<not> is_block c (bufs s j)"
      using assms(1,2,3) \<open>j < NBUF\<close> \<open>j \<noteq> i\<close> bufs_ok_unique by (auto simp: cache_inv_def)
  qed (rule assms(5))
  then show ?thesis using assms(1) by (simp add: cache_inv_def ring_def)
qed

text \<open>Giving an unreferenced buffer to another block.\<close>

lemma evict:
  assumes inv: "cache_inv s" and i: "i < NBUF" "b_refcnt (bufs s i) = 0"
    and miss: "slot (bufs s) b = None"
    and q: "is_block b q" "buf_ok q (disk s)" "buf_view q (disk s) b = disk s b"
  shows "cache_inv (s\<lparr>bufs := (bufs s)(i := q)\<rparr>)"
    and "cabs (s\<lparr>bufs := (bufs s)(i := q)\<rparr>) = (cabs s)\<lparr>
      ca_refs := (ca_refs (cabs s))(b := unat (b_refcnt q)),
      ca_lck := (ca_lck (cabs s))(b := sl_locked (b_lock q))\<rparr>"
proof -
  let ?B = "(bufs s)(i := q)"
  have ok: "bufs_ok (bufs s) (disk s)" using inv by (simp add: cache_inv_def)
  have bi: "buf_ok (bufs s i) (disk s)" using ok i by (simp add: bufs_ok_def)
  have ok': "bufs_ok ?B (disk s)"
  proof (rule bufs_ok_upd [OF ok q(2)])
    fix j c assume "j < NBUF" "is_block c q"
    then have "c = b" using q(1) by (simp add: is_block_def)
    then show "\<not> is_block c (bufs s j)" using slot_NoneD [OF miss \<open>j < NBUF\<close>] by simp
  qed
  then show "cache_inv (s\<lparr>bufs := ?B\<rparr>)" using inv by (simp add: cache_inv_def ring_def)
  have sb: "slot ?B b = Some i" using slotI [OF ok' i(1)] q(1) by simp
  have sc: "slot ?B c = (if slot (bufs s) c = Some i then None else slot (bufs s) c)" if "c \<noteq> b" for c
  proof -
    have nq: "\<not> is_block c q" using q(1) that by (auto simp: is_block_def)
    show ?thesis
    proof (cases "slot (bufs s) c")
      case None
      then have "slot ?B c = None" using nq slot_NoneD [OF None] by (auto simp: slot_def find_None_iff)
      with None show ?thesis by simp
    next
      case (Some j)
      note j = slot_SomeD [OF Some]
      show ?thesis
      proof (cases "j = i")
        case True
        have "\<not> is_block c (?B k)" if "k < NBUF" for k
          using bufs_ok_unique [OF ok i(1) that] j True nq by auto
        then show ?thesis using True Some by (auto simp: slot_def find_None_iff)
      next
        case False
        then have "slot ?B c = Some j" using slotI [OF ok', of j c] j by simp
        then show ?thesis using Some False by simp
      qed
    qed
  qed
  have old: "buf_view (bufs s i) (disk s) c = disk s c \<and> \<not> sl_locked (b_lock (bufs s i))"
    if "slot (bufs s) c = Some i" for c
    using slot_SomeD [OF that] bi i(2) by (auto simp: buf_ok_def buf_view_def is_block_def)
  have v: "ca_view (cabs (s\<lparr>bufs := ?B\<rparr>)) c = ca_view (cabs s) c" for c
    using sb sc [of c] old [of c] miss q(3)
    by (cases "c = b") (auto simp: cabs_def split: option.splits)
  have r: "ca_refs (cabs (s\<lparr>bufs := ?B\<rparr>)) c = ((ca_refs (cabs s))(b := unat (b_refcnt q))) c" for c
    using sb sc [of c] i(2) by (cases "c = b") (auto simp: cabs_def split: option.splits)
  have l: "ca_lck (cabs (s\<lparr>bufs := ?B\<rparr>)) c = ((ca_lck (cabs s))(b := sl_locked (b_lock q))) c" for c
    using sb sc [of c] old [of c] by (cases "c = b") (auto simp: cabs_def split: option.splits)
  have d: "ca_disk (cabs (s\<lparr>bufs := ?B\<rparr>)) = ca_disk (cabs s)" "ca_hist (cabs (s\<lparr>bufs := ?B\<rparr>)) = ca_hist (cabs s)"
    by (simp_all add: cabs_def)
  show "cabs (s\<lparr>bufs := ?B\<rparr>) = (cabs s)\<lparr>
      ca_refs := (ca_refs (cabs s))(b := unat (b_refcnt q)),
      ca_lck := (ca_lck (cabs s))(b := sl_locked (b_lock q))\<rparr>"
    by (rule cache.equality) (simp_all add: fun_eq_iff v r l d)
qed

text \<open>While fewer blocks are referenced than there are buffers, some buffer is unused.\<close>

lemma room:
  assumes "cache_inv s" "card {c. ca_refs (cabs s) c \<noteq> 0} < NBUF"
  shows "\<exists>i < NBUF. b_refcnt (bufs s i) = 0"
proof (rule ccontr)
  assume a: "\<not> ?thesis"
  have ok: "bufs_ok (bufs s) (disk s)" using assms(1) by (simp add: cache_inv_def)
  have blk: "is_block (b_blockno (bufs s i)) (bufs s i)" if "i < NBUF" for i
    using ok a that by (auto simp: bufs_ok_def buf_ok_def is_block_def)
  have "inj_on (\<lambda>i. b_blockno (bufs s i)) {..<NBUF}"
    by (rule inj_onI) (metis blk bufs_ok_unique [OF ok] lessThan_iff)
  then have "card ((\<lambda>i. b_blockno (bufs s i)) ` {..<NBUF}) = NBUF" by (simp add: card_image)
  moreover have "(\<lambda>i. b_blockno (bufs s i)) ` {..<NBUF} \<subseteq> {c. ca_refs (cabs s) c \<noteq> 0}"
  proof
    fix c assume "c \<in> (\<lambda>i. b_blockno (bufs s i)) ` {..<NBUF}"
    then obtain i where i: "i < NBUF" "c = b_blockno (bufs s i)" by auto
    then have "slot (bufs s) c = Some i" using slotI [OF ok i(1)] blk by simp
    then show "c \<in> {c. ca_refs (cabs s) c \<noteq> 0}" using a i by (auto simp: cabs_def unat_gt_0)
  qed
  ultimately have "NBUF \<le> card {c. ca_refs (cabs s) c \<noteq> 0}"
    by (metis card_mono finite)
  with assms(2) show False by simp
qed

subsection \<open>What an operation may touch\<close>

definition bframe :: "kernel \<Rightarrow> kernel \<Rightarrow> bool" where
  "bframe s t \<longleftrightarrow> (\<exists>B n v d h w. t = s\<lparr>bufs := B, lru_next := n, lru_prev := v, disk := d, dwrites := h, procs := w\<rparr> \<and>
     (\<forall>p. p_pid (w p) = p_pid (procs s p)))"

lemma bframeI:
  "t = s\<lparr>bufs := B, lru_next := n, lru_prev := v, disk := d, dwrites := h, procs := w\<rparr> \<Longrightarrow>
   (\<And>p. p_pid (w p) = p_pid (procs s p)) \<Longrightarrow> bframe s t"
  unfolding bframe_def by blast

lemma bframe_refl [simp]: "bframe s s"
  by (rule bframeI [where B = "bufs s" and n = "lru_next s" and v = "lru_prev s" and d = "disk s" and h = "dwrites s" and w = "procs s"]) simp_all

lemma bframe_trans:
  assumes "bframe s t" "bframe t u"
  shows "bframe s u"
proof -
  obtain B n v d h w where t: "t = s\<lparr>bufs := B, lru_next := n, lru_prev := v, disk := d, dwrites := h, procs := w\<rparr>"
    and w: "\<And>p. p_pid (w p) = p_pid (procs s p)" using assms(1) unfolding bframe_def by blast
  obtain B' n' v' d' h' w' where u: "u = t\<lparr>bufs := B', lru_next := n', lru_prev := v', disk := d', dwrites := h', procs := w'\<rparr>"
    and w': "\<And>p. p_pid (w' p) = p_pid (procs t p)" using assms(2) unfolding bframe_def by blast
  show ?thesis
    by (rule bframeI [where B = B' and n = n' and v = v' and d = d' and h = h' and w = w'])
      (simp_all add: t u w w')
qed

lemma bframe_mypid: "bframe s t \<Longrightarrow> mypid t = mypid s"
  by (auto simp: bframe_def mypid_def myproc_def)

lemma bframe_simps:
  "bframe s t \<Longrightarrow> klog t = klog s" "bframe s t \<Longrightarrow> sb t = sb s" "bframe s t \<Longrightarrow> held t = held s"
  "bframe s t \<Longrightarrow> myproc t = myproc s" "bframe s t \<Longrightarrow> idle t = idle s" "bframe s t \<Longrightarrow> inodes t = inodes s"
  by (auto simp: bframe_def idle_def myproc_def)

lemma bframe_bufs [simp]: "bframe s (s\<lparr>bufs := B\<rparr>)"
  by (rule bframeI [where B = B and n = "lru_next s" and v = "lru_prev s" and d = "disk s" and h = "dwrites s" and w = "procs s"]) simp_all

lemma bframe_upd_buf [simp]: "bframe s (upd_buf i f s)"
  by (simp add: upd_buf_def)

subsection \<open>The abstract operations\<close>

definition a_read :: "u32 \<Rightarrow> cache \<Rightarrow> cache" where
  "a_read b c = c\<lparr>ca_refs := (ca_refs c)(b := ca_refs c b + 1), ca_lck := (ca_lck c)(b := True)\<rparr>"

definition a_set :: "u32 \<Rightarrow> block \<Rightarrow> cache \<Rightarrow> cache" where
  "a_set b d c = c\<lparr>ca_view := (ca_view c)(b := d)\<rparr>"

definition a_write :: "u32 \<Rightarrow> cache \<Rightarrow> cache" where
  "a_write b c = c\<lparr>ca_disk := (ca_disk c)(b := ca_view c b), ca_hist := ca_hist c @ [(b, ca_view c b)]\<rparr>"

definition a_rel :: "u32 \<Rightarrow> cache \<Rightarrow> cache" where
  "a_rel b c = c\<lparr>ca_refs := (ca_refs c)(b := ca_refs c b - 1), ca_lck := (ca_lck c)(b := False)\<rparr>"

definition a_pin :: "u32 \<Rightarrow> cache \<Rightarrow> cache" where
  "a_pin b c = c\<lparr>ca_refs := (ca_refs c)(b := ca_refs c b + 1)\<rparr>"

definition a_unpin :: "u32 \<Rightarrow> cache \<Rightarrow> cache" where
  "a_unpin b c = c\<lparr>ca_refs := (ca_refs c)(b := ca_refs c b - 1)\<rparr>"

text \<open>A block can be brought in if it has a buffer in use already or some buffer is unused.\<close>

definition can_get :: "u32 \<Rightarrow> cache \<Rightarrow> bool" where
  "can_get b c \<longleftrightarrow> \<not> ca_lck c b \<and> ca_refs c b + 1 < 2 ^ 32 \<and>
     (ca_refs c b \<noteq> 0 \<or> card {x. ca_refs c x \<noteq> 0} < NBUF)"

lemma holds_slot: "cache_inv s \<Longrightarrow> holds s i b \<Longrightarrow> slot (bufs s) b = Some i"
  by (rule slotI [of _ "disk s"]) (auto simp: holds_def cache_inv_def)

lemma holds_abs:
  assumes "cache_inv s" "holds s i b"
  shows "b_data (bufs s i) = ca_view (cabs s) b" "unat (b_refcnt (bufs s i)) = ca_refs (cabs s) b"
    "ca_lck (cabs s) b" "b_blockno (bufs s i) = b" "b_dev (bufs s i) = ROOTDEV"
  using assms holds_slot [OF assms] by (auto simp: cabs_def holds_def buf_view_def is_block_def)

lemma holds_upd_other:
  "holds s j c \<Longrightarrow> j \<noteq> i \<Longrightarrow> mypid t = mypid s \<Longrightarrow> bufs t = (bufs s)(i := q) \<Longrightarrow> holds t j c"
  by (simp add: holds_def)

text \<open>The two outcomes of \<^verbatim>\<open>bread\<close>.\<close>

definition got_buf :: "u32 \<Rightarrow> buf \<Rightarrow> i32 \<Rightarrow> (u32 \<Rightarrow> block) \<Rightarrow> buf" where
  "got_buf b q pid d = (let q' = q\<lparr>b_dev := ROOTDEV, b_blockno := b, b_lock := \<lparr>sl_locked = True, sl_pid = pid\<rparr>\<rparr> in
     if b_valid q then q' else q'\<lparr>b_data := d b, b_disk := False, b_valid := True\<rparr>)"

lemma bread_hit:
  assumes "cache_inv s" "idle s" "slot (bufs s) b = Some i" "\<not> ca_lck (cabs s) b"
  shows "bread ROOTDEV b s = Ret i (s\<lparr>bufs := (bufs s)(i :=
    (got_buf b (bufs s i) (mypid s) (disk s))\<lparr>b_refcnt := b_refcnt (bufs s i) + 1\<rparr>)\<rparr>)"
proof -
  obtain ls where ls: "ring s ls" "set ls = {..<NBUF}" using assms(1) by (auto simp: cache_inv_def)
  then have f: "find (has_block ROOTDEV b s) ls = Some i"
    using assms(1,3) slot_ring by (auto simp: cache_inv_def)
  have blk: "b_dev (bufs s i) = ROOTDEV" "b_blockno (bufs s i) = b"
    using slot_SomeD [OF assms(3)] by (auto simp: is_block_def)
  have "\<not> sl_locked (b_lock (bufs s i))" using assms(3,4) by (simp add: cabs_def)
  from bget_hit [OF ls(1) assms(2) f this] show ?thesis
    using assms(2) blk
    by (cases "bufs s i") (auto simp: bread_def lock_buf_def upd_buf_def disk_rw_eq disk_xfer_def got_buf_def)
qed

lemma bread_miss:
  assumes "cache_inv s" "idle s" "slot (bufs s) b = None" "card {c. ca_refs (cabs s) c \<noteq> 0} < NBUF"
  obtains i where "i < NBUF" "b_refcnt (bufs s i) = 0"
    "bread ROOTDEV b s = Ret i (s\<lparr>bufs := (bufs s)(i :=
       (got_buf b ((bufs s i)\<lparr>b_valid := False\<rparr>) (mypid s) (disk s))\<lparr>b_refcnt := 1\<rparr>)\<rparr>)"
proof -
  obtain ls where ls: "ring s ls" "set ls = {..<NBUF}" using assms(1) by (auto simp: cache_inv_def)
  then have f: "find (has_block ROOTDEV b s) ls = None"
    using assms(1,3) slot_ring by (auto simp: cache_inv_def)
  obtain k where "k \<in> set (rev ls)" "unused s k" using room [OF assms(1,4)] ls(2) by (auto simp: unused_def)
  then obtain i where i: "find (unused s) (rev ls) = Some i"
    by (cases "find (unused s) (rev ls)") (auto simp: find_None_iff)
  then have i': "i < NBUF" "b_refcnt (bufs s i) = 0" using ls(2) find_SomeD [OF i] by (auto simp: unused_def)
  then have "\<not> sl_locked (b_lock (bufs s i))"
    using assms(1) by (auto simp: cache_inv_def bufs_ok_def buf_ok_def)
  from bget_miss [OF ls(1) assms(2) f i this]
  have "bread ROOTDEV b s = Ret i (s\<lparr>bufs := (bufs s)(i :=
       (got_buf b ((bufs s i)\<lparr>b_valid := False\<rparr>) (mypid s) (disk s))\<lparr>b_refcnt := 1\<rparr>)\<rparr>)"
    using assms(2)
    by (cases "bufs s i") (auto simp: bread_def take_buf_def lock_buf_def upd_buf_def disk_rw_eq disk_xfer_def got_buf_def)
  with i' show ?thesis by (rule that)
qed

subsection \<open>The operations refine the abstract cache\<close>

definition cstep :: "kernel \<Rightarrow> kernel \<Rightarrow> cache \<Rightarrow> bool" where
  "cstep s t c \<longleftrightarrow> cache_inv t \<and> bframe s t \<and> cabs t = c"

definition keeps :: "kernel \<Rightarrow> kernel \<Rightarrow> bool" where
  "keeps s t \<longleftrightarrow> (\<forall>j c. holds s j c \<longrightarrow> holds t j c)"

lemma unat_incr:
  assumes "unat (w :: u32) + 1 < 2 ^ 32"
  shows "unat (w + 1) = unat w + 1 \<and> w + 1 \<noteq> 0"
proof -
  have u: "unat (w + 1) = unat w + 1" using assms by (subst unat_add_lem [THEN iffD1]) auto
  moreover have "w + 1 \<noteq> 0"
  proof
    assume "w + 1 = 0"
    with u show False by simp
  qed
  ultimately show ?thesis by simp
qed

lemma unat_decr: "(w :: u32) \<noteq> 0 \<Longrightarrow> unat (w - 1) = unat w - 1"
  by unat_arith

text \<open>Changing a buffer in place: its block's entries change accordingly.\<close>

lemma upd_step:
  assumes "cache_inv s" "i < NBUF" "is_block b (bufs s i)" "is_block b q" "buf_ok q (disk s)"
    and "buf_view q (disk s) b = v" "unat (b_refcnt q) = r" "sl_locked (b_lock q) = l"
  shows "cstep s (s\<lparr>bufs := (bufs s)(i := q)\<rparr>) ((cabs s)\<lparr>ca_view := (ca_view (cabs s))(b := v),
    ca_refs := (ca_refs (cabs s))(b := r), ca_lck := (ca_lck (cabs s))(b := l)\<rparr>)"
  unfolding cstep_def
  using cache_inv_upd_buf [OF assms(1-5)] cabs_upd_buf [OF assms(1-4)] assms(6-8) by simp

lemma bread_spec:
  assumes "cache_inv s" "idle s" "can_get b (cabs s)"
  shows "returns (bread ROOTDEV b s) (\<lambda>i t. cstep s t (a_read b (cabs s)) \<and> holds t i b \<and> keeps s t)"
proof (cases "slot (bufs s) b")
  case (Some i)
  note i = slot_SomeD [OF Some]
  let ?q = "(got_buf b (bufs s i) (mypid s) (disk s))\<lparr>b_refcnt := b_refcnt (bufs s i) + 1\<rparr>"
  let ?t = "s\<lparr>bufs := (bufs s)(i := ?q)\<rparr>"
  have l: "\<not> ca_lck (cabs s) b" and "ca_refs (cabs s) b + 1 < 2 ^ 32"
    using assms(3) by (auto simp: can_get_def)
  then have r: "unat (b_refcnt (bufs s i) + 1) = ca_refs (cabs s) b + 1" "b_refcnt (bufs s i) + 1 \<noteq> 0"
    using Some unat_incr [of "b_refcnt (bufs s i)"] by (simp_all add: cabs_def)
  have q: "is_block b ?q" "buf_ok ?q (disk s)" "buf_view ?q (disk s) b = ca_view (cabs s) b" "sl_locked (b_lock ?q)"
    using Some i r by (auto simp: is_block_def got_buf_def buf_ok_def buf_view_def cabs_def Let_def)
  have "cstep s ?t (a_read b (cabs s))"
    using upd_step [OF assms(1) _ _ q(1,2,3)] i r q(4) by (simp add: a_read_def)
  moreover have "holds ?t i b"
    using i r by (auto simp: holds_def is_block_def got_buf_def Let_def)
  moreover have "keeps s ?t"
  proof (unfold keeps_def, intro allI impI)
    fix j c assume h: "holds s j c"
    have "j \<noteq> i" using h l Some by (auto simp: holds_def cabs_def)
    with h show "holds ?t j c" by (rule holds_upd_other) simp_all
  qed
  ultimately show ?thesis using bread_hit [OF assms(1,2) Some l] by simp
next
  case None
  then have "card {c. ca_refs (cabs s) c \<noteq> 0} < NBUF"
    using assms(3) by (simp add: can_get_def cabs_def)
  then obtain i where i: "i < NBUF" "b_refcnt (bufs s i) = 0"
    and eq: "bread ROOTDEV b s = Ret i (s\<lparr>bufs := (bufs s)(i :=
       (got_buf b ((bufs s i)\<lparr>b_valid := False\<rparr>) (mypid s) (disk s))\<lparr>b_refcnt := 1\<rparr>)\<rparr>)"
    using bread_miss [OF assms(1,2) None] by metis
  let ?q = "(got_buf b ((bufs s i)\<lparr>b_valid := False\<rparr>) (mypid s) (disk s))\<lparr>b_refcnt := 1\<rparr>"
  let ?t = "s\<lparr>bufs := (bufs s)(i := ?q)\<rparr>"
  have q: "is_block b ?q" "buf_ok ?q (disk s)" "buf_view ?q (disk s) b = disk s b" "sl_locked (b_lock ?q)"
    "b_refcnt ?q = 1"
    by (auto simp: is_block_def got_buf_def buf_ok_def buf_view_def Let_def)
  have "ca_refs (cabs s) b = 0" using None by (simp add: cabs_def)
  then have "cstep s ?t (a_read b (cabs s))"
    using evict [OF assms(1) i None q(1-3)] q(4,5) by (simp add: cstep_def a_read_def)
  moreover have "holds ?t i b" using i q by (auto simp: holds_def got_buf_def Let_def)
  moreover have "keeps s ?t"
  proof (unfold keeps_def, intro allI impI)
    fix j c assume h: "holds s j c"
    have "j \<noteq> i" using h i by (auto simp: holds_def)
    with h show "holds ?t j c" by (rule holds_upd_other) simp_all
  qed
  ultimately show ?thesis using eq by simp
qed

text \<open>Changes by the holder of the buffer.\<close>

lemma holder_step:
  assumes "cache_inv s" "holds s i b" "is_block b q" "b_valid q" "b_refcnt q \<noteq> 0"
    and "b_lock q = b_lock (bufs s i)"
  shows "cstep s (s\<lparr>bufs := (bufs s)(i := q)\<rparr>) ((cabs s)\<lparr>ca_view := (ca_view (cabs s))(b := b_data q),
      ca_refs := (ca_refs (cabs s))(b := unat (b_refcnt q))\<rparr>) \<and>
    holds (s\<lparr>bufs := (bufs s)(i := q)\<rparr>) i b \<and> keeps s (s\<lparr>bufs := (bufs s)(i := q)\<rparr>)"
proof -
  have h: "i < NBUF" "is_block b (bufs s i)" "sl_locked (b_lock (bufs s i))" using assms(2) by (auto simp: holds_def)
  have l: "ca_lck (cabs s) b" using holds_abs [OF assms(1,2)] by simp
  have "buf_ok q (disk s)" using assms(3-5) by (simp add: buf_ok_def is_block_def)
  then have "cstep s (s\<lparr>bufs := (bufs s)(i := q)\<rparr>) ((cabs s)\<lparr>ca_view := (ca_view (cabs s))(b := b_data q),
      ca_refs := (ca_refs (cabs s))(b := unat (b_refcnt q))\<rparr>)"
    using upd_step [OF assms(1) h(1,2) assms(3)] assms(4,6) h(3) l by (simp add: buf_view_def fun_upd_idem)
  moreover have "holds (s\<lparr>bufs := (bufs s)(i := q)\<rparr>) i b"
    using assms by (simp add: holds_def)
  moreover have "keeps s (s\<lparr>bufs := (bufs s)(i := q)\<rparr>)"
  proof (unfold keeps_def, intro allI impI)
    fix j c assume j: "holds s j c"
    show "holds (s\<lparr>bufs := (bufs s)(i := q)\<rparr>) j c"
    proof (cases "j = i")
      case True
      with j assms(2) have "c = b" by (simp add: holds_def is_block_def)
      with True \<open>holds (s\<lparr>bufs := (bufs s)(i := q)\<rparr>) i b\<close> show ?thesis by simp
    next
      case False
      with j show ?thesis by (rule holds_upd_other) simp_all
    qed
  qed
  ultimately show ?thesis by simp
qed

lemma cstep_trans: "cstep s t c \<Longrightarrow> cstep t u c' \<Longrightarrow> cstep s u c'"
  by (auto simp: cstep_def intro: bframe_trans)

lemma keeps_trans: "keeps s t \<Longrightarrow> keeps t u \<Longrightarrow> keeps s u"
  by (auto simp: keeps_def)

lemma keeps_refl [simp]: "keeps s s"
  by (simp add: keeps_def)

lemma cstepD: "cstep s t c \<Longrightarrow> cache_inv t" "cstep s t c \<Longrightarrow> cabs t = c" "cstep s t c \<Longrightarrow> bframe s t"
  by (simp_all add: cstep_def)

lemma cstep_idle: "cstep s t c \<Longrightarrow> idle t = idle s"
  by (simp add: cstep_def bframe_simps)

lemma set_data_spec:
  assumes "cache_inv s" "holds s i b"
  shows "cstep s (upd_buf i (\<lambda>q. q\<lparr>b_data := d\<rparr>) s) (a_set b d (cabs s)) \<and>
    holds (upd_buf i (\<lambda>q. q\<lparr>b_data := d\<rparr>) s) i b \<and> keeps s (upd_buf i (\<lambda>q. q\<lparr>b_data := d\<rparr>) s)"
proof -
  let ?q = "(bufs s i)\<lparr>b_data := d\<rparr>"
  have "is_block b ?q" "b_valid ?q" "b_refcnt ?q \<noteq> 0" "b_lock ?q = b_lock (bufs s i)"
    using assms(2) by (auto simp: holds_def is_block_def)
  from holder_step [OF assms this] holds_abs [OF assms] show ?thesis
    by (simp add: upd_buf_def a_set_def fun_upd_idem)
qed

lemma disk_write_step:
  assumes inv: "cache_inv s" and h: "holds s i b"
  defines "t \<equiv> s\<lparr>disk := (disk s)(b := b_data (bufs s i)), dwrites := dwrites s @ [(b, b_data (bufs s i))]\<rparr>"
  shows "cstep s t (a_write b (cabs s)) \<and> (\<forall>j c. holds t j c = holds s j c)"
proof -
  have ok: "bufs_ok (bufs s) (disk s)" using inv by (simp add: cache_inv_def)
  have i: "i < NBUF" "is_block b (bufs s i)" "b_valid (bufs s i)" "b_refcnt (bufs s i) \<noteq> 0"
    using h by (auto simp: holds_def)
  have "buf_ok (bufs s j) (disk t)" if "j < NBUF" for j
  proof -
    have j: "buf_ok (bufs s j) (disk s)" using ok that by (simp add: bufs_ok_def)
    have "b_blockno (bufs s j) \<noteq> b" if "b_valid (bufs s j)" "b_refcnt (bufs s j) = 0"
    proof
      assume "b_blockno (bufs s j) = b"
      then have "is_block b (bufs s j)" using j that by (simp add: buf_ok_def is_block_def)
      then have "j = i" using bufs_ok_unique [OF ok i(1) \<open>j < NBUF\<close> i(2)] by simp
      with that(2) i(4) show False by simp
    qed
    with j show ?thesis by (auto simp: buf_ok_def t_def)
  qed
  then have inv': "cache_inv t" using inv by (auto simp: cache_inv_def bufs_ok_def ring_def t_def)
  have sl: "slot (bufs s) b = Some i" by (rule holds_slot [OF inv h])
  have v: "ca_view (cabs t) = ca_view (cabs s)"
  proof
    fix c show "ca_view (cabs t) c = ca_view (cabs s) c"
      using sl i(3) by (cases "c = b") (auto simp: cabs_def t_def buf_view_def split: option.splits)
  qed
  have r: "ca_refs (cabs t) = ca_refs (cabs s)" "ca_lck (cabs t) = ca_lck (cabs s)"
    by (auto simp: cabs_def t_def fun_eq_iff split: option.splits)
  have "b_data (bufs s i) = ca_view (cabs s) b" using holds_abs(1) [OF inv h] .
  then have d: "ca_disk (cabs t) = (ca_disk (cabs s))(b := ca_view (cabs s) b)"
    "ca_hist (cabs t) = ca_hist (cabs s) @ [(b, ca_view (cabs s) b)]"
    unfolding t_def by (simp_all add: cabs_def)
  have "cabs t = a_write b (cabs s)"
    by (rule cache.equality) (simp_all add: v r d a_write_def)
  moreover have "bframe s t"
    by (rule bframeI [where B = "bufs s" and n = "lru_next s" and v = "lru_prev s" and w = "procs s"
        and d = "disk t" and h = "dwrites t"]) (simp_all add: t_def)
  moreover have "holds t j c = holds s j c" for j c by (simp add: holds_def t_def)
  ultimately show ?thesis using inv' by (simp add: cstep_def)
qed

lemma bwrite_spec:
  assumes "cache_inv s" "idle s" "holds s i b"
  shows "returns (bwrite i s) (\<lambda>_ t. cstep s t (a_write b (cabs s)) \<and> holds t i b \<and> keeps s t)"
proof -
  let ?t = "s\<lparr>disk := (disk s)(b := b_data (bufs s i)), dwrites := dwrites s @ [(b, b_data (bufs s i))]\<rparr>"
  let ?u = "?t\<lparr>bufs := (bufs ?t)(i := (bufs ?t i)\<lparr>b_disk := False\<rparr>)\<rparr>"
  have t: "cstep s ?t (a_write b (cabs s))" "\<And>j c. holds ?t j c = holds s j c"
    using disk_write_step [OF assms(1,3)] by auto
  have ht: "holds ?t i b" and inv: "cache_inv ?t" using t assms(3) by (auto simp: cstep_def)
  have "is_block b ((bufs ?t i)\<lparr>b_disk := False\<rparr>)" "b_valid ((bufs ?t i)\<lparr>b_disk := False\<rparr>)"
    "b_refcnt ((bufs ?t i)\<lparr>b_disk := False\<rparr>) \<noteq> 0" "b_lock ((bufs ?t i)\<lparr>b_disk := False\<rparr>) = b_lock (bufs ?t i)"
    using assms(3) by (auto simp: holds_def is_block_def)
  note u = holder_step [OF inv ht this]
  have "cabs ?t = a_write b (cabs s)" using t(1) by (rule cstepD)
  moreover have "ca_view (cabs ?t) b = b_data (bufs ?t i)" "ca_refs (cabs ?t) b = unat (b_refcnt (bufs ?t i))"
    using holds_abs [OF inv ht] by simp_all
  ultimately have "cstep ?t ?u (a_write b (cabs s))"
    using u by (simp add: fun_upd_idem)
  with t(1) have "cstep s ?u (a_write b (cabs s))" by (rule cstep_trans)
  moreover have "keeps s ?u" "holds ?u i b" using u t(2) by (auto simp: keeps_def)
  moreover have "bwrite i s = Ret () ?u"
    using assms holds_abs [OF assms(1,3)]
    by (simp add: bwrite_def holdingsleep_eq holds_def disk_rw_eq disk_xfer_def upd_buf_def)
  ultimately show ?thesis by simp
qed

lemma lru_front_fields:
  "\<exists>n v. lru_front i s = s\<lparr>lru_next := n, lru_prev := v\<rparr>"
  unfolding lru_front_def Let_def
  by (rule exI [of _ "lru_next (lru_front i s)"], rule exI [of _ "lru_prev (lru_front i s)"])
    (simp add: lru_front_def Let_def)

lemma cabs_other [simp]:
  "cabs (s\<lparr>procs := w\<rparr>) = cabs s" "cabs (s\<lparr>klog := l\<rparr>) = cabs s" "cabs (s\<lparr>lru_next := n, lru_prev := v\<rparr>) = cabs s"
  "cabs (s\<lparr>uart_out := x\<rparr>) = cabs s"
  by (simp_all add: cabs_def cong: option.case_cong)

lemma cache_inv_other [simp]:
  "cache_inv (s\<lparr>procs := w\<rparr>) = cache_inv s" "cache_inv (s\<lparr>klog := l\<rparr>) = cache_inv s"
  "cache_inv (s\<lparr>uart_out := x\<rparr>) = cache_inv s"
  by (simp_all add: cache_inv_def ring_def)

lemma lru_front_step:
  assumes "cache_inv s" "i < NBUF"
  shows "cstep s (lru_front i s) (cabs s)" "holds (lru_front i s) j c = holds s j c"
proof -
  obtain n v where eq: "lru_front i s = s\<lparr>lru_next := n, lru_prev := v\<rparr>" using lru_front_fields by blast
  obtain ls where ls: "ring s ls" "set ls = {..<NBUF}" using assms(1) by (auto simp: cache_inv_def)
  then obtain xs ys where xy: "ls = xs @ i # ys" using assms(2) split_list [of i ls] by auto
  then have "ring (lru_front i s) (i # xs @ ys)" "set (i # xs @ ys) = {..<NBUF}"
    using ring_front ls by auto
  moreover have "bufs_ok (bufs (lru_front i s)) (disk (lru_front i s))"
    using assms(1) by (simp add: eq cache_inv_def)
  ultimately have "cache_inv (lru_front i s)" unfolding cache_inv_def by blast
  moreover have "bframe s (lru_front i s)" unfolding eq
    by (rule bframeI [where B = "bufs s" and n = n and v = v and d = "disk s" and h = "dwrites s" and w = "procs s"]) simp_all
  ultimately show "cstep s (lru_front i s) (cabs s)" by (simp add: cstep_def eq)
  show "holds (lru_front i s) j c = holds s j c" by (simp add: eq holds_def)
qed

lemma brelse_spec:
  assumes inv: "cache_inv s" and id: "idle s" and h: "holds s i b"
    and clean: "ca_refs (cabs s) b > 1 \<or> ca_view (cabs s) b = ca_disk (cabs s) b"
  shows "returns (brelse i s) (\<lambda>_ t. cstep s t (a_rel b (cabs s)) \<and>
    (\<forall>j c. holds s j c \<and> c \<noteq> b \<longrightarrow> holds t j c))"
proof -
  let ?q = "(bufs s i)\<lparr>b_lock := \<lparr>sl_locked = False, sl_pid = 0\<rparr>, b_refcnt := b_refcnt (bufs s i) - 1\<rparr>"
  let ?w = "wake (ChSleepLock (BufSL i)) (myproc s) {..<NPROC} (procs s)"
  define u where "u = s\<lparr>bufs := (bufs s)(i := ?q)\<rparr>"
  define v where "v = u\<lparr>procs := ?w\<rparr>"
  have i: "i < NBUF" "is_block b (bufs s i)" "b_valid (bufs s i)" "b_refcnt (bufs s i) \<noteq> 0"
    using h by (auto simp: holds_def)
  note a = holds_abs [OF inv h]
  have d: "ca_disk (cabs s) = disk s" by (simp add: cabs_def)
  have "unat (b_refcnt ?q) = ca_refs (cabs s) b - 1" using unat_decr [OF i(4)] a by simp
  moreover have "buf_ok ?q (disk s)"
    using i clean a d unat_decr [OF i(4)] unat_eq_zero [of "b_refcnt ?q"] by (auto simp: buf_ok_def is_block_def)
  ultimately have su: "cstep s u (a_rel b (cabs s))" unfolding u_def
    using upd_step [OF inv i(1,2), of ?q] i a by (simp add: is_block_def buf_view_def a_rel_def fun_upd_idem)
  have hu: "holds u j c" if "holds s j c" "c \<noteq> b" for j c
    unfolding u_def by (rule holds_upd_other [OF that(1)]) (use that i in \<open>auto simp: holds_def is_block_def\<close>)
  have wk: "p_pid (?w p) = p_pid (procs s p)" for p by simp
  have "bframe u v"
    by (rule bframeI [where B = "bufs u" and n = "lru_next u" and v = "lru_prev u" and d = "disk u" and h = "dwrites u" and w = ?w])
      (simp_all add: v_def u_def)
  then have "cstep u v (a_rel b (cabs s))" using su by (simp add: cstep_def v_def)
  with su have sv: "cstep s v (a_rel b (cabs s))" by (rule cstep_trans)
  have hv: "holds v j c" if "holds s j c" "c \<noteq> b" for j c
    using hu [OF that] by (auto simp: holds_def v_def mypid_def u_def myproc_def)
  define t where "t = (if b_refcnt ?q = 0 then lru_front i v else v)"
  have "cstep v (lru_front i v) (a_rel b (cabs s))"
    using lru_front_step(1) [OF cstepD(1) [OF sv] i(1)] cstepD(2) [OF sv] by simp
  with sv have st: "cstep s t (a_rel b (cabs s))" by (auto simp: t_def intro: cstep_trans)
  have "holds t j c" if "holds s j c" "c \<noteq> b" for j c
    using hv [OF that] lru_front_step(2) [OF cstepD(1) [OF sv] i(1)] by (simp add: t_def)
  moreover have "brelse i s = Ret () t"
  proof -
    have hs: "holdingsleep (BufSL i) s = Ret True s" using id h by (simp add: holdingsleep_eq holds_def)
    let ?r = "(set_sl (BufSL i) \<lparr>sl_locked = False, sl_pid = 0\<rparr> s)\<lparr>procs := ?w\<rparr>"
    have rs: "releasesleep (BufSL i) s = Ret () ?r" by (rule releasesleep_eq [OF id])
    have hr: "held ?r = {}" "held v = {}" using id by (simp_all add: idle_def v_def u_def)
    have "upd_buf i (\<lambda>q. q\<lparr>b_refcnt := b_refcnt q - 1\<rparr>) (?r\<lparr>held := {BcacheLock}\<rparr>) = v\<lparr>held := {BcacheLock}\<rparr>"
      using id by (simp add: upd_buf_def v_def u_def)
    moreover have "lru_front i (v\<lparr>held := {BcacheLock}\<rparr>) = (lru_front i v)\<lparr>held := {BcacheLock}\<rparr>"
      by (simp add: lru_front_def Let_def)
    moreover have "held (lru_front i v) = {}" using lru_front_fields [of i v] hr by auto
    moreover have "b_refcnt (bufs v i) = b_refcnt ?q" by (simp add: v_def u_def)
    ultimately show ?thesis
      using hr by (simp add: brelse_def hs rs Let_def t_def)
  qed
  ultimately show ?thesis using st by simp
qed

lemma bpin_spec:
  assumes "cache_inv s" "idle s" "holds s i b" "ca_refs (cabs s) b + 1 < 2 ^ 32"
  shows "returns (bpin i s) (\<lambda>_ t. cstep s t (a_pin b (cabs s)) \<and> holds t i b \<and> keeps s t)"
proof -
  let ?q = "(bufs s i)\<lparr>b_refcnt := b_refcnt (bufs s i) + 1\<rparr>"
  note a = holds_abs [OF assms(1,3)]
  have r: "unat (b_refcnt (bufs s i) + 1) = ca_refs (cabs s) b + 1" "b_refcnt (bufs s i) + 1 \<noteq> 0"
    using assms(4) a(2) unat_incr [of "b_refcnt (bufs s i)"] by simp_all
  have "is_block b ?q" "b_valid ?q" "b_refcnt ?q \<noteq> 0" "b_lock ?q = b_lock (bufs s i)"
    using assms(3) r by (auto simp: holds_def is_block_def)
  from holder_step [OF assms(1,3) this] r a show ?thesis
    using assms(2) by (simp add: bpin_def a_pin_def fun_upd_idem) (simp add: upd_buf_def)
qed

lemma bunpin_spec:
  assumes "cache_inv s" "idle s" "holds s i b" "ca_refs (cabs s) b > 1"
  shows "returns (bunpin i s) (\<lambda>_ t. cstep s t (a_unpin b (cabs s)) \<and> holds t i b \<and> keeps s t)"
proof -
  let ?q = "(bufs s i)\<lparr>b_refcnt := b_refcnt (bufs s i) - 1\<rparr>"
  note a = holds_abs [OF assms(1,3)]
  have "b_refcnt (bufs s i) \<noteq> 0" using assms(3) by (simp add: holds_def)
  from unat_decr [OF this] have r: "unat (b_refcnt ?q) = ca_refs (cabs s) b - 1" using a(2) by simp
  with assms(4) have "b_refcnt ?q \<noteq> 0" by (auto simp flip: unat_eq_zero)
  then have "is_block b ?q" "b_valid ?q" "b_refcnt ?q \<noteq> 0" "b_lock ?q = b_lock (bufs s i)"
    using assms(3) by (auto simp: holds_def is_block_def)
  from holder_step [OF assms(1,3) this] r a show ?thesis
    using assms(2) by (simp add: bunpin_def a_unpin_def fun_upd_idem) (simp add: upd_buf_def)
qed

lemma unreferenced_clean:
  assumes "cache_inv s" "ca_refs (cabs s) b = 0"
  shows "ca_view (cabs s) b = disk s b" "\<not> ca_lck (cabs s) b"
proof -
  have ok: "buf_ok (bufs s i) (disk s)" if "i < NBUF" for i
    using assms(1) that by (simp add: cache_inv_def bufs_ok_def)
  have "ca_view (cabs s) b = disk s b \<and> \<not> ca_lck (cabs s) b"
    using assms(2) ok slot_SomeD [of "bufs s" b]
    by (auto simp: cabs_def buf_view_def buf_ok_def is_block_def unat_eq_zero split: option.splits)
  then show "ca_view (cabs s) b = disk s b" "\<not> ca_lck (cabs s) b" by simp_all
qed

subsection \<open>Initialisation\<close>

lemma binit_buf_eq:
  "binit_buf b s = initsleeplock (BufSL b) (s\<lparr>
     lru_next := (lru_next s)(Buf b := lru_next s BHead, BHead := Buf b),
     lru_prev := (lru_prev s)(Buf b := BHead, lru_next s BHead := Buf b)\<rparr>)"
  by (simp add: binit_buf_def initsleeplock_def Let_def)

lemma binit_loop:
  assumes "ring s ls" "distinct xs" "set xs \<inter> set ls = {}"
  shows "\<exists>n v. fold binit_buf xs s = s\<lparr>lru_next := n, lru_prev := v, bufs := \<lambda>i. if i \<in> set xs
      then (bufs s i)\<lparr>b_lock := \<lparr>sl_locked = False, sl_pid = 0\<rparr>\<rparr> else bufs s i\<rparr> \<and>
    ring (s\<lparr>lru_next := n, lru_prev := v\<rparr>) (rev xs @ ls)"
  using assms
proof (induction xs arbitrary: s ls)
  case Nil
  show ?case by (rule exI [of _ "lru_next s"], rule exI [of _ "lru_prev s"]) (use Nil in simp)
next
  case (Cons b xs)
  let ?n = "(lru_next s)(Buf b := lru_next s BHead, BHead := Buf b)"
  let ?v = "(lru_prev s)(Buf b := BHead, lru_next s BHead := Buf b)"
  have r: "ring (s\<lparr>lru_next := ?n, lru_prev := ?v\<rparr>) (b # ls)"
    by (rule ring_push [OF Cons.prems(1)]) (use Cons.prems in auto)
  then have "ring (binit_buf b s) (b # ls)"
    by (simp add: binit_buf_eq initsleeplock_def ring_def)
  moreover have "distinct xs" "set xs \<inter> set (b # ls) = {}" using Cons.prems by auto
  ultimately obtain n v where nv: "fold binit_buf xs (binit_buf b s) = (binit_buf b s)\<lparr>lru_next := n, lru_prev := v,
      bufs := \<lambda>i. if i \<in> set xs then (bufs (binit_buf b s) i)\<lparr>b_lock := \<lparr>sl_locked = False, sl_pid = 0\<rparr>\<rparr>
        else bufs (binit_buf b s) i\<rparr>" "ring ((binit_buf b s)\<lparr>lru_next := n, lru_prev := v\<rparr>) (rev xs @ b # ls)"
    using Cons.IH by blast
  have "fold binit_buf (b # xs) s = s\<lparr>lru_next := n, lru_prev := v, bufs := \<lambda>i. if i \<in> set (b # xs)
      then (bufs s i)\<lparr>b_lock := \<lparr>sl_locked = False, sl_pid = 0\<rparr>\<rparr> else bufs s i\<rparr>"
    using nv(1) by (simp add: binit_buf_eq initsleeplock_def fun_eq_iff)
  moreover have "ring (s\<lparr>lru_next := n, lru_prev := v\<rparr>) (rev (b # xs) @ ls)"
    using nv(2) by (simp add: ring_def)
  ultimately show ?case by blast
qed

lemma binit_eq:
  obtains n v where "binit s = s\<lparr>lru_next := n, lru_prev := v, bufs := \<lambda>i. if i < NBUF
      then (bufs s i)\<lparr>b_lock := \<lparr>sl_locked = False, sl_pid = 0\<rparr>\<rparr> else bufs s i\<rparr>"
    "ring (binit s) (rev [0..<NBUF])"
proof -
  define t where "t = s\<lparr>lru_prev := (lru_prev s)(BHead := BHead), lru_next := (lru_next s)(BHead := BHead)\<rparr>"
  have "ring t []" by (simp add: t_def ring_def)
  from binit_loop [OF this distinct_upt, of 0 NBUF] obtain n v
    where nv: "fold binit_buf [0..<NBUF] t = t\<lparr>lru_next := n, lru_prev := v, bufs := \<lambda>i. if i \<in> set [0..<NBUF]
      then (bufs t i)\<lparr>b_lock := \<lparr>sl_locked = False, sl_pid = 0\<rparr>\<rparr> else bufs t i\<rparr>"
      "ring (t\<lparr>lru_next := n, lru_prev := v\<rparr>) (rev [0..<NBUF])" by auto
  have bt: "bufs t = bufs s" by (simp add: t_def)
  have b: "binit s = fold binit_buf [0..<NBUF] t" by (simp only: binit_def t_def)
  have "ring (binit s) (rev [0..<NBUF])" unfolding b nv(1) using nv(2) by (simp only: ring_def) (simp add: t_def)
  moreover have "binit s = s\<lparr>lru_next := n, lru_prev := v, bufs := \<lambda>i. if i < NBUF
      then (bufs s i)\<lparr>b_lock := \<lparr>sl_locked = False, sl_pid = 0\<rparr>\<rparr> else bufs s i\<rparr>"
    unfolding b nv(1) bt by (simp add: t_def del: upt_rec_numeral)
  ultimately show ?thesis using that by blast
qed

text \<open>Zeroed buffers, as the kernel's image has them, become an empty cache.\<close>

lemma binit_inv:
  assumes "\<forall>i < NBUF. bufs s i = buf0"
  shows "cache_inv (binit s)" "cabs (binit s) = \<lparr>ca_view = disk s, ca_refs = \<lambda>_. 0, ca_lck = \<lambda>_. False,
      ca_disk = disk s, ca_hist = dwrites s\<rparr>"
    "\<exists>n v B. binit s = s\<lparr>lru_next := n, lru_prev := v, bufs := B\<rparr> \<and> (\<forall>i < NBUF. B i = buf0)"
proof -
  obtain n v where b: "binit s = s\<lparr>lru_next := n, lru_prev := v, bufs := \<lambda>i. if i < NBUF
      then (bufs s i)\<lparr>b_lock := \<lparr>sl_locked = False, sl_pid = 0\<rparr>\<rparr> else bufs s i\<rparr>"
    and r: "ring (binit s) (rev [0..<NBUF])" by (rule binit_eq [of s])
  define B where "B = (\<lambda>i. if i < NBUF
      then (bufs s i)\<lparr>b_lock := \<lparr>sl_locked = False, sl_pid = 0\<rparr>\<rparr> else bufs s i)"
  have B: "B i = buf0" if "i < NBUF" for i using assms that by (simp add: B_def buf0_def)
  have b': "binit s = s\<lparr>lru_next := n, lru_prev := v, bufs := B\<rparr>" unfolding b B_def ..
  then show "\<exists>n v B. binit s = s\<lparr>lru_next := n, lru_prev := v, bufs := B\<rparr> \<and> (\<forall>i < NBUF. B i = buf0)"
    using B by blast
  have bB: "bufs (binit s) = B" "disk (binit s) = disk s" by (simp_all add: b')
  have no: "\<not> is_block c buf0" for c by (simp add: is_block_def buf0_def)
  have "bufs_ok B d" for d using B no by (auto simp: bufs_ok_def) (simp add: buf_ok_def buf0_def)
  moreover have "set (rev [0..<NBUF]) = {..<NBUF}" by (auto simp del: upt_rec_numeral)
  ultimately show "cache_inv (binit s)" using r by (auto simp: cache_inv_def bB simp del: upt_rec_numeral)
  have "slot B c = None" for c using B no by (auto simp: slot_def find_None_iff simp del: upt_rec_numeral)
  then show "cabs (binit s) = \<lparr>ca_view = disk s, ca_refs = \<lambda>_. 0, ca_lck = \<lambda>_. False,
      ca_disk = disk s, ca_hist = dwrites s\<rparr>"
    unfolding b' by (simp add: cabs_def)
qed

subsection \<open>The interface\<close>

text \<open>What a client of the buffer cache may rely on.\<close>

locale buffer_cache =
  fixes inv :: "kernel \<Rightarrow> bool" and abst :: "kernel \<Rightarrow> cache" and own :: "kernel \<Rightarrow> nat \<Rightarrow> u32 \<Rightarrow> bool"
  assumes get: "inv s \<Longrightarrow> idle s \<Longrightarrow> can_get b (abst s) \<Longrightarrow>
      returns (bread ROOTDEV b s) (\<lambda>i t. inv t \<and> bframe s t \<and> abst t = a_read b (abst s) \<and> own t i b \<and>
        (\<forall>j c. own s j c \<longrightarrow> own t j c))"
    and data: "inv s \<Longrightarrow> own s i b \<Longrightarrow> b_data (bufs s i) = ca_view (abst s) b"
    and modify: "inv s \<Longrightarrow> own s i b \<Longrightarrow>
      inv (upd_buf i (\<lambda>q. q\<lparr>b_data := d\<rparr>) s) \<and> abst (upd_buf i (\<lambda>q. q\<lparr>b_data := d\<rparr>) s) = a_set b d (abst s) \<and>
      (\<forall>j c. own s j c \<longrightarrow> own (upd_buf i (\<lambda>q. q\<lparr>b_data := d\<rparr>) s) j c)"
    and put: "inv s \<Longrightarrow> idle s \<Longrightarrow> own s i b \<Longrightarrow>
      returns (bwrite i s) (\<lambda>_ t. inv t \<and> bframe s t \<and> abst t = a_write b (abst s) \<and> (\<forall>j c. own s j c \<longrightarrow> own t j c))"
    and drop: "inv s \<Longrightarrow> idle s \<Longrightarrow> own s i b \<Longrightarrow>
      ca_refs (abst s) b > 1 \<or> ca_view (abst s) b = ca_disk (abst s) b \<Longrightarrow>
      returns (brelse i s) (\<lambda>_ t. inv t \<and> bframe s t \<and> abst t = a_rel b (abst s) \<and>
        (\<forall>j c. own s j c \<and> c \<noteq> b \<longrightarrow> own t j c))"
    and unpin: "inv s \<Longrightarrow> idle s \<Longrightarrow> own s i b \<Longrightarrow> ca_refs (abst s) b > 1 \<Longrightarrow>
      returns (bunpin i s) (\<lambda>_ t. inv t \<and> bframe s t \<and> abst t = a_unpin b (abst s) \<and> (\<forall>j c. own s j c \<longrightarrow> own t j c))"
    and clean: "inv s \<Longrightarrow> ca_refs (abst s) b = 0 \<Longrightarrow> ca_view (abst s) b = ca_disk (abst s) b \<and> \<not> ca_lck (abst s) b"
    and device: "ca_disk (abst s) = disk s" "ca_hist (abst s) = dwrites s"
    and log_inv: "inv (s\<lparr>klog := l\<rparr>) = inv s" "abst (s\<lparr>klog := l\<rparr>) = abst s" "own (s\<lparr>klog := l\<rparr>) j c = own s j c"
    and uart_inv: "inv (s\<lparr>uart_out := x\<rparr>) = inv s" "abst (s\<lparr>uart_out := x\<rparr>) = abst s"

interpretation bio: buffer_cache cache_inv cabs holds
proof
  fix s i b d x l and j c
  show "returns (bread ROOTDEV b s) (\<lambda>i t. cache_inv t \<and> bframe s t \<and> cabs t = a_read b (cabs s) \<and> holds t i b \<and>
      (\<forall>j c. holds s j c \<longrightarrow> holds t j c))" if "cache_inv s" "idle s" "can_get b (cabs s)"
    using bread_spec [OF that] by (auto simp: cstep_def keeps_def returns_iff)
  show "b_data (bufs s i) = ca_view (cabs s) b" if "cache_inv s" "holds s i b"
    using holds_abs [OF that] by simp
  show "cache_inv (upd_buf i (\<lambda>q. q\<lparr>b_data := d\<rparr>) s) \<and> cabs (upd_buf i (\<lambda>q. q\<lparr>b_data := d\<rparr>) s) = a_set b d (cabs s) \<and>
      (\<forall>j c. holds s j c \<longrightarrow> holds (upd_buf i (\<lambda>q. q\<lparr>b_data := d\<rparr>) s) j c)" if "cache_inv s" "holds s i b"
    using set_data_spec [OF that, of d] by (auto simp: cstep_def keeps_def)
  show "returns (bwrite i s) (\<lambda>_ t. cache_inv t \<and> bframe s t \<and> cabs t = a_write b (cabs s) \<and> (\<forall>j c. holds s j c \<longrightarrow> holds t j c))"
    if "cache_inv s" "idle s" "holds s i b"
    using bwrite_spec [OF that] by (auto simp: cstep_def keeps_def returns_iff)
  show "returns (brelse i s) (\<lambda>_ t. cache_inv t \<and> bframe s t \<and> cabs t = a_rel b (cabs s) \<and>
      (\<forall>j c. holds s j c \<and> c \<noteq> b \<longrightarrow> holds t j c))"
    if "cache_inv s" "idle s" "holds s i b" "ca_refs (cabs s) b > 1 \<or> ca_view (cabs s) b = ca_disk (cabs s) b"
    using brelse_spec [OF that] by (auto simp: cstep_def keeps_def returns_iff)
  show "returns (bunpin i s) (\<lambda>_ t. cache_inv t \<and> bframe s t \<and> cabs t = a_unpin b (cabs s) \<and> (\<forall>j c. holds s j c \<longrightarrow> holds t j c))"
    if "cache_inv s" "idle s" "holds s i b" "ca_refs (cabs s) b > 1"
    using bunpin_spec [OF that] by (auto simp: cstep_def keeps_def returns_iff)
  show "ca_view (cabs s) b = ca_disk (cabs s) b \<and> \<not> ca_lck (cabs s) b" if "cache_inv s" "ca_refs (cabs s) b = 0"
    using unreferenced_clean [OF that] by (simp add: cabs_def)
  show "holds (s\<lparr>klog := l\<rparr>) j c = holds s j c" by (simp add: holds_def)
qed (simp_all add: cabs_def cong: option.case_cong)

end
