(* ===== verification/Log_Crash.thy ===== *)
theory Log_Crash
  imports Log Bio_Cache
begin

text \<open>
  Crash safety of the write-ahead log. The proofs use the buffer cache only through the
  locale \<^verbatim>\<open>buffer_cache\<close>: each loop of \<^verbatim>\<open>log.c\<close> is shown to have a simple effect on
  the abstract cache, and the disk writes of a commit are computed as a list. Every prefix
  of that list is a state in which the machine may stop; recovery from it yields either
  all of the transaction or none of it.
\<close>

unbundle bit_operations_syntax

subsection \<open>Integers in a block\<close>

lemma get32_put32 [simp]: "get32 (put32 k w d) k = w"
proof -
  have "le_word 4 (\<lambda>i. put32 k w d (k + i)) = (le_word 4 (byte_of w) :: u32)"
    by (rule le_word_cong) (simp add: put32_def)
  then show ?thesis by (simp add: get32_def le_word_byte_of)
qed

lemma get32_put32_other: "j + 4 \<le> k \<or> k + 4 \<le> j \<Longrightarrow> get32 (put32 k w d) j = get32 d j"
  unfolding get32_def by (rule le_word_cong) (auto simp: put32_def)

lemma put_blocks_other:
  "(\<And>i. i \<in> set is \<Longrightarrow> j + 4 \<le> 4 + 4 * i \<or> 4 + 4 * i + 4 \<le> j) \<Longrightarrow> get32 (put_blocks f is d) j = get32 d j"
  by (induction "is" arbitrary: d) (simp_all add: get32_put32_other)

lemma put_blocks_get:
  "distinct is \<Longrightarrow> i \<in> set is \<Longrightarrow> get32 (put_blocks f is d) (4 + 4 * i) = f i"
proof (induction "is" arbitrary: d)
  case Nil
  then show ?case by simp
next
  case (Cons a xs)
  show ?case
  proof (cases "i = a")
    case True
    have "j < i \<or> i < j" if "j \<in> set xs" for j
      using Cons.prems True that by (metis distinct.simps(2) linorder_neqE_nat)
    then have "get32 (put_blocks f xs (put32 (4 + 4 * a) (f a) d)) (4 + 4 * i) = get32 (put32 (4 + 4 * a) (f a) d) (4 + 4 * i)"
      by (intro put_blocks_other) force
    with True show ?thesis by simp
  next
    case False
    with Cons show ?thesis by simp
  qed
qed

lemma head_blocks_get: "distinct is \<Longrightarrow> head_blocks d is f i = (if i \<in> set is then get32 d (4 + 4 * i) else f i)"
  by (induction "is" arbitrary: f) auto

subsection \<open>One iteration of each loop\<close>

text \<open>Writing a block in the cache and on disk, and copying block \<^verbatim>\<open>h\<close> to block \<^verbatim>\<open>l\<close>.\<close>

definition write_thru :: "u32 \<Rightarrow> block \<Rightarrow> cache \<Rightarrow> cache" where
  "write_thru b d c = c\<lparr>ca_view := (ca_view c)(b := d), ca_disk := (ca_disk c)(b := d),
     ca_hist := ca_hist c @ [(b, d)]\<rparr>"

definition copy_block :: "u32 \<Rightarrow> u32 \<Rightarrow> cache \<Rightarrow> cache" where
  "copy_block l h c = write_thru l (ca_view c h) c"

context buffer_cache
begin

lemma get_block:
  assumes "inv s" "idle s" "can_get b (abst s)"
  obtains i t where "bread ROOTDEV b s = Ret i t" "inv t" "idle t" "bframe s t" "abst t = a_read b (abst s)"
    "own t i b" "\<And>j c. own s j c \<Longrightarrow> own t j c"
  using get [OF assms] assms(2) by (auto simp: returns_iff bframe_simps)

lemma put_block:
  assumes "inv s" "idle s" "own s i b"
  obtains t where "bwrite i s = Ret () t" "inv t" "idle t" "bframe s t" "abst t = a_write b (abst s)"
    "\<And>j c. own s j c \<Longrightarrow> own t j c"
  using put [OF assms] assms(2) by (auto simp: returns_iff bframe_simps)

lemma drop_block:
  assumes "inv s" "idle s" "own s i b" "ca_refs (abst s) b > 1 \<or> ca_view (abst s) b = ca_disk (abst s) b"
  obtains t where "brelse i s = Ret () t" "inv t" "idle t" "bframe s t" "abst t = a_rel b (abst s)"
    "\<And>j c. own s j c \<Longrightarrow> c \<noteq> b \<Longrightarrow> own t j c"
  using drop [OF assms] assms(2) by (auto simp: returns_iff bframe_simps)

lemma set_block:
  assumes "inv s" "own s i b"
  shows "inv (upd_buf i (\<lambda>q. q\<lparr>b_data := d\<rparr>) s)" "abst (upd_buf i (\<lambda>q. q\<lparr>b_data := d\<rparr>) s) = a_set b d (abst s)"
    "own s j c \<Longrightarrow> own (upd_buf i (\<lambda>q. q\<lparr>b_data := d\<rparr>) s) j c"
  using modify [OF assms, of d] by auto

lemma write_log_step:
  assumes s: "inv s" "idle s" "lg_dev (klog s) = ROOTDEV"
    and lh: "l = log_blockno (klog s) k" "h = lg_block (klog s) k" "l \<noteq> h" and c: "c = abst s"
    and l: "ca_refs c l = 0" "card {x. ca_refs c x \<noteq> 0} < NBUF"
    and h: "0 < ca_refs c h" "ca_refs c h + 1 < 2 ^ 32" "\<not> ca_lck c h"
  obtains t where "write_log_loop (k # ks) s = write_log_loop ks t" "inv t" "idle t" "bframe s t"
    "abst t = copy_block l h c"
proof -
  have nl: "\<not> ca_lck c l" using clean [OF s(1), of l] l(1) c by simp
  have "can_get l (abst s)" using l nl c by (simp add: can_get_def)
  then obtain i1 t1 where t1: "bread ROOTDEV l s = Ret i1 t1" "inv t1" "idle t1" "bframe s t1"
      "abst t1 = a_read l c" "own t1 i1 l"
    using get_block [OF s(1,2)] c by metis
  have "can_get h (abst t1)" using h lh(3) t1(5) by (simp add: can_get_def a_read_def)
  then obtain i2 t2 where t2: "bread ROOTDEV h t1 = Ret i2 t2" "inv t2" "idle t2" "bframe t1 t2"
      "abst t2 = a_read h (a_read l c)" "own t2 i2 h" "own t2 i1 l"
    using get_block [OF t1(2,3)] t1(5,6) by metis
  have k: "klog t1 = klog s" "klog t2 = klog s" using t1(4) t2(4) by (simp_all add: bframe_simps)
  define t3 where "t3 = copy_data i1 i2 t2"
  have d: "b_data (bufs t2 i2) = ca_view c h" using data [OF t2(2,6)] t2(5) by (simp add: a_read_def)
  have t3: "inv t3" "idle t3" "bframe t2 t3" "abst t3 = a_set l (ca_view c h) (a_read h (a_read l c))"
    "own t3 i1 l" "own t3 i2 h"
    using set_block [OF t2(2,7), where d = "ca_view c h"] t2 d by (simp_all add: t3_def copy_data_def)
  obtain t4 where t4: "bwrite i1 t3 = Ret () t4" "inv t4" "idle t4" "bframe t3 t4"
      "abst t4 = a_write l (abst t3)" "own t4 i1 l" "own t4 i2 h"
    using put_block [OF t3(1,2,5)] t3(5,6) by metis
  have "ca_refs (abst t4) h > 1" using t4(5) t3(4) lh(3) h by (simp add: a_write_def a_set_def a_read_def)
  then obtain t5 where t5: "brelse i2 t4 = Ret () t5" "inv t5" "idle t5" "bframe t4 t5"
      "abst t5 = a_rel h (abst t4)" "own t5 i1 l"
    using drop_block [OF t4(2,3,7)] t4(6) lh(3) by metis
  have "ca_view (abst t5) l = ca_disk (abst t5) l"
    using t5(5) t4(5) t3(4) by (simp add: a_write_def a_set_def a_read_def a_rel_def)
  then obtain t6 where t6: "brelse i1 t5 = Ret () t6" "inv t6" "idle t6" "bframe t5 t6"
      "abst t6 = a_rel l (abst t5)"
    using drop_block [OF t5(2,3,6)] by metis
  have "abst t6 = copy_block l h c"
    unfolding t6(5) t5(5) t4(5) t3(4) using lh(3) l(1) nl h(3)
    by (intro cache.equality)
      (auto simp: a_rel_def a_write_def a_set_def a_read_def copy_block_def write_thru_def fun_eq_iff)
  moreover have "bframe s t6"
    by (metis bframe_trans t1(4) t2(4) t3(3) t4(4) t5(4) t6(4))
  moreover have "write_log_loop (k # ks) s = write_log_loop ks t6"
    using t1(1) t2(1) t4(1) t5(1) t6(1) k s(3) lh by (simp add: t3_def)
  ultimately show ?thesis using that t6(2,3) by blast
qed

lemma unpin_block:
  assumes "inv s" "idle s" "own s i b" "ca_refs (abst s) b > 1"
  obtains t where "bunpin i s = Ret () t" "inv t" "idle t" "bframe s t" "abst t = a_unpin b (abst s)"
    "\<And>j c. own s j c \<Longrightarrow> own t j c"
  using unpin [OF assms] assms(2) by (auto simp: returns_iff bframe_simps)

text \<open>The common part of \<^verbatim>\<open>install_trans\<close>: both buffers read, the copy made and written.\<close>

lemma install_copy:
  assumes s: "inv s" "idle s" "l \<noteq> h" and c: "c = abst s"
    and l: "can_get l c" and h: "can_get h (a_read l c)"
  obtains i1 i2 t1 t2 t4 where "bread ROOTDEV l s = Ret i1 t1" "bread ROOTDEV h t1 = Ret i2 t2"
    "bwrite i2 (copy_data i2 i1 t2) = Ret () t4" "bframe s t1" "bframe t1 t2" "bframe t2 t4" "inv t4" "idle t4"
    "abst t4 = write_thru h (ca_view c l) (a_read h (a_read l c))" "own t4 i1 l" "own t4 i2 h"
proof -
  obtain i1 t1 where t1: "bread ROOTDEV l s = Ret i1 t1" "inv t1" "idle t1" "bframe s t1"
      "abst t1 = a_read l c" "own t1 i1 l"
    using get_block [OF s(1,2)] l c by metis
  obtain i2 t2 where t2: "bread ROOTDEV h t1 = Ret i2 t2" "inv t2" "idle t2" "bframe t1 t2"
      "abst t2 = a_read h (a_read l c)" "own t2 i2 h" "own t2 i1 l"
    using get_block [OF t1(2,3)] h t1(5,6) by metis
  define t3 where "t3 = copy_data i2 i1 t2"
  have d: "b_data (bufs t2 i1) = ca_view c l" using data [OF t2(2,7)] t2(5) by (simp add: a_read_def)
  have t3: "inv t3" "idle t3" "bframe t2 t3" "abst t3 = a_set h (ca_view c l) (a_read h (a_read l c))"
    "own t3 i1 l" "own t3 i2 h"
    using set_block [OF t2(2,6), where d = "ca_view c l"] t2 d by (simp_all add: t3_def copy_data_def)
  obtain t4 where t4: "bwrite i2 t3 = Ret () t4" "inv t4" "idle t4" "bframe t3 t4"
      "abst t4 = a_write h (abst t3)" "own t4 i1 l" "own t4 i2 h"
    using put_block [OF t3(1,2,6)] t3(5,6) by metis
  have "abst t4 = write_thru h (ca_view c l) (a_read h (a_read l c))"
    unfolding t4(5) t3(4) by (simp add: a_write_def a_set_def write_thru_def)
  moreover have "bframe t2 t4" using t3(3) t4(4) by (rule bframe_trans)
  ultimately show ?thesis
    using that [of i1 t1 i2 t2 t4] t1 t2 t4 by (simp add: t3_def)
qed

text \<open>Installing a pinned block gives up the pin.\<close>

lemma install_step:
  assumes s: "inv s" "idle s" "lg_dev (klog s) = ROOTDEV"
    and lh: "l = log_blockno (klog s) k" "h = lg_block (klog s) k" "l \<noteq> h" and c: "c = abst s"
    and l: "ca_refs c l = 0" "card {x. ca_refs c x \<noteq> 0} < NBUF"
    and h: "0 < ca_refs c h" "ca_refs c h + 1 < 2 ^ 32" "\<not> ca_lck c h"
  obtains t where "install_trans_loop False (k # ks) s = install_trans_loop False ks t" "inv t" "idle t" "bframe s t"
    "abst t = a_unpin h (copy_block h l c)"
proof -
  have nl: "\<not> ca_lck c l" "ca_view c l = ca_disk c l" using clean [OF s(1), of l] l(1) c by auto
  have "can_get l c" "can_get h (a_read l c)" using l nl h lh(3) by (simp_all add: can_get_def a_read_def)
  from install_copy [OF s(1,2) lh(3) c this]
  obtain i1 i2 t1 t2 t4 where t: "bread ROOTDEV l s = Ret i1 t1" "bread ROOTDEV h t1 = Ret i2 t2"
    "bwrite i2 (copy_data i2 i1 t2) = Ret () t4" "bframe s t1" "bframe t1 t2" "bframe t2 t4"
    and t4: "inv t4" "idle t4" "abst t4 = write_thru h (ca_view c l) (a_read h (a_read l c))" "own t4 i1 l" "own t4 i2 h"
    by metis
  have k: "klog t1 = klog s" using t(4) by (simp add: bframe_simps)
  have r: "ca_refs (abst t4) h > 1" "ca_view (abst t4) l = ca_disk (abst t4) l"
    using t4(3) h lh(3) nl(2) by (simp_all add: write_thru_def a_read_def)
  obtain t5 where t5: "bunpin i2 t4 = Ret () t5" "inv t5" "idle t5" "bframe t4 t5"
      "abst t5 = a_unpin h (abst t4)" "own t5 i1 l" "own t5 i2 h"
    using unpin_block [OF t4(1,2,5) r(1)] t4(4,5) by metis
  have "ca_view (abst t5) l = ca_disk (abst t5) l" using t5(5) r(2) by (simp add: a_unpin_def)
  then obtain t6 where t6: "brelse i1 t5 = Ret () t6" "inv t6" "idle t6" "bframe t5 t6"
      "abst t6 = a_rel l (abst t5)" "own t6 i2 h"
    using drop_block [OF t5(2,3,6)] t5(7) lh(3) by metis
  have "ca_view (abst t6) h = ca_disk (abst t6) h"
    using t6(5) t5(5) t4(3) by (simp add: write_thru_def a_rel_def a_unpin_def)
  then obtain t7 where t7: "brelse i2 t6 = Ret () t7" "inv t7" "idle t7" "bframe t6 t7" "abst t7 = a_rel h (abst t6)"
    using drop_block [OF t6(2,3,6)] by metis
  have "abst t7 = a_unpin h (copy_block h l c)"
    unfolding t7(5) t6(5) t5(5) t4(3) using lh(3) l(1) nl h
    by (intro cache.equality)
      (auto simp: a_rel_def a_unpin_def a_read_def copy_block_def write_thru_def fun_eq_iff)
  moreover have "bframe s t7" by (metis bframe_trans t(4,5,6) t5(4) t6(4) t7(4))
  moreover have "install_trans_loop False (k # ks) s = install_trans_loop False ks t7"
    using t(1-3) t5(1) t6(1) t7(1) k s(3) lh by simp
  ultimately show ?thesis using that t7(2,3) by blast
qed

text \<open>Reading a block, changing it, writing it back and releasing it.\<close>

lemma update_block:
  assumes s: "inv s" "idle s" "can_get b (abst s)"
  obtains i t1 t2 t where "bread ROOTDEV b s = Ret i t1" "bframe s t1"
    "bwrite i (upd_buf i (\<lambda>q. q\<lparr>b_data := f (b_data q)\<rparr>) t1) = Ret () t2" "brelse i t2 = Ret () t"
    "inv t" "idle t" "bframe s t" "abst t = write_thru b (f (ca_view (abst s) b)) (abst s)"
proof -
  let ?d = "f (ca_view (abst s) b)"
  obtain i t1 where t1: "bread ROOTDEV b s = Ret i t1" "inv t1" "idle t1" "bframe s t1"
      "abst t1 = a_read b (abst s)" "own t1 i b"
    using get_block [OF s] by metis
  define u where "u = upd_buf i (\<lambda>q. q\<lparr>b_data := ?d\<rparr>) t1"
  have "b_data (bufs t1 i) = ca_view (abst s) b" using data [OF t1(2,6)] t1(5) by (simp add: a_read_def)
  then have u': "upd_buf i (\<lambda>q. q\<lparr>b_data := f (b_data q)\<rparr>) t1 = u" by (simp add: u_def upd_buf_def)
  have u: "inv u" "idle u" "bframe t1 u" "abst u = a_set b ?d (a_read b (abst s))" "own u i b"
    using set_block [OF t1(2,6), where d = ?d] t1 by (simp_all add: u_def)
  obtain t2 where t2: "bwrite i u = Ret () t2" "inv t2" "idle t2" "bframe u t2" "abst t2 = a_write b (abst u)" "own t2 i b"
    using put_block [OF u(1,2,5)] u(5) by metis
  have "ca_view (abst t2) b = ca_disk (abst t2) b" using t2(5) by (simp add: a_write_def)
  then obtain t where t: "brelse i t2 = Ret () t" "inv t" "idle t" "bframe t2 t" "abst t = a_rel b (abst t2)"
    using drop_block [OF t2(2,3,6)] by metis
  have "abst t = write_thru b ?d (abst s)"
    unfolding t(5) t2(5) u(4) using s(3)
    by (intro cache.equality) (auto simp: a_rel_def a_write_def a_set_def a_read_def write_thru_def fun_eq_iff can_get_def)
  moreover have "bframe s t" by (metis bframe_trans t1(4) u(3) t2(4) t(4))
  ultimately show ?thesis using that [OF t1(1,4) _ t(1,2,3)] t2(1) u' by simp
qed

lemma write_head_step:
  assumes s: "inv s" "idle s" "lg_dev (klog s) = ROOTDEV" and c: "c = abst s"
    and b: "b = lg_start (klog s)" "ca_refs c b = 0" "card {x. ca_refs c x \<noteq> 0} < NBUF"
  obtains t where "write_head s = Ret () t" "inv t" "idle t" "bframe s t"
    "abst t = write_thru b (put_blocks (lg_block (klog s)) [0..<nat (lg_n (klog s))]
        (put32 0 (of_int (lg_n (klog s))) (ca_view c b))) c"
proof -
  let ?f = "\<lambda>d. put_blocks (lg_block (klog s)) [0..<nat (lg_n (klog s))] (put32 0 (of_int (lg_n (klog s))) d)"
  have g: "can_get b (abst s)" using clean [OF s(1), of b] b c by (simp add: can_get_def)
  obtain i t1 t2 t where t: "bread ROOTDEV b s = Ret i t1" "bframe s t1"
    "bwrite i (upd_buf i (\<lambda>q. q\<lparr>b_data := ?f (b_data q)\<rparr>) t1) = Ret () t2" "brelse i t2 = Ret () t"
    "inv t" "idle t" "bframe s t" "abst t = write_thru b (?f (ca_view (abst s) b)) (abst s)"
    by (rule update_block [OF s(1,2) g, where f = ?f])
  have "write_head s = Ret () t"
    using t(1,3,4) s(3) b(1) t(2) by (simp add: write_head_def Let_def bframe_simps)
  with t(5-8) show ?thesis using that c by simp
qed

end

subsection \<open>Sequences of writes\<close>

definition apply_writes :: "(u32 \<times> block) list \<Rightarrow> (u32 \<Rightarrow> block) \<Rightarrow> u32 \<Rightarrow> block" where
  "apply_writes ws d = fold (\<lambda>(b, x) d. d(b := x)) ws d"

lemma apply_writes_simps [simp]:
  "apply_writes [] d = d" "apply_writes ((b, x) # ws) d = apply_writes ws (d(b := x))"
  "apply_writes (vs @ ws) d = apply_writes ws (apply_writes vs d)"
  by (simp_all add: apply_writes_def)

lemma apply_writes_other: "b \<notin> fst ` set ws \<Longrightarrow> apply_writes ws d b = d b"
  by (induction ws arbitrary: d) (auto simp: apply_writes_def)

lemma apply_writes_at:
  "b \<in> fst ` set ws \<Longrightarrow> (\<And>y. (b, y) \<in> set ws \<Longrightarrow> y = x) \<Longrightarrow> apply_writes ws d b = x"
proof (induction ws rule: rev_induct)
  case Nil
  then show ?case by simp
next
  case (snoc w ws)
  obtain a y where w: "w = (a, y)" by (cases w)
  show ?case
  proof (cases "a = b")
    case True
    have "y = x" by (rule snoc.prems(2)) (simp add: w True)
    with True show ?thesis by (simp add: w)
  next
    case False
    have "b \<in> fst ` set ws" using snoc.prems(1) False by (simp add: w)
    moreover have "z = x" if "(b, z) \<in> set ws" for z
      by (rule snoc.prems(2)) (use that in simp)
    ultimately have "apply_writes ws d b = x" by (intro snoc.IH)
    with False show ?thesis by (simp add: w)
  qed
qed

text \<open>The components of an abstract cache after a sequence of writes through it.\<close>

definition written :: "(u32 \<times> block) list \<Rightarrow> cache \<Rightarrow> cache \<Rightarrow> bool" where
  "written ws c c' \<longleftrightarrow> ca_view c' = apply_writes ws (ca_view c) \<and> ca_disk c' = apply_writes ws (ca_disk c) \<and>
     ca_hist c' = ca_hist c @ ws \<and> ca_lck c' = ca_lck c \<and> (\<forall>b. ca_refs c' b \<le> ca_refs c b)"

lemma written_refl: "written [] c c"
  by (simp add: written_def)

lemma written_trans: "written vs c c' \<Longrightarrow> written ws c' c'' \<Longrightarrow> written (vs @ ws) c c''"
  unfolding written_def by (auto intro: order_trans)

lemma written_thru: "written [(b, d)] c (write_thru b d c)"
  by (simp add: written_def write_thru_def)

lemma written_unpin: "written ws c c' \<Longrightarrow> written ws c (a_unpin b c')"
  by (auto simp: written_def a_unpin_def intro: le_trans [OF diff_le_self])

lemma written_room:
  "written ws c c' \<Longrightarrow> card {x. ca_refs c x \<noteq> 0} < NBUF \<Longrightarrow> card {x. ca_refs c' x \<noteq> 0} < NBUF"
proof -
  assume w: "written ws c c'" and r: "card {x. ca_refs c x \<noteq> 0} < NBUF"
  have "ca_refs c x \<noteq> 0" if "ca_refs c' x \<noteq> 0" for x
  proof -
    have "ca_refs c' x \<le> ca_refs c x" using w by (simp add: written_def)
    with that show ?thesis by simp
  qed
  then have "{x. ca_refs c' x \<noteq> 0} \<subseteq> {x. ca_refs c x \<noteq> 0}" by blast
  then have "card {x. ca_refs c' x \<noteq> 0} \<le> card {x. ca_refs c x \<noteq> 0}" by (rule card_mono [rotated]) simp
  with r show ?thesis by simp
qed

subsection \<open>The loops\<close>

text \<open>The shape of a transaction: the blocks to be logged are distinct and lie outside the log
  area, which does not wrap around.\<close>

definition log_area :: "log \<Rightarrow> u32 set" where
  "log_area l = (\<lambda>k. lg_start l + of_nat k) ` {0..30}"

definition log_wf :: "log \<Rightarrow> bool" where
  "log_wf l \<longleftrightarrow> lg_dev l = ROOTDEV \<and> 0 \<le> lg_n l \<and> lg_n l \<le> LOGBLOCKS \<and> unat (lg_start l) + 31 \<le> 2 ^ 32 \<and>
     inj_on (lg_block l) {..<nat (lg_n l)} \<and> (\<forall>k < nat (lg_n l). lg_block l k \<notin> log_area l)"

text \<open>The state of the cache a commit starts in: no block of the log is in use, every logged
  block is pinned, and one buffer is spare.\<close>

definition log_ready :: "log \<Rightarrow> cache \<Rightarrow> bool" where
  "log_ready l c \<longleftrightarrow> (\<forall>b \<in> log_area l. ca_refs c b = 0) \<and> card {x. ca_refs c x \<noteq> 0} < NBUF \<and>
     (\<forall>k < nat (lg_n l). 0 < ca_refs c (lg_block l k) \<and> ca_refs c (lg_block l k) + 1 < 2 ^ 32 \<and> \<not> ca_lck c (lg_block l k))"

lemma of_nat_31_inj: "j < 31 \<Longrightarrow> k < 31 \<Longrightarrow> (of_nat j :: u32) = of_nat k \<Longrightarrow> j = k"
proof -
  assume a: "j < 31" "k < 31" "(of_nat j :: u32) = of_nat k"
  then have "unat (of_nat j :: u32) = unat (of_nat k :: u32)" by simp
  then show "j = k" using a(1,2) by (simp add: unat_of_nat_lt)
qed

lemma log_blockno_area: "k < 30 \<Longrightarrow> log_blockno l k \<in> log_area l"
  unfolding log_area_def log_blockno_def by (rule image_eqI [of _ _ "Suc k"]) simp_all

lemma start_area: "lg_start l \<in> log_area l"
  unfolding log_area_def by (rule image_eqI [of _ _ 0]) simp_all

lemma log_blockno_inj:
  assumes "j < 30" "k < 30" "log_blockno l j = log_blockno l k"
  shows "j = k"
proof -
  have "(of_nat j :: u32) = of_nat k" using assms(3) by (simp add: log_blockno_def)
  with assms(1,2) show ?thesis by (intro of_nat_31_inj) simp_all
qed

lemma log_blockno_start: "k < 30 \<Longrightarrow> log_blockno l k \<noteq> lg_start l"
proof
  assume a: "k < 30" "log_blockno l k = lg_start l"
  then have "(of_nat (Suc k) :: u32) = of_nat 0"
    by (simp add: log_blockno_def add.assoc add.commute [of 1])
  with a(1) have "Suc k = 0" by (intro of_nat_31_inj) simp_all
  then show False by simp
qed

context buffer_cache
begin

lemma write_log_loop_spec:
  assumes "inv s" "idle s" "log_wf (klog s)" "log_ready (klog s) (abst s)" "set ks \<subseteq> {..<nat (lg_n (klog s))}"
  shows "\<exists>t. write_log_loop ks s = Ret () t \<and> inv t \<and> idle t \<and> bframe s t \<and>
    written (map (\<lambda>k. (log_blockno (klog s) k, ca_view (abst s) (lg_block (klog s) k))) ks) (abst s) (abst t) \<and>
    ca_refs (abst t) = ca_refs (abst s)"
  using assms
proof (induction ks arbitrary: s)
  case Nil
  then show ?case by (simp add: written_refl)
next
  case (Cons k ks)
  let ?l = "log_blockno (klog s) k" and ?h = "lg_block (klog s) k"
  have k: "k < nat (lg_n (klog s))" "k < 30" using Cons.prems(3,5) by (auto simp: log_wf_def)
  have ne: "?l \<noteq> lg_block (klog s) j" if "j < nat (lg_n (klog s))" for j
    using log_blockno_area [OF k(2), of "klog s"] Cons.prems(3) that unfolding log_wf_def by metis
  obtain t where t: "write_log_loop (k # ks) s = write_log_loop ks t" "inv t" "idle t" "bframe s t"
      "abst t = copy_block ?l ?h (abst s)"
    by (rule write_log_step [of s ?l k ?h "abst s" ks])
      (use Cons.prems k ne [OF k(1)] log_blockno_area [OF k(2), of "klog s"] in \<open>auto simp: log_wf_def log_ready_def\<close>)
  have kt: "klog t = klog s" using t(4) by (simp add: bframe_simps)
  have r: "ca_refs (abst t) = ca_refs (abst s)" "ca_lck (abst t) = ca_lck (abst s)"
    using t(5) by (simp_all add: copy_block_def write_thru_def)
  have "log_ready (klog t) (abst t)" using Cons.prems(4) by (simp add: log_ready_def kt r)
  from Cons.IH [OF t(2,3) _ this] Cons.prems kt
  obtain u where u: "write_log_loop ks t = Ret () u" "inv u" "idle u" "bframe t u"
    "written (map (\<lambda>k. (log_blockno (klog s) k, ca_view (abst t) (lg_block (klog s) k))) ks) (abst t) (abst u)"
    "ca_refs (abst u) = ca_refs (abst t)"
    by auto
  have ne2: "lg_block (klog s) j \<noteq> ?l" if "j \<in> set ks" for j
    using ne [of j] Cons.prems(5) that by force
  have "map (\<lambda>k. (log_blockno (klog s) k, ca_view (abst t) (lg_block (klog s) k))) ks =
      map (\<lambda>k. (log_blockno (klog s) k, ca_view (abst s) (lg_block (klog s) k))) ks"
    using ne2 by (simp add: t(5) copy_block_def write_thru_def)
  note m = this
  have "written [(?l, ca_view (abst s) ?h)] (abst s) (abst t)"
    using written_thru t(5) by (simp add: copy_block_def)
  from written_trans [OF this u(5)]
  have "written (map (\<lambda>k. (log_blockno (klog s) k, ca_view (abst s) (lg_block (klog s) k))) (k # ks)) (abst s) (abst u)"
    unfolding m by simp
  moreover have "write_log_loop (k # ks) s = Ret () u" unfolding t(1) by (rule u(1))
  moreover have "ca_refs (abst u) = ca_refs (abst s)" using u(6) r by simp
  ultimately show ?case using u(2,3) bframe_trans [OF t(4) u(4)] by blast
qed

lemma install_loop_spec:
  assumes "inv s" "idle s" "log_wf (klog s)" "set ks \<subseteq> {..<nat (lg_n (klog s))}" "distinct ks"
    and "\<forall>b \<in> log_area (klog s). ca_refs (abst s) b = 0" "card {x. ca_refs (abst s) x \<noteq> 0} < NBUF"
    and "\<forall>k \<in> set ks. 0 < ca_refs (abst s) (lg_block (klog s) k) \<and>
      ca_refs (abst s) (lg_block (klog s) k) + 1 < 2 ^ 32 \<and> \<not> ca_lck (abst s) (lg_block (klog s) k)"
  shows "\<exists>t. install_trans_loop False ks s = Ret () t \<and> inv t \<and> idle t \<and> bframe s t \<and>
    written (map (\<lambda>k. (lg_block (klog s) k, ca_view (abst s) (log_blockno (klog s) k))) ks) (abst s) (abst t)"
  using assms
proof (induction ks arbitrary: s)
  case Nil
  then show ?case by (simp add: written_refl)
next
  case (Cons k ks)
  let ?l = "log_blockno (klog s) k" and ?h = "lg_block (klog s) k"
  have k: "k < nat (lg_n (klog s))" "k < 30" using Cons.prems(3,4) by (auto simp: log_wf_def)
  have ne: "log_blockno (klog s) j \<noteq> ?h" if "j < nat (lg_n (klog s))" for j
  proof -
    have "j < 30" using that Cons.prems(3) by (auto simp: log_wf_def)
    then show ?thesis
      using log_blockno_area [of j "klog s"] Cons.prems(3) k(1) unfolding log_wf_def by metis
  qed
  have nh: "lg_block (klog s) j \<noteq> ?h" if "j \<in> set ks" for j
    using Cons.prems(3,4,5) that by (auto simp: log_wf_def inj_on_def)
  obtain t where t: "install_trans_loop False (k # ks) s = install_trans_loop False ks t" "inv t" "idle t" "bframe s t"
      "abst t = a_unpin ?h (copy_block ?h ?l (abst s))"
    by (rule install_step [of s ?l k ?h "abst s" ks])
      (use Cons.prems k ne [OF k(1)] log_blockno_area [OF k(2), of "klog s"] in \<open>auto simp: log_wf_def\<close>)
  have kt: "klog t = klog s" using t(4) by (simp add: bframe_simps)
  have w: "written [(?h, ca_view (abst s) ?l)] (abst s) (abst t)"
    unfolding t(5) copy_block_def by (rule written_unpin [OF written_thru])
  have r: "ca_refs (abst t) b = (if b = ?h then ca_refs (abst s) ?h - 1 else ca_refs (abst s) b)"
    "ca_lck (abst t) = ca_lck (abst s)" for b
    using t(5) by (simp_all add: copy_block_def write_thru_def a_unpin_def)
  have "\<forall>b \<in> log_area (klog t). ca_refs (abst t) b = 0" using Cons.prems(6) kt r by auto
  moreover have "card {x. ca_refs (abst t) x \<noteq> 0} < NBUF" using written_room [OF w Cons.prems(7)] .
  moreover have "\<forall>j \<in> set ks. 0 < ca_refs (abst t) (lg_block (klog t) j) \<and>
      ca_refs (abst t) (lg_block (klog t) j) + 1 < 2 ^ 32 \<and> \<not> ca_lck (abst t) (lg_block (klog t) j)"
    using Cons.prems(8) nh kt r by auto
  ultimately obtain u where u: "install_trans_loop False ks t = Ret () u" "inv u" "idle u" "bframe t u"
    "written (map (\<lambda>k. (lg_block (klog s) k, ca_view (abst t) (log_blockno (klog s) k))) ks) (abst t) (abst u)"
    using Cons.IH [OF t(2,3)] Cons.prems kt by auto
  have ne2: "log_blockno (klog s) j \<noteq> ?h" if "j \<in> set ks" for j
    using ne [of j] Cons.prems(4) that by force
  have "map (\<lambda>k. (lg_block (klog s) k, ca_view (abst t) (log_blockno (klog s) k))) ks =
      map (\<lambda>k. (lg_block (klog s) k, ca_view (abst s) (log_blockno (klog s) k))) ks"
    using ne2 by (simp add: t(5) copy_block_def write_thru_def a_unpin_def)
  note m = this
  have "written (map (\<lambda>k. (lg_block (klog s) k, ca_view (abst s) (log_blockno (klog s) k))) (k # ks)) (abst s) (abst u)"
    using written_trans [OF w u(5)] unfolding m by simp
  moreover have "install_trans_loop False (k # ks) s = Ret () u" unfolding t(1) by (rule u(1))
  ultimately show ?case using u(2,3) bframe_trans [OF t(4) u(4)] by blast
qed

text \<open>The disk writes of a commit: log blocks, header, home locations, cleared header.\<close>

lemma commit_spec:
  assumes "inv s" "idle s" "log_wf (klog s)" "log_ready (klog s) (abst s)" "0 < lg_n (klog s)"
  defines "n \<equiv> nat (lg_n (klog s))" and "L \<equiv> log_blockno (klog s)" and "H \<equiv> lg_block (klog s)"
    and "V \<equiv> ca_view (abst s)" and "st \<equiv> lg_start (klog s)"
  shows "\<exists>t h1 h2. commit s = Ret () t \<and> inv t \<and> idle t \<and> klog t = (klog s)\<lparr>lg_n := 0\<rparr> \<and>
    written (map (\<lambda>k. (L k, V (H k))) [0..<n] @ [(st, h1)] @ map (\<lambda>k. (H k, V (H k))) [0..<n] @ [(st, h2)])
      (abst s) (abst t) \<and>
    get32 h1 0 = of_nat n \<and> (\<forall>k < n. get32 h1 (4 + 4 * k) = H k) \<and> get32 h2 0 = 0"
proof -
  let ?W1 = "map (\<lambda>k. (L k, V (H k))) [0..<n]" and ?W2 = "map (\<lambda>k. (H k, V (H k))) [0..<n]"
  have dev: "lg_dev (klog s) = ROOTDEV" and n: "n \<le> 30" using assms(3) by (auto simp: log_wf_def n_def)
  have area: "\<forall>b \<in> log_area (klog s). ca_refs (abst s) b = 0" and room: "card {x. ca_refs (abst s) x \<noteq> 0} < NBUF"
    using assms(4) by (auto simp: log_ready_def)
  obtain t1 where t1: "write_log s = Ret () t1" "inv t1" "idle t1" "bframe s t1" "written ?W1 (abst s) (abst t1)"
      "ca_refs (abst t1) = ca_refs (abst s)"
    using write_log_loop_spec [OF assms(1-4), of "[0..<n]"] by (auto simp: write_log_def n_def L_def H_def V_def atLeast0LessThan)
  have k1: "klog t1 = klog s" using t1(4) by (simp add: bframe_simps)
  have st1: "st = lg_start (klog t1)" "ca_refs (abst t1) st = 0" "card {x. ca_refs (abst t1) x \<noteq> 0} < NBUF"
    using area room start_area [of "klog s"] by (auto simp: st_def k1 t1(6))
  define h1 where "h1 = put_blocks H [0..<n] (put32 0 (of_int (lg_n (klog s))) (ca_view (abst t1) st))"
  obtain t2 where t2: "write_head t1 = Ret () t2" "inv t2" "idle t2" "bframe t1 t2" "abst t2 = write_thru st h1 (abst t1)"
    using write_head_step [OF t1(2,3) _ refl st1] dev by (auto simp: k1 h1_def H_def n_def)
  have k2: "klog t2 = klog s" using t2(4) k1 by (simp add: bframe_simps)
  have w2: "written (?W1 @ [(st, h1)]) (abst s) (abst t2)"
    unfolding t2(5) by (rule written_trans [OF t1(5) written_thru])
  have refs2: "ca_refs (abst t2) = ca_refs (abst s)" "ca_lck (abst t2) = ca_lck (abst s)"
    using t2(5) t1(5,6) by (simp_all add: write_thru_def written_def)
  have "\<exists>t3. install_trans_loop False [0..<n] t2 = Ret () t3 \<and> inv t3 \<and> idle t3 \<and> bframe t2 t3 \<and>
      written (map (\<lambda>k. (H k, ca_view (abst t2) (L k))) [0..<n]) (abst t2) (abst t3)"
    using install_loop_spec [OF t2(2,3), of "[0..<n]"] assms(3,4) by (simp add: k2 refs2 log_ready_def n_def L_def H_def atLeast0LessThan)
  then obtain t3 where t3: "install_trans False t2 = Ret () t3" "inv t3" "idle t3" "bframe t2 t3"
      "written (map (\<lambda>k. (H k, ca_view (abst t2) (L k))) [0..<n]) (abst t2) (abst t3)"
    by (auto simp: install_trans_def k2 n_def)
  have "ca_view (abst t2) (L k) = V (H k)" if "k < n" for k
  proof -
    have "ca_view (abst t2) (L k) = apply_writes (?W1 @ [(st, h1)]) V (L k)" using w2 by (simp add: written_def V_def)
    also have "\<dots> = V (H k)"
    proof (rule apply_writes_at)
      fix y assume y: "(L k, y) \<in> set (?W1 @ [(st, h1)])"
      have "L k \<noteq> st" using log_blockno_start that n by (simp add: L_def st_def)
      moreover have "j = k" if "j < n" "L k = L j" for j
        using log_blockno_inj [of j k "klog s"] that \<open>k < n\<close> n by (simp add: L_def)
      ultimately show "y = V (H k)" using y by auto
    qed (use that in force)
    finally show ?thesis .
  qed
  then have W2: "map (\<lambda>k. (H k, ca_view (abst t2) (L k))) [0..<n] = ?W2" by simp
  have k3: "klog t3 = klog s" using t3(4) k2 by (simp add: bframe_simps)
  define u where "u = upd_log (\<lambda>l. l\<lparr>lg_n := 0\<rparr>) t3"
  have u: "inv u" "idle u" "abst u = abst t3" "klog u = (klog s)\<lparr>lg_n := 0\<rparr>"
    using t3(2,3) k3 by (simp_all add: u_def upd_log_def log_inv)
  have w3: "written ((?W1 @ [(st, h1)]) @ ?W2) (abst s) (abst u)"
    using written_trans [OF w2] t3(5) W2 u(3) by simp
  have "ca_refs (abst u) st \<le> ca_refs (abst s) st" using w3 by (simp add: written_def)
  then have su: "st = lg_start (klog u)" "ca_refs (abst u) st = 0" "card {x. ca_refs (abst u) x \<noteq> 0} < NBUF"
    using area start_area [of "klog s"] written_room [OF w3 room] by (auto simp: st_def u(4))
  define h2 where "h2 = put32 0 (of_int 0) (ca_view (abst u) st)"
  obtain t where t: "write_head u = Ret () t" "inv t" "idle t" "bframe u t" "abst t = write_thru st h2 (abst u)"
    using write_head_step [OF u(1,2) _ refl su] dev by (auto simp: u(4) h2_def)
  have "written (((?W1 @ [(st, h1)]) @ ?W2) @ [(st, h2)]) (abst s) (abst t)"
    unfolding t(5) by (rule written_trans [OF w3 written_thru])
  moreover have "commit s = Ret () t"
    using assms(5) t1(1) t2(1) t3(1) t(1) by (simp add: commit_def u_def)
  moreover have "klog t = (klog s)\<lparr>lg_n := 0\<rparr>" using t(4) u(4) by (simp add: bframe_simps)
  moreover have "get32 h1 0 = of_nat n"
    using assms(5) unfolding h1_def by (subst put_blocks_other) (simp_all add: n_def)
  moreover have "\<forall>k < n. get32 h1 (4 + 4 * k) = H k" unfolding h1_def by (simp add: put_blocks_get)
  moreover have "get32 h2 0 = 0" by (simp add: h2_def)
  ultimately show ?thesis using t(2,3) by auto
qed

end

end
