(* ===== verification/Log_Recovery.thy ===== *)
theory Log_Recovery
  imports Log_Crash
begin

text \<open>
  Recovery of the write-ahead log and its composition with \<^verbatim>\<open>commit\<close>. The effect of
  \<^verbatim>\<open>initlog\<close> on the disk is computed from the header and the log blocks it finds; the
  disk after any prefix of the writes of a commit, or of a recovery, is then shown to
  recover to the same file system contents as the whole transaction or none of it.
\<close>

unbundle bit_operations_syntax

subsection \<open>What recovery finds on disk\<close>

definition area :: "u32 \<Rightarrow> u32 set" where
  "area st = (\<lambda>k. st + of_nat k) ` {0..30}"

definition header_n :: "u32 \<Rightarrow> (u32 \<Rightarrow> block) \<Rightarrow> nat" where
  "header_n st d = nat (sint (get32 (d st) 0))"

definition header_block :: "u32 \<Rightarrow> (u32 \<Rightarrow> block) \<Rightarrow> nat \<Rightarrow> u32" where
  "header_block st d k = get32 (d st) (4 + 4 * k)"

definition header_ok :: "u32 \<Rightarrow> (u32 \<Rightarrow> block) \<Rightarrow> bool" where
  "header_ok st d \<longleftrightarrow> header_n st d \<le> 30 \<and> (\<forall>k < header_n st d. header_block st d k \<notin> area st)"

text \<open>The writes a recovery makes to home locations.\<close>

definition entries :: "u32 \<Rightarrow> (u32 \<Rightarrow> block) \<Rightarrow> (u32 \<times> block) list" where
  "entries st d = map (\<lambda>k. (header_block st d k, d (st + of_nat k + 1))) [0..<header_n st d]"

text \<open>A buffer cache as \<^verbatim>\<open>binit\<close> leaves it: nothing referenced.\<close>

definition fresh :: "cache \<Rightarrow> bool" where
  "fresh c \<longleftrightarrow> (\<forall>b. ca_refs c b = 0)"

lemma log_area_eq: "log_area l = area (lg_start l)"
  by (simp add: log_area_def area_def)

lemma fresh_room: "fresh c \<Longrightarrow> card {x. ca_refs c x \<noteq> 0} < NBUF"
  by (simp add: fresh_def)

lemma fresh_room1: "fresh c \<Longrightarrow> card {x. ca_refs (a_read l c) x \<noteq> 0} < NBUF"
  by (simp add: fresh_def a_read_def cong: conj_cong)

lemma written_fresh: "written ws c c' \<Longrightarrow> fresh c \<Longrightarrow> fresh c'"
  by (simp add: written_def fresh_def)

context buffer_cache
begin

lemma fresh_get: "inv s \<Longrightarrow> fresh (abst s) \<Longrightarrow> can_get b (abst s)"
  using clean [of s b] fresh_room [of "abst s"] by (simp add: can_get_def fresh_def)

lemma recover_step:
  assumes s: "inv s" "idle s" "lg_dev (klog s) = ROOTDEV" "fresh (abst s)"
    and lh: "l = log_blockno (klog s) k" "h = lg_block (klog s) k" "l \<noteq> h" and c: "c = abst s"
  obtains t where "install_trans_loop True (k # ks) s = install_trans_loop True ks t" "inv t" "idle t"
    "klog t = klog s" "abst t = copy_block h l c"
proof -
  obtain out where p: "printf (''recovering tail %d dst %d'' @ [CHR 0x0A])
      [VInt (of_nat k), VInt (ucast (lg_block (klog s) k))] s = Ret () (s\<lparr>uart_out := out\<rparr>)"
    using printf_returns s(2) idle_free by metis
  define s0 where "s0 = s\<lparr>uart_out := out\<rparr>"
  have s0: "inv s0" "idle s0" "abst s0 = c" "klog s0 = klog s"
    using s c by (simp_all add: s0_def uart_inv idle_def myproc_def)
  have f: "fresh c" "\<And>b. ca_view c b = ca_disk c b \<and> \<not> ca_lck c b"
    using s(4) clean [OF s(1)] by (auto simp: c fresh_def)
  have "can_get l c" "can_get h (a_read l c)"
    using fresh_get [OF s(1,4)] c fresh_room1 [OF f(1), of l] f lh(3)
    by (auto simp: can_get_def a_read_def fresh_def)
  from install_copy [OF s0(1,2) lh(3) s0(3) [symmetric] this]
  obtain i1 i2 t1 t2 t4 where t: "bread ROOTDEV l s0 = Ret i1 t1" "bread ROOTDEV h t1 = Ret i2 t2"
    "bwrite i2 (copy_data i2 i1 t2) = Ret () t4" "bframe s0 t1" "bframe t1 t2" "bframe t2 t4"
    and t4: "inv t4" "idle t4" "abst t4 = write_thru h (ca_view c l) (a_read h (a_read l c))" "own t4 i1 l" "own t4 i2 h"
    by metis
  have "ca_view (abst t4) l = ca_disk (abst t4) l"
    using t4(3) f(2) lh(3) by (simp add: write_thru_def a_read_def)
  then obtain t6 where t6: "brelse i1 t4 = Ret () t6" "inv t6" "idle t6" "bframe t4 t6"
      "abst t6 = a_rel l (abst t4)" "own t6 i2 h"
    using drop_block [OF t4(1,2,4)] t4(5) lh(3) by metis
  have "ca_view (abst t6) h = ca_disk (abst t6) h" using t6(5) t4(3) by (simp add: write_thru_def a_rel_def)
  then obtain t7 where t7: "brelse i2 t6 = Ret () t7" "inv t7" "idle t7" "bframe t6 t7" "abst t7 = a_rel h (abst t6)"
    using drop_block [OF t6(2,3,6)] by metis
  have "abst t7 = copy_block h l c"
    unfolding t7(5) t6(5) t4(3) using lh(3) f
    by (intro cache.equality) (auto simp: a_rel_def a_read_def copy_block_def write_thru_def fun_eq_iff fresh_def)
  moreover have "bframe s0 t7" by (metis bframe_trans t(4,5,6) t6(4) t7(4))
  then have "klog t7 = klog s" using s0(4) by (simp add: bframe_simps)
  moreover have "install_trans_loop True (k # ks) s = install_trans_loop True ks t7"
    using t(1-3) t6(1) t7(1) p t(4) s0(4) s(3) lh by (simp add: bframe_simps flip: s0_def)
  ultimately show ?thesis using that t7(2,3) by blast
qed

lemma recover_loop_spec:
  assumes "inv s" "idle s" "lg_dev (klog s) = ROOTDEV" "fresh (abst s)"
    and "\<forall>j \<in> set ks. \<forall>k \<in> set ks. log_blockno (klog s) j \<noteq> lg_block (klog s) k"
  shows "\<exists>t. install_trans_loop True ks s = Ret () t \<and> inv t \<and> idle t \<and> klog t = klog s \<and>
    written (map (\<lambda>k. (lg_block (klog s) k, ca_view (abst s) (log_blockno (klog s) k))) ks) (abst s) (abst t)"
  using assms
proof (induction ks arbitrary: s)
  case Nil
  then show ?case by (simp add: written_refl)
next
  case (Cons k ks)
  let ?l = "log_blockno (klog s) k" and ?h = "lg_block (klog s) k"
  obtain t where t: "install_trans_loop True (k # ks) s = install_trans_loop True ks t" "inv t" "idle t"
      "klog t = klog s" "abst t = copy_block ?h ?l (abst s)"
    by (rule recover_step [of s ?l k ?h "abst s" ks]) (use Cons.prems in auto)
  have w: "written [(?h, ca_view (abst s) ?l)] (abst s) (abst t)"
    unfolding t(5) copy_block_def by (rule written_thru)
  obtain u where u: "install_trans_loop True ks t = Ret () u" "inv u" "idle u" "klog u = klog s"
    "written (map (\<lambda>k. (lg_block (klog s) k, ca_view (abst t) (log_blockno (klog s) k))) ks) (abst t) (abst u)"
    using Cons.IH [OF t(2,3)] Cons.prems t(4) written_fresh [OF w] by auto
  have m: "map (\<lambda>k. (lg_block (klog s) k, ca_view (abst t) (log_blockno (klog s) k))) ks =
      map (\<lambda>k. (lg_block (klog s) k, ca_view (abst s) (log_blockno (klog s) k))) ks"
    using Cons.prems(5) by (simp add: t(5) copy_block_def write_thru_def)
  have "written (map (\<lambda>k. (lg_block (klog s) k, ca_view (abst s) (log_blockno (klog s) k))) (k # ks)) (abst s) (abst u)"
    using written_trans [OF w u(5)] unfolding m by simp
  then show ?case using t(1) u(1-4) by auto
qed

lemma read_head_spec:
  assumes s: "inv s" "idle s" "lg_dev (klog s) = ROOTDEV" "fresh (abst s)" and d: "d = disk s (lg_start (klog s))"
  obtains t where "read_head s = Ret () t" "inv t" "idle t" "abst t = abst s"
    "klog t = (klog s)\<lparr>lg_n := sint (get32 d 0), lg_block := head_blocks d [0..<nat (sint (get32 d 0))] (lg_block (klog s))\<rparr>"
proof -
  let ?b = "lg_start (klog s)"
  obtain i t1 where t1: "bread ROOTDEV ?b s = Ret i t1" "inv t1" "idle t1" "bframe s t1"
      "abst t1 = a_read ?b (abst s)" "own t1 i ?b"
    using get_block [OF s(1,2) fresh_get [OF s(1,4)]] by metis
  have cl: "ca_view (abst s) b = ca_disk (abst s) b \<and> \<not> ca_lck (abst s) b \<and> ca_refs (abst s) b = 0" for b
    using clean [OF s(1)] s(4) by (simp add: fresh_def)
  have dd: "b_data (bufs t1 i) = d" using data [OF t1(2,6)] t1(5) cl device d by (simp add: a_read_def)
  define t2 where "t2 = upd_log (\<lambda>l. l\<lparr>lg_n := sint (get32 d 0), lg_block := head_blocks d [0..<nat (sint (get32 d 0))] (lg_block l)\<rparr>) t1"
  have t2: "inv t2" "idle t2" "abst t2 = abst t1" "own t2 i ?b"
    using t1 by (simp_all add: t2_def upd_log_def log_inv)
  have k2: "klog t2 = (klog s)\<lparr>lg_n := sint (get32 d 0), lg_block := head_blocks d [0..<nat (sint (get32 d 0))] (lg_block (klog s))\<rparr>"
    using t1(4) by (simp add: t2_def upd_log_def bframe_simps)
  have "ca_view (abst t2) ?b = ca_disk (abst t2) ?b" using t2(3) t1(5) cl by (simp add: a_read_def)
  then obtain t where t: "brelse i t2 = Ret () t" "inv t" "idle t" "bframe t2 t" "abst t = a_rel ?b (abst t2)"
    using drop_block [OF t2(1,2,4)] by metis
  have "abst t = abst s"
    unfolding t(5) t2(3) t1(5) using cl
    by (intro cache.equality) (auto simp: a_rel_def a_read_def fun_eq_iff)
  moreover have "read_head s = Ret () t"
    using t1(1) t(1) s(3) by (simp add: read_head_def Let_def dd flip: t2_def)
  moreover have "klog t = klog t2" using t(4) by (simp add: bframe_simps)
  ultimately show ?thesis using that t(2,3) k2 by simp
qed

lemma recover_spec:
  assumes s: "inv s" "idle s" "lg_dev (klog s) = ROOTDEV" "fresh (abst s)"
    and ok: "header_ok (lg_start (klog s)) (disk s)"
  shows "\<exists>t h. recover_from_log s = Ret () t \<and> inv t \<and> idle t \<and> fresh (abst t) \<and> get32 h 0 = 0 \<and>
    lg_n (klog t) = 0 \<and> dwrites t = dwrites s @ entries (lg_start (klog s)) (disk s) @ [(lg_start (klog s), h)] \<and>
    disk t = apply_writes (entries (lg_start (klog s)) (disk s) @ [(lg_start (klog s), h)]) (disk s)"
proof -
  let ?st = "lg_start (klog s)"
  let ?n = "header_n ?st (disk s)"
  obtain t1 where t1: "read_head s = Ret () t1" "inv t1" "idle t1" "abst t1 = abst s"
    and k1: "klog t1 = (klog s)\<lparr>lg_n := sint (get32 (disk s ?st) 0),
      lg_block := head_blocks (disk s ?st) [0..<?n] (lg_block (klog s))\<rparr>"
    using read_head_spec [OF s refl] by (auto simp: header_n_def)
  have L: "log_blockno (klog t1) k = ?st + of_nat k + 1" for k by (simp add: k1 log_blockno_def)
  have H: "lg_block (klog t1) k = header_block ?st (disk s) k" if "k < ?n" for k
    using that by (simp add: k1 head_blocks_get header_block_def)
  have ne: "log_blockno (klog t1) j \<noteq> lg_block (klog t1) k" if "j < ?n" "k < ?n" for j k
  proof -
    have "log_blockno (klog t1) j \<in> area ?st"
      using log_blockno_area [of j "klog t1"] that(1) ok by (simp add: log_area_eq k1 header_ok_def)
    then show ?thesis using ok that(2) by (auto simp: H header_ok_def)
  qed
  have v: "ca_view (abst s) = disk s" using clean [OF s(1)] s(4) device by (auto simp: fresh_def fun_eq_iff)
  obtain t2 where t2: "install_trans_loop True [0..<?n] t1 = Ret () t2" "inv t2" "idle t2" "klog t2 = klog t1"
    "written (map (\<lambda>k. (lg_block (klog t1) k, ca_view (abst t1) (log_blockno (klog t1) k))) [0..<?n]) (abst t1) (abst t2)"
    using recover_loop_spec [OF t1(2,3), of "[0..<?n]"] s(3,4) t1(4) ne by (auto simp: k1)
  have e: "map (\<lambda>k. (lg_block (klog t1) k, ca_view (abst t1) (log_blockno (klog t1) k))) [0..<?n] = entries ?st (disk s)"
    by (simp add: entries_def H L t1(4) v)
  have w: "written (entries ?st (disk s)) (abst s) (abst t2)" using t2(5) [unfolded e] by (simp add: t1(4))
  define u where "u = upd_log (\<lambda>l. l\<lparr>lg_n := 0\<rparr>) t2"
  have u: "inv u" "idle u" "abst u = abst t2" "lg_start (klog u) = ?st" "lg_dev (klog u) = ROOTDEV" "lg_n (klog u) = 0"
    using t2(2,3,4) s(3) by (simp_all add: u_def upd_log_def log_inv k1)
  have fu: "fresh (abst u)" using written_fresh [OF w s(4)] u(3) by simp
  define h where "h = put32 0 (of_int 0) (ca_view (abst u) ?st)"
  obtain t where t: "write_head u = Ret () t" "inv t" "idle t" "bframe u t" "abst t = write_thru ?st h (abst u)"
    using write_head_step [OF u(1,2,5) refl u(4) [symmetric]] fu fresh_room [OF fu] u(4,6) by (auto simp: h_def fresh_def)
  have w': "written (entries ?st (disk s) @ [(?st, h)]) (abst s) (abst t)"
    unfolding t(5) u(3) by (rule written_trans [OF w written_thru])
  have "recover_from_log s = Ret () t"
    using t1(1) t2(1) t(1) by (simp add: recover_from_log_def install_trans_def u_def k1 header_n_def)
  moreover have "fresh (abst t)" using written_fresh [OF w' s(4)] .
  moreover have "lg_n (klog t) = 0" using t(4) u(6) by (simp add: bframe_simps)
  moreover have "dwrites t = dwrites s @ entries ?st (disk s) @ [(?st, h)]"
    "disk t = apply_writes (entries ?st (disk s) @ [(?st, h)]) (disk s)"
    using w' by (auto simp: written_def device)
  moreover have "get32 h 0 = 0" by (simp add: h_def)
  ultimately show ?thesis using t(2,3) by blast
qed

lemma initlog_spec:
  assumes s: "inv s" "idle s" "fresh (abst s)" and ok: "header_ok (sb_logstart super) (disk s)"
  shows "\<exists>t h. initlog ROOTDEV super s = Ret () t \<and> inv t \<and> idle t \<and> fresh (abst t) \<and> get32 h 0 = 0 \<and> lg_n (klog t) = 0 \<and>
    dwrites t = dwrites s @ entries (sb_logstart super) (disk s) @ [(sb_logstart super, h)] \<and>
    disk t = apply_writes (entries (sb_logstart super) (disk s) @ [(sb_logstart super, h)]) (disk s)"
proof -
  define u where "u = upd_log (\<lambda>l. l\<lparr>lg_start := sb_logstart super, lg_dev := ROOTDEV\<rparr>) s"
  have u: "inv u" "idle u" "fresh (abst u)" "lg_dev (klog u) = ROOTDEV" "lg_start (klog u) = sb_logstart super"
    "disk u = disk s" "dwrites u = dwrites s"
    using s by (simp_all add: u_def upd_log_def log_inv)
  then show ?thesis using recover_spec [of u] ok by (simp add: initlog_def flip: u_def)
qed

end

subsection \<open>Recovery after a crash\<close>

definition recovered :: "u32 \<Rightarrow> (u32 \<Rightarrow> block) \<Rightarrow> u32 \<Rightarrow> block" where
  "recovered st d = apply_writes (entries st d) d"

lemma header_clear:
  "get32 (d st) 0 = 0 \<Longrightarrow> header_ok st d \<and> recovered st d = d"
  by (simp add: header_ok_def header_n_def recovered_def entries_def)

lemma area_log: "k < 30 \<Longrightarrow> st + of_nat k + 1 \<in> area st"
  unfolding area_def by (rule image_eqI [of _ _ "Suc k"]) simp_all

lemma area_start: "st \<in> area st"
  unfolding area_def by (rule image_eqI [of _ _ 0]) simp_all

lemma area_log_inj:
  assumes "j < 30" "k < 30" "st + of_nat j + 1 = st + of_nat k + (1 :: u32)"
  shows "j = k"
  using assms by (intro of_nat_31_inj) simp_all

lemma area_log_start: "k < 30 \<Longrightarrow> st + of_nat k + 1 \<noteq> (st :: u32)"
  using log_blockno_start [of k "\<lparr>lg_start = st, lg_outstanding = 0, lg_committing = False, lg_dev = 0, lg_n = 0,
    lg_block = \<lambda>_. 0\<rparr>"] by (simp add: log_blockno_def)

lemma area_iff: "b \<in> area st \<longleftrightarrow> unat (b - st) \<le> 30"
proof
  assume "b \<in> area st"
  then obtain k where "k \<le> 30" "b - st = of_nat k" by (auto simp: area_def)
  then show "unat (b - st) \<le> 30" by (simp add: unat_of_nat_lt)
next
  assume "unat (b - st) \<le> 30"
  then show "b \<in> area st" unfolding area_def by (intro image_eqI [of _ _ "unat (b - st)"]) simp_all
qed

lemma area_outside: "st + 31 \<notin> area st"
  by (simp add: area_iff)

lemma apply_writes_cong:
  "b \<in> fst ` set ws \<or> d b = d' b \<Longrightarrow> apply_writes ws d b = apply_writes ws d' b"
proof (induction ws arbitrary: d d')
  case Nil
  then show ?case by simp
next
  case (Cons w ws)
  obtain a x where w: "w = (a, x)" by (cases w)
  have "b \<in> fst ` set ws \<or> (d(a := x)) b = (d'(a := x)) b" using Cons.prems by (auto simp: w)
  then show ?case unfolding w apply_writes_simps by (rule Cons.IH)
qed

text \<open>The header, once written, names the blocks of the transaction, and the log holds their
  new contents: whatever subset of the home locations has been overwritten by then.\<close>

lemma committed_recovered:
  assumes n: "n \<le> 30" and h: "get32 (d st) 0 = of_nat n" "\<And>k. k < n \<Longrightarrow> get32 (d st) (4 + 4 * k) = H k"
    and out: "\<And>k. k < n \<Longrightarrow> H k \<notin> area st" and log: "\<And>k. k < n \<Longrightarrow> d (st + of_nat k + 1) = V (H k)"
  shows "header_ok st d" and "entries st d = map (\<lambda>k. (H k, V (H k))) [0..<n]"
proof -
  have "sint (of_nat n :: u32) = int n"
    using n by (simp add: signed_of_nat signed_take_bit_int_eq_self)
  then have "header_n st d = n" by (simp add: header_n_def h(1))
  then show "header_ok st d" "entries st d = map (\<lambda>k. (H k, V (H k))) [0..<n]"
    using n out h(2) log by (auto simp: header_ok_def header_block_def entries_def)
qed

lemma home_writes:
  "apply_writes (map (\<lambda>k. (H k, V (H k))) ks) d b = (if b \<in> H ` set ks then V b else d b)"
proof (cases "b \<in> H ` set ks")
  case True
  then have "apply_writes (map (\<lambda>k. (H k, V (H k))) ks) d b = V b"
    by (intro apply_writes_at) (auto simp: image_image)
  with True show ?thesis by simp
next
  case False
  then show ?thesis using apply_writes_other [of b "map (\<lambda>k. (H k, V (H k))) ks" d] by (auto simp: image_image)
qed

lemma log_writes_other:
  "b \<notin> area st \<Longrightarrow> set ks \<subseteq> {..<30} \<Longrightarrow>
   apply_writes (map (\<lambda>k. (st + of_nat k + 1, f k)) ks) d b = d b"
  using area_log by (intro apply_writes_other) (fastforce simp: image_iff)

lemma log_writes_start:
  "set ks \<subseteq> {..<30} \<Longrightarrow> apply_writes (map (\<lambda>k. (st + of_nat k + 1, f k)) ks) d st = d st"
  using area_log_start [of _ st] by (intro apply_writes_other) (fastforce simp: image_iff)

lemma log_writes_at:
  assumes "k \<in> set ks" "set ks \<subseteq> {..<30}"
  shows "apply_writes (map (\<lambda>k. (st + of_nat k + 1, f k)) ks) d (st + of_nat k + 1) = f k"
proof (rule apply_writes_at)
  fix y assume "(st + of_nat k + 1, y) \<in> set (map (\<lambda>k. (st + of_nat k + 1, f k)) ks)"
  then obtain j where j: "j \<in> set ks" "st + of_nat k + 1 = st + of_nat j + (1 :: u32)" "y = f j" by auto
  then have "k = j" using assms by (intro area_log_inj [of k j st]) auto
  with j(3) show "y = f k" by simp
qed (use assms(1) in force)

definition commit_writes :: "u32 \<Rightarrow> nat \<Rightarrow> (nat \<Rightarrow> u32) \<Rightarrow> (u32 \<Rightarrow> block) \<Rightarrow> block \<Rightarrow> block \<Rightarrow> (u32 \<times> block) list" where
  "commit_writes st n H V h1 h2 = map (\<lambda>k. (st + of_nat k + 1, V (H k))) [0..<n] @ [(st, h1)] @
     map (\<lambda>k. (H k, V (H k))) [0..<n] @ [(st, h2)]"

lemma length_commit_writes: "length (commit_writes st n H V h1 h2) = 2 * n + 2"
  by (simp add: commit_writes_def)

lemma commit_prefix_early:
  fixes H V h1 h2
  assumes "n \<le> 30" "m \<le> n" "get32 (d st) 0 = 0" "b \<notin> area st"
  defines "e \<equiv> apply_writes (take m (commit_writes st n H V h1 h2)) d"
  shows "header_ok st e \<and> recovered st e b = d b"
proof -
  have "e = apply_writes (map (\<lambda>k. (st + of_nat k + 1, V (H k))) [0..<m]) d"
    using assms(2) by (simp add: e_def commit_writes_def take_map)
  moreover have "set [0..<m] \<subseteq> {..<30}" using assms(1,2) by auto
  ultimately have "e st = d st" "e b = d b" using log_writes_start log_writes_other [OF assms(4)] by auto
  with assms(3) show ?thesis using header_clear [of e st] by simp
qed

lemma commit_prefix_late:
  fixes h2
  assumes n: "n \<le> 30" "n < m" "m \<le> 2 * n + 1"
    and h1: "get32 h1 0 = of_nat n" "\<And>k. k < n \<Longrightarrow> get32 h1 (4 + 4 * k) = H k"
    and out: "\<And>k. k < n \<Longrightarrow> H k \<notin> area st" and cl: "b \<notin> H ` {..<n} \<Longrightarrow> V b = d b" and b: "b \<notin> area st"
  defines "e \<equiv> apply_writes (take m (commit_writes st n H V h1 h2)) d"
  shows "header_ok st e \<and> recovered st e b = V b"
proof -
  define i where "i = m - Suc n"
  have i: "i \<le> n" "m = Suc (n + i)" using n by (simp_all add: i_def)
  define e1 where "e1 = (apply_writes (map (\<lambda>k. (st + of_nat k + 1, V (H k))) [0..<n]) d)(st := h1)"
  have e: "e = apply_writes (map (\<lambda>k. (H k, V (H k))) [0..<i]) e1"
    using i by (simp add: e_def e1_def commit_writes_def take_map)
  have sub: "set [0..<n] \<subseteq> {..<30}" using n(1) by auto
  have same: "e x = e1 x" if "x \<in> area st" for x
    using that out i(1) by (auto simp: e home_writes)
  have est: "e st = h1" using same [OF area_start] by (simp add: e1_def)
  have elog: "e (st + of_nat k + 1) = V (H k)" if "k < n" for k
    using same [OF area_log [of k st]] log_writes_at [OF _ sub, of k st] area_log_start [of k st] that n(1)
    by (simp add: e1_def)
  have ok: "header_ok st e" "entries st e = map (\<lambda>k. (H k, V (H k))) [0..<n]"
    using committed_recovered [OF n(1), of e st H V] est h1 out elog by simp_all
  have "e1 b = d b" using log_writes_other [OF b sub] b area_start by (auto simp: e1_def)
  then have "recovered st e b = V b"
    using cl i(1) by (auto simp: recovered_def ok(2) home_writes atLeast0LessThan) (auto simp: e home_writes)
  with ok(1) show ?thesis by simp
qed

lemma commit_prefix_done:
  fixes h1
  assumes n: "n \<le> 30" and h2: "get32 h2 0 = 0" and cl: "b \<notin> H ` {..<n} \<Longrightarrow> V b = d b" and b: "b \<notin> area st"
  defines "e \<equiv> apply_writes (commit_writes st n H V h1 h2) d"
  shows "header_ok st e \<and> recovered st e b = V b"
proof -
  have "e st = h2" by (simp add: e_def commit_writes_def)
  then have "header_ok st e \<and> recovered st e = e" using header_clear [of e st] h2 by simp
  moreover have "set [0..<n] \<subseteq> {..<30}" using n by auto
  then have "e b = V b"
    using cl b log_writes_other [OF b, of "[0..<n]" "\<lambda>k. V (H k)" d] area_start [of st]
    by (auto simp: e_def commit_writes_def home_writes atLeast0LessThan)
  ultimately show ?thesis by simp
qed

lemma commit_prefix:
  assumes "n \<le> 30" "m \<le> 2 * n + 2" "get32 (d st) 0 = 0"
    and "get32 h1 0 = of_nat n" "\<And>k. k < n \<Longrightarrow> get32 h1 (4 + 4 * k) = H k" "get32 h2 0 = 0"
    and "\<And>k. k < n \<Longrightarrow> H k \<notin> area st" and "\<And>b. b \<notin> H ` {..<n} \<Longrightarrow> V b = d b" and b: "b \<notin> area st"
  defines "e \<equiv> apply_writes (take m (commit_writes st n H V h1 h2)) d"
  shows "header_ok st e \<and> recovered st e b = (if m \<le> n then d b else V b)"
proof -
  consider "m \<le> n" | "n < m" "m \<le> 2 * n + 1" | "n < m" "m = 2 * n + 2" using assms(2) by linarith
  then show ?thesis
  proof cases
    case 1
    then show ?thesis unfolding e_def using commit_prefix_early [of n m d st b, OF assms(1) 1 assms(3) b] by simp
  next
    case 2
    then show ?thesis unfolding e_def
      using commit_prefix_late [of n m h1 H st b V d, OF assms(1) 2 assms(4,5,7) assms(8) b] 2 by simp
  next
    case 3
    have "take m (commit_writes st n H V h1 h2) = commit_writes st n H V h1 h2"
      using 3(2) length_commit_writes by (intro take_all) simp
    then show ?thesis unfolding e_def
      using commit_prefix_done [of n h2 b H V d st, OF assms(1,6) assms(8) b] 3(1) by simp
  qed
qed

lemma take_snoc: "take m (xs @ [x]) = (if m \<le> length xs then take m xs else xs @ [x])"
  by (simp add: take_Cons')

text \<open>A recovery that is itself cut off leaves a disk that recovers to the same contents.\<close>

lemma recovery_prefix:
  fixes m
  assumes ok: "header_ok st d" and h: "get32 h 0 = 0" and b: "b \<notin> area st"
  defines "e \<equiv> apply_writes (take m (entries st d @ [(st, h)])) d"
  shows "header_ok st e \<and> recovered st e b = recovered st d b"
proof (cases "m \<le> length (entries st d)")
  case True
  then have e: "e = apply_writes (take m (entries st d)) d" by (simp add: e_def take_snoc)
  have "fst ` set (take m (entries st d)) \<inter> area st = {}"
    using ok by (auto simp: entries_def header_ok_def dest!: in_set_takeD)
  then have same: "e x = d x" if "x \<in> area st" for x
    using that unfolding e by (intro apply_writes_other) blast
  have n: "header_n st e = header_n st d" "header_block st e = header_block st d"
    using same [OF area_start] by (simp_all add: header_n_def header_block_def [abs_def])
  have "e (st + of_nat k + 1) = d (st + of_nat k + 1)" if "k < header_n st d" for k
    using ok that by (intro same area_log) (simp add: header_ok_def)
  then have en: "entries st e = entries st d" by (simp add: entries_def n)
  have "recovered st e b = recovered st d b"
  proof (cases "b \<in> fst ` set (entries st d)")
    case False
    then have "b \<notin> fst ` set (take m (entries st d))" by (auto dest: in_set_takeD)
    then have "e b = d b" unfolding e by (rule apply_writes_other)
    then show ?thesis unfolding recovered_def en by (intro apply_writes_cong) simp
  qed (auto simp: recovered_def en intro: apply_writes_cong)
  with ok show ?thesis by (simp add: header_ok_def n)
next
  case False
  then have e: "e = (recovered st d)(st := h)" by (simp add: e_def take_snoc recovered_def)
  then show ?thesis using header_clear [of e st] h b area_start [of st] by auto
qed

text \<open>The disks a machine may be left with when it starts from disk \<^verbatim>\<open>d\<close> and is stopped any
  number of times while it recovers, each time after some of the writes of that
  recovery.\<close>

inductive recovery_crashes :: "superblock \<Rightarrow> (u32 \<Rightarrow> block) \<Rightarrow> (u32 \<Rightarrow> block) \<Rightarrow> bool"
  for super :: superblock and d :: "u32 \<Rightarrow> block" where
  off: "recovery_crashes super d d"
| again: "recovery_crashes super d (apply_writes (take m ws) (disk r))"
  if "recovery_crashes super d (disk r)" "cache_inv r" "idle r" "fresh (cabs r)"
    "initlog ROOTDEV super r = Ret () t" "dwrites t = dwrites r @ ws"

lemma crashes_recovered:
  assumes "recovery_crashes super d e" "header_ok (sb_logstart super) d"
  shows "header_ok (sb_logstart super) e \<and>
    (\<forall>b. b \<notin> area (sb_logstart super) \<longrightarrow> recovered (sb_logstart super) e b = recovered (sb_logstart super) d b)"
  using assms
proof induction
  case off
  then show ?case by simp
next
  case (again r t ws m)
  let ?st = "sb_logstart super"
  have ok: "header_ok ?st (disk r)" using again by simp
  obtain t' h where "initlog ROOTDEV super r = Ret () t'" "get32 h 0 = 0"
      "dwrites t' = dwrites r @ entries ?st (disk r) @ [(?st, h)]"
    using bio.initlog_spec [OF again.hyps(2-4) ok] by blast
  then have ws: "ws = entries ?st (disk r) @ [(?st, h)]" and h: "get32 h 0 = 0" using again.hyps(5,6) by auto
  have "header_ok ?st (apply_writes (take m ws) (disk r))"
    using recovery_prefix [OF ok h area_outside] unfolding ws by simp
  then show ?case using recovery_prefix [OF ok h] again unfolding ws by auto
qed

subsection \<open>A concrete transaction\<close>

text \<open>A process that has put one block, number 100, into the log starting at block 2.\<close>

definition demo_kernel :: "(u32 \<Rightarrow> block) \<Rightarrow> kernel" where
  "demo_kernel d = kernel0\<lparr>cpus := \<lambda>_. \<lparr>c_proc = Some 0, c_context = \<lambda>_. 0\<rparr>, disk := d,
     klog := \<lparr>lg_start = 2, lg_outstanding = 0, lg_committing = True, lg_dev = ROOTDEV, lg_n = 1, lg_block = \<lambda>_. 100\<rparr>\<rparr>"

definition demo_buf :: "block \<Rightarrow> buf" where
  "demo_buf x = \<lparr>b_valid = True, b_disk = False, b_dev = ROOTDEV, b_blockno = 100,
     b_lock = \<lparr>sl_locked = False, sl_pid = 0\<rparr>, b_refcnt = 1, b_data = x\<rparr>"

definition demo_tx :: kernel where
  "demo_tx = (let s = binit (demo_kernel (\<lambda>_ _. 0)) in s\<lparr>bufs := (bufs s)(0 := demo_buf (\<lambda>_. 7))\<rparr>)"

definition demo_super :: superblock where
  "demo_super = (sb kernel0)\<lparr>sb_logstart := 2\<rparr>"

lemma demo_boot:
  "cache_inv (binit (demo_kernel d))" "fresh (cabs (binit (demo_kernel d)))" "idle (binit (demo_kernel d))"
  "disk (binit (demo_kernel d)) = d" "dwrites (binit (demo_kernel d)) = []" "klog (binit (demo_kernel d)) = klog (demo_kernel d)"
proof -
  have b: "\<forall>i < NBUF. bufs (demo_kernel d) i = buf0" by (simp add: demo_kernel_def kernel0_def)
  show "cache_inv (binit (demo_kernel d))" "fresh (cabs (binit (demo_kernel d)))"
    using binit_inv(1,2) [OF b] by (simp_all add: fresh_def)
  obtain n v B where e: "binit (demo_kernel d) = (demo_kernel d)\<lparr>lru_next := n, lru_prev := v, bufs := B\<rparr>"
    using binit_inv(3) [OF b] by blast
  show "idle (binit (demo_kernel d))" "disk (binit (demo_kernel d)) = d" "dwrites (binit (demo_kernel d)) = []"
    "klog (binit (demo_kernel d)) = klog (demo_kernel d)"
    unfolding e by (simp_all add: idle_def myproc_def demo_kernel_def kernel0_def)
qed

lemma demo_tx_cache:
  "cache_inv demo_tx"
  "cabs demo_tx = \<lparr>ca_view = (\<lambda>_ _. 0)(100 := \<lambda>_. 7), ca_refs = (\<lambda>_. 0)(100 := 1), ca_lck = \<lambda>_. False,
     ca_disk = \<lambda>_ _. 0, ca_hist = []\<rparr>"
proof -
  define s where "s = binit (demo_kernel (\<lambda>_ _. 0))"
  have b: "\<forall>i < NBUF. bufs (demo_kernel d) i = buf0" for d by (simp add: demo_kernel_def kernel0_def)
  have s: "cache_inv s" "cabs s = \<lparr>ca_view = \<lambda>_ _. 0, ca_refs = \<lambda>_. 0, ca_lck = \<lambda>_. False, ca_disk = \<lambda>_ _. 0, ca_hist = []\<rparr>"
    "\<And>i. i < NBUF \<Longrightarrow> bufs s i = buf0" "disk s = (\<lambda>_ _. 0)"
    using binit_inv [OF b, of "\<lambda>_ _. 0"] by (auto simp: s_def demo_kernel_def kernel0_def)
  have miss: "slot (bufs s) 100 = None"
    using s(3) by (auto simp: slot_def find_None_iff is_block_def buf0_def simp del: upt_rec_numeral)
  define s1 where "s1 = s\<lparr>bufs := (bufs s)(0 := demo_buf (\<lambda>_. 0))\<rparr>"
  have q: "is_block 100 (demo_buf x)" "buf_ok (demo_buf x) d" for x d
    by (simp_all add: demo_buf_def is_block_def buf_ok_def)
  have "cache_inv s1" "cabs s1 = (cabs s)\<lparr>ca_refs := (\<lambda>_. 0)(100 := 1), ca_lck := (\<lambda>_. False)(100 := False)\<rparr>"
    unfolding s1_def using evict [OF s(1) _ _ miss q] s by (simp_all add: buf_view_def demo_buf_def buf0_def)
  note s1 = this
  have t: "demo_tx = s1\<lparr>bufs := (bufs s1)(0 := demo_buf (\<lambda>_. 7))\<rparr>"
    by (simp add: demo_tx_def s1_def s_def Let_def)
  have b1: "is_block 100 (bufs s1 0)" by (simp add: s1_def q)
  show "cache_inv demo_tx" unfolding t by (rule cache_inv_upd_buf [OF s1(1) _ b1 q]) simp
  show "cabs demo_tx = \<lparr>ca_view = (\<lambda>_ _. 0)(100 := \<lambda>_. 7), ca_refs = (\<lambda>_. 0)(100 := 1), ca_lck = \<lambda>_. False,
     ca_disk = \<lambda>_ _. 0, ca_hist = []\<rparr>"
    unfolding t using cabs_upd_buf [OF s1(1) _ b1 q(1)] s1(2) s(2)
    by (simp add: demo_buf_def buf_view_def fun_upd_def fun_eq_iff cong: if_cong)
qed

subsection \<open>Properties\<close>

text \<open>\<^bold>\<open>C3\<close> The buffer cache refines a plain array of blocks that is written through to the
  disk: reading a block through \<^verbatim>\<open>bread\<close>, changing the buffer, \<^verbatim>\<open>bwrite\<close> and
  \<^verbatim>\<open>brelse\<close> returns, keeps the invariant of the cache, and changes exactly that block,
  to the changed old contents, in the cache, on the disk and in no other place; whether the
  block was cached, and which buffer is recycled for it, makes no difference.\<close>

theorem block_update_refines:
  assumes "cache_inv s" "idle s" "can_get b (cabs s)"
  shows "returns (bnd (bread ROOTDEV b s) (\<lambda>i s.
      bnd (bwrite i (upd_buf i (\<lambda>q. q\<lparr>b_data := f (b_data q)\<rparr>) s)) (\<lambda>_ s. brelse i s)))
    (\<lambda>_ t. cache_inv t \<and> cabs t = (cabs s)\<lparr>
      ca_view := (ca_view (cabs s))(b := f (ca_view (cabs s) b)),
      ca_disk := (disk s)(b := f (ca_view (cabs s) b)),
      ca_hist := dwrites s @ [(b, f (ca_view (cabs s) b))]\<rparr>)"
proof -
  obtain i t1 t2 t where "bread ROOTDEV b s = Ret i t1" "bframe s t1"
    "bwrite i (upd_buf i (\<lambda>q. q\<lparr>b_data := f (b_data q)\<rparr>) t1) = Ret () t2" "brelse i t2 = Ret () t"
    "cache_inv t" "idle t" "bframe s t" "cabs t = write_thru b (f (ca_view (cabs s) b)) (cabs s)"
    by (rule bio.update_block [OF assms, where f = f])
  then show ?thesis by (simp add: write_thru_def bio.device)
qed

theorem block_update_refines_witness:
  "returns (bnd (bread ROOTDEV 5 (binit (demo_kernel (\<lambda>_ _. 1)))) (\<lambda>i s.
      bnd (bwrite i (upd_buf i (\<lambda>q. q\<lparr>b_data := (b_data q)(0 := 9)\<rparr>) s)) (\<lambda>_ s. brelse i s)))
    (\<lambda>_ t. disk t 5 = (\<lambda>_. 1)(0 := 9) \<and> disk t 6 = (\<lambda>_. 1))"
proof -
  let ?s = "binit (demo_kernel (\<lambda>_ _. 1))"
  have c: "can_get 5 (cabs ?s)" by (rule bio.fresh_get) (rule demo_boot)+
  have v: "ca_view (cabs ?s) 5 = (\<lambda>_. 1)"
    using bio.clean [OF demo_boot(1)] demo_boot(2) bio.device demo_boot(4) by (simp add: fresh_def)
  show ?thesis
  proof (rule returns_weaken [OF block_update_refines [OF demo_boot(1,3) c, of "\<lambda>d. d(0 := 9)"]])
    fix t assume "cache_inv t \<and> cabs t = (cabs ?s)\<lparr>
      ca_view := (ca_view (cabs ?s))(5 := (ca_view (cabs ?s) 5)(0 := 9)),
      ca_disk := (disk ?s)(5 := (ca_view (cabs ?s) 5)(0 := 9)),
      ca_hist := dwrites ?s @ [(5, (ca_view (cabs ?s) 5)(0 := 9))]\<rparr>"
    then have "ca_disk (cabs t) = (disk ?s)(5 := (ca_view (cabs ?s) 5)(0 := 9))" by simp
    then show "disk t 5 = (\<lambda>_. 1)(0 := 9) \<and> disk t 6 = (\<lambda>_. 1)" by (simp add: bio.device v demo_boot(4))
  qed
qed

lemma initlog_recovers:
  assumes "cache_inv r" "idle r" "fresh (cabs r)" "header_ok (sb_logstart super) (disk r)"
  shows "returns (initlog ROOTDEV super r) (\<lambda>_ t.
    \<forall>b. b \<notin> area (sb_logstart super) \<longrightarrow> disk t b = recovered (sb_logstart super) (disk r) b)"
  using bio.initlog_spec [OF assms] area_start [of "sb_logstart super"]
  by (auto simp: returns_iff recovered_def)

text \<open>\<^bold>\<open>C1\<close> Crash atomicity of a transaction. Let a commit start with an empty header on
  disk, every block of the transaction pinned in the cache, and every other block clean.
  It returns, with the home locations holding the new contents. Stop the machine after any
  \<^verbatim>\<open>m\<close> of its disk writes, and stop it again any number of times in the middle of
  the recoveries that follow: the recovery that completes leaves, outside the log, exactly
  the disk from before the transaction if the header had not been written
  (\<^verbatim>\<open>m\<close> at most the number of logged blocks), and exactly the disk with all of the
  transaction applied otherwise.\<close>

theorem commit_crash_atomic:
  assumes "cache_inv s" "idle s" "log_wf (klog s)" "log_ready (klog s) (cabs s)" "0 < lg_n (klog s)"
    and "get32 (disk s (lg_start (klog s))) 0 = 0"
    and "\<forall>b. b \<notin> lg_block (klog s) ` {..<nat (lg_n (klog s))} \<longrightarrow> ca_view (cabs s) b = disk s b"
    and "sb_logstart super = lg_start (klog s)"
  shows "\<exists>t ws. commit s = Ret () t \<and> dwrites t = dwrites s @ ws \<and>
    length ws = 2 * nat (lg_n (klog s)) + 2 \<and>
    (\<forall>b. b \<notin> area (lg_start (klog s)) \<longrightarrow> disk t b = ca_view (cabs s) b) \<and>
    (\<forall>m r. m \<le> length ws \<and> recovery_crashes super (apply_writes (take m ws) (disk s)) (disk r) \<and>
        cache_inv r \<and> idle r \<and> fresh (cabs r) \<longrightarrow>
      returns (initlog ROOTDEV super r) (\<lambda>_ r'. \<forall>b. b \<notin> area (lg_start (klog s)) \<longrightarrow>
        disk r' b = (if m \<le> nat (lg_n (klog s)) then disk s b else ca_view (cabs s) b)))"
proof -
  define n st V H where "n = nat (lg_n (klog s))" and "st = lg_start (klog s)" and "V = ca_view (cabs s)"
    and "H = lg_block (klog s)"
  note defs = n_def st_def V_def H_def
  obtain t h1 h2 where t: "commit s = Ret () t"
    and w: "written (map (\<lambda>k. (log_blockno (klog s) k, V (H k))) [0..<n] @ [(st, h1)] @
        map (\<lambda>k. (H k, V (H k))) [0..<n] @ [(st, h2)]) (cabs s) (cabs t)"
    and h: "get32 h1 0 = of_nat n" "\<And>k. k < n \<Longrightarrow> get32 h1 (4 + 4 * k) = H k" "get32 h2 0 = 0"
    using bio.commit_spec [OF assms(1-5)] unfolding defs by blast
  define ws where "ws = commit_writes st n H V h1 h2"
  have "map (\<lambda>k. (log_blockno (klog s) k, V (H k))) [0..<n] = map (\<lambda>k. (st + of_nat k + 1, V (H k))) [0..<n]"
    by (simp add: log_blockno_def st_def)
  with w have w': "written ws (cabs s) (cabs t)" by (simp only: ws_def commit_writes_def)
  then have d: "dwrites t = dwrites s @ ws" "disk t = apply_writes ws (disk s)"
    by (simp_all add: written_def bio.device)
  have n: "n \<le> 30" and out: "\<And>k. k < n \<Longrightarrow> H k \<notin> area st"
    using assms(3) by (auto simp: log_wf_def log_area_eq defs)
  have cl: "V b = disk s b" if "b \<notin> H ` {..<n}" for b using assms(7) that by (simp add: defs)
  have hd: "get32 (disk s st) 0 = 0" using assms(6) by (simp add: st_def)
  have len: "length ws = 2 * n + 2" by (simp add: ws_def length_commit_writes)
  have pre: "header_ok st (apply_writes (take m ws) (disk s)) \<and>
      recovered st (apply_writes (take m ws) (disk s)) b = (if m \<le> n then disk s b else V b)"
    if "m \<le> length ws" "b \<notin> area st" for m b
    unfolding ws_def using that n hd h out cl len by (intro commit_prefix) auto
  have fin: "disk t b = V b" if "b \<notin> area st" for b
  proof -
    have "disk t st = h2" by (simp add: d(2) ws_def commit_writes_def)
    then have "recovered st (disk t) = disk t" using header_clear [of "disk t" st] h(3) by simp
    then show ?thesis using pre [of "length ws" b] that len by (simp add: d(2))
  qed
  have "returns (initlog ROOTDEV super r) (\<lambda>_ r'. \<forall>b. b \<notin> area st \<longrightarrow> disk r' b = (if m \<le> n then disk s b else V b))"
    if m: "m \<le> length ws" and r: "recovery_crashes super (apply_writes (take m ws) (disk s)) (disk r)"
      "cache_inv r" "idle r" "fresh (cabs r)" for m r
  proof -
    have "header_ok (sb_logstart super) (apply_writes (take m ws) (disk s))"
      using pre [OF m area_outside] assms(8) by (simp add: st_def)
    note c = crashes_recovered [OF r(1) this]
    then have "recovered st (disk r) b = (if m \<le> n then disk s b else V b)" if "b \<notin> area st" for b
      using pre [OF m that] that assms(8) by (simp add: st_def)
    with initlog_recovers [OF r(2-4), of super] c assms(8) show ?thesis by (auto simp: returns_iff st_def)
  qed
  with t d(1) fin len show ?thesis unfolding defs by blast
qed

text \<open>The transaction above: cut off after the log block it never happened, cut off after the
  header it did.\<close>

theorem commit_crash_atomic_witness:
  "\<exists>t ws. commit demo_tx = Ret () t \<and> dwrites t = ws \<and> disk t 100 = (\<lambda>_. 7) \<and>
    returns (initlog ROOTDEV demo_super (binit (demo_kernel (apply_writes (take 1 ws) (\<lambda>_ _. 0)))))
      (\<lambda>_ r. disk r 100 = (\<lambda>_. 0)) \<and>
    returns (initlog ROOTDEV demo_super (binit (demo_kernel (apply_writes (take 2 ws) (\<lambda>_ _. 0)))))
      (\<lambda>_ r. disk r 100 = (\<lambda>_. 7))"
proof -
  have k: "klog demo_tx = klog (demo_kernel (\<lambda>_ _. 0))" "disk demo_tx = (\<lambda>_ _. 0)" "dwrites demo_tx = []" "idle demo_tx"
    using demo_boot [of "\<lambda>_ _. 0"] by (simp_all add: demo_tx_def Let_def idle_def myproc_def)
  have l: "lg_start (klog demo_tx) = 2" "lg_n (klog demo_tx) = 1" "lg_block (klog demo_tx) = (\<lambda>_. 100)" "lg_dev (klog demo_tx) = 1"
    by (simp_all add: k(1) demo_kernel_def)
  have a: "100 \<notin> area 2" by (simp add: area_iff)
  have wf: "log_wf (klog demo_tx)" using a by (simp add: log_wf_def log_area_eq l inj_on_def)
  have "\<forall>b \<in> log_area (klog demo_tx). b \<noteq> 100" using a by (auto simp: log_area_eq l)
  then have rdy: "log_ready (klog demo_tx) (cabs demo_tx)"
    by (simp add: log_ready_def demo_tx_cache l)
  have z: "get32 (disk demo_tx (lg_start (klog demo_tx))) 0 = 0" by (simp add: k get32_def eval_nat_numeral)
  have cl: "\<forall>b. b \<notin> lg_block (klog demo_tx) ` {..<nat (lg_n (klog demo_tx))} \<longrightarrow> ca_view (cabs demo_tx) b = disk demo_tx b"
    by (auto simp: l k(2) demo_tx_cache(2))
  have sup: "sb_logstart demo_super = lg_start (klog demo_tx)" by (simp add: l demo_super_def)
  have pos: "0 < lg_n (klog demo_tx)" by (simp add: l)
  obtain t ws where c: "commit demo_tx = Ret () t" "dwrites t = ws" "length ws = 4"
      "\<And>b. b \<notin> area 2 \<Longrightarrow> disk t b = ca_view (cabs demo_tx) b"
    and r: "\<And>m r. m \<le> length ws \<Longrightarrow> recovery_crashes demo_super (apply_writes (take m ws) (\<lambda>_ _. 0)) (disk r) \<Longrightarrow>
        cache_inv r \<Longrightarrow> idle r \<Longrightarrow> fresh (cabs r) \<Longrightarrow>
      returns (initlog ROOTDEV demo_super r) (\<lambda>_ r'. \<forall>b. b \<notin> area 2 \<longrightarrow>
        disk r' b = (if m \<le> nat 1 then (\<lambda>_. 0) else ca_view (cabs demo_tx) b))"
    using commit_crash_atomic [OF demo_tx_cache(1) k(4) wf rdy pos z cl sup, unfolded l k(2,3)] by auto
  have b: "returns (initlog ROOTDEV demo_super (binit (demo_kernel (apply_writes (take m ws) (\<lambda>_ _. 0)))))
      (\<lambda>_ r'. disk r' 100 = (if m \<le> 1 then (\<lambda>_. 0) else (\<lambda>_. 7)))" if "m \<le> 4" for m
    using r [of m "binit (demo_kernel (apply_writes (take m ws) (\<lambda>_ _. 0)))"] that c(3) a
    by (auto simp: demo_boot recovery_crashes.off returns_iff demo_tx_cache(2))
  show ?thesis using c a b [of 1] b [of 2] by (auto simp: demo_tx_cache(2))
qed

end
