(* ===== verification/Log_Tx.thy ===== *)
theory Log_Tx
  imports Log_Recovery
begin

text \<open>
  Transactions of the log: the reservation that \<^verbatim>\<open>begin_op\<close> makes is enough for every
  \<^verbatim>\<open>log_write\<close> that follows, whatever the order in which concurrent system calls begin,
  write and end; and the one situation the reservation does not cover, a commit with every
  buffer of the cache pinned.
\<close>

subsection \<open>The buffer cache leaves the log's variables alone\<close>

definition keeps_log :: "log \<Rightarrow> 'a kres \<Rightarrow> bool" where
  "keeps_log l m \<longleftrightarrow> ensures m (\<lambda>_ t. klog t = l)"

named_theorems log_frame

lemma keeps_log_simps [simp]:
  "keeps_log l (Ret x s) \<longleftrightarrow> klog s = l" "keeps_log l (Panic e)" "keeps_log l (Switch s)" "keeps_log l Diverge"
  by (simp_all add: keeps_log_def)

lemma keeps_log_bnd:
  "keeps_log l m \<Longrightarrow> (\<And>x s. klog s = l \<Longrightarrow> keeps_log l (f x s)) \<Longrightarrow> keeps_log l (bnd m f)"
  unfolding keeps_log_def by (rule ensures_bnd)

lemma keeps_log_if: "keeps_log l m \<Longrightarrow> keeps_log l m' \<Longrightarrow> keeps_log l (if c then m else m')"
  by simp

lemma keeps_log_proc: "(\<And>p. keeps_log l (f p)) \<Longrightarrow> keeps_log l (with_proc s f)"
  by (simp add: with_proc_def split: option.split)

lemma keeps_log_loop: "(\<And>x. keeps_log l (g x)) \<Longrightarrow> keeps_log l (loop_res P f x g)"
  by (simp add: loop_res_def split: option.split)

lemmas keeps_log_rules = keeps_log_bnd keeps_log_if keeps_log_proc keeps_log_loop

lemma upd_log_frame [simp]:
  "klog (upd_buf i f s) = klog s" "klog (upd_proc p g s) = klog s" "klog (set_sl l v s) = klog s"
  "klog (disk_xfer i w s) = klog s" "klog (lru_front i s) = klog s" "klog (copy_data i j s) = klog s"
  by (simp_all add: upd_buf_def upd_proc_def disk_xfer_def lru_front_def Let_def copy_data_def, cases l, simp_all)

lemma lock_log [log_frame]:
  "klog s = l \<Longrightarrow> keeps_log l (acquire k s)" "klog s = l \<Longrightarrow> keeps_log l (release k s)"
  by (simp_all add: acquire_def release_def)

lemma sched_log [log_frame]: "keeps_log l (sched s)"
  by (auto simp: sched_def intro!: keeps_log_rules)

lemma sleep_log [log_frame]: "klog s = l \<Longrightarrow> keeps_log l (sleep c k s)"
  unfolding sleep_def by (intro keeps_log_rules log_frame) auto

lemma wakeup_loop_log: "klog s = l \<Longrightarrow> keeps_log l (wakeup_loop c ps s)"
  by (induction ps arbitrary: s) (auto intro!: keeps_log_rules log_frame)

lemma wakeup_log [log_frame]: "klog s = l \<Longrightarrow> keeps_log l (wakeup c s)"
  by (simp add: wakeup_def wakeup_loop_log)

lemma acquiresleep_log [log_frame]: "klog s = l \<Longrightarrow> keeps_log l (acquiresleep k s)"
  unfolding acquiresleep_def by (intro keeps_log_rules log_frame) auto

lemma releasesleep_log [log_frame]: "klog s = l \<Longrightarrow> keeps_log l (releasesleep k s)"
  unfolding releasesleep_def by (intro keeps_log_rules log_frame) auto

lemma holdingsleep_log [log_frame]: "klog s = l \<Longrightarrow> keeps_log l (holdingsleep k s)"
  unfolding holdingsleep_def Let_def by (intro keeps_log_rules log_frame) auto

lemma disk_rw_log [log_frame]: "klog s = l \<Longrightarrow> keeps_log l (disk_rw b w s)"
  unfolding disk_rw_def by (intro keeps_log_rules log_frame) auto

lemma bget_log [log_frame]: "klog s = l \<Longrightarrow> keeps_log l (bget d b s)"
  unfolding bget_def
  by (intro keeps_log_rules log_frame; (simp split: bptr.split)?; intro conjI allI impI keeps_log_rules log_frame; (simp split: bptr.split)?;
      intro conjI allI impI keeps_log_rules log_frame; simp?)

lemma bread_log [log_frame]: "klog s = l \<Longrightarrow> keeps_log l (bread d b s)"
  unfolding bread_def by (intro keeps_log_rules log_frame) auto

lemma bwrite_log [log_frame]: "klog s = l \<Longrightarrow> keeps_log l (bwrite b s)"
  unfolding bwrite_def by (intro keeps_log_rules log_frame) auto

lemma brelse_log [log_frame]: "klog s = l \<Longrightarrow> keeps_log l (brelse b s)"
  unfolding brelse_def Let_def by (intro keeps_log_rules log_frame) auto

lemma bpin_log [log_frame]: "klog s = l \<Longrightarrow> keeps_log l (bpin b s)"
  unfolding bpin_def by (intro keeps_log_rules log_frame) auto

lemma bunpin_log [log_frame]: "klog s = l \<Longrightarrow> keeps_log l (bunpin b s)"
  unfolding bunpin_def by (intro keeps_log_rules log_frame) auto

lemma write_log_log: "klog s = l \<Longrightarrow> keeps_log l (write_log_loop ks s)"
  by (induction ks arbitrary: s) (auto intro!: keeps_log_rules log_frame)

lemma install_log: "klog s = l \<Longrightarrow> keeps_log l (install_trans_loop False ks s)"
  by (induction ks arbitrary: s) (auto intro!: keeps_log_rules log_frame)

lemma write_head_log [log_frame]: "klog s = l \<Longrightarrow> keeps_log l (write_head s)"
  unfolding write_head_def Let_def by (intro keeps_log_rules log_frame) auto

lemma commit_log:
  assumes "0 \<le> lg_n (klog s)"
  shows "ensures (commit s) (\<lambda>_ t. klog t = (klog s)\<lparr>lg_n := 0\<rparr>)"
proof (cases "0 < lg_n (klog s)")
  case True
  have "ensures (write_log s) (\<lambda>_ t. klog t = klog s)"
    using write_log_log [of s] by (simp add: write_log_def keeps_log_def)
  moreover have "ensures (write_head t) (\<lambda>_ u. klog u = klog s)" if "klog t = klog s" for t
    using write_head_log [OF that] by (simp add: keeps_log_def)
  moreover have "ensures (install_trans False t) (\<lambda>_ u. klog u = klog s)" if "klog t = klog s" for t
    using install_log [OF that] by (simp add: keeps_log_def install_trans_def)
  moreover have "ensures (write_head (upd_log (\<lambda>l. l\<lparr>lg_n := 0\<rparr>) t)) (\<lambda>_ u. klog u = (klog s)\<lparr>lg_n := 0\<rparr>)"
    if "klog t = klog s" for t
    using write_head_log [of "upd_log (\<lambda>l. l\<lparr>lg_n := 0\<rparr>) t" "(klog s)\<lparr>lg_n := 0\<rparr>"] that
    by (simp add: keeps_log_def upd_log_def)
  ultimately show ?thesis
    unfolding commit_def using True by (auto intro!: ensures_bnd)
next
  case False
  with assms show ?thesis by (simp add: commit_def)
qed

subsection \<open>Reservations\<close>

text \<open>Interleavings of the system calls that use the log. The list has, for every operation
  between its \<^verbatim>\<open>begin_op\<close> and its \<^verbatim>\<open>end_op\<close>, the number of
  \<^verbatim>\<open>log_write\<close> calls it has made; no operation makes more than
  \<^verbatim>\<open>MAXOPBLOCKS\<close>. Anything that does not touch the log may happen in between.\<close>

inductive tx_reach :: "kernel \<Rightarrow> nat list \<Rightarrow> bool" where
  tx_start: "tx_reach s []" if "lg_n (klog s) = 0" "lg_outstanding (klog s) = 0" "\<not> lg_committing (klog s)"
| tx_begin: "tx_reach t (0 # us)" if "tx_reach s us" "begin_op s = Ret () t"
| tx_write: "tx_reach t (us @ Suc u # vs)" if "tx_reach s (us @ u # vs)" "u < nat MAXOPBLOCKS" "log_write b s = Ret () t"
| tx_end: "tx_reach t (us @ vs)" if "tx_reach s (us @ u # vs)" "end_op s = Ret () t"
| tx_other: "tx_reach t us" if "tx_reach s us" "klog t = klog s"

definition reserved :: "log \<Rightarrow> nat list \<Rightarrow> bool" where
  "reserved l us \<longleftrightarrow> \<not> lg_committing l \<and> lg_outstanding l = int (length us) \<and> 0 \<le> lg_n l \<and>
     (\<forall>u \<in> set us. u \<le> 10) \<and> lg_n l + (\<Sum>u\<leftarrow>us. 10 - int u) \<le> LOGBLOCKS"

lemma begin_op_Ret:
  assumes "begin_op s = Ret () t"
  shows "\<not> lg_committing (klog s) \<and> lg_n (klog s) + (lg_outstanding (klog s) + 1) * MAXOPBLOCKS \<le> LOGBLOCKS \<and>
    klog t = (klog s)\<lparr>lg_outstanding := lg_outstanding (klog s) + 1\<rparr>"
proof -
  have no: "sleep c k u \<noteq> Ret x t" for c k u x
  proof -
    have "sched u \<noteq> Ret x t" for u x t by (simp add: sched_def with_proc_def split: option.split)
    then show ?thesis by (auto simp: sleep_def with_proc_def bnd_Ret_iff split: option.split)
  qed
  then show ?thesis
    using assms by (auto simp: begin_op_def begin_op_loop_def bnd_Ret_iff acquire_def release_def Let_def upd_log_def
        split: if_splits)
qed

lemma log_index_le: "log_index l b \<le> nat (lg_n l)"
  unfolding log_index_def by (metis diff_zero length_takeWhile_le length_upt)

lemma log_index_less:
  "log_index l b < nat (lg_n l) \<longleftrightarrow> b \<in> lg_block l ` {..<nat (lg_n l)}"
proof
  assume a: "log_index l b < nat (lg_n l)"
  then have "\<not> lg_block l ([0..<nat (lg_n l)] ! log_index l b) \<noteq> b"
    unfolding log_index_def by (metis (mono_tags, lifting) diff_zero length_upt nth_length_takeWhile)
  with a show "b \<in> lg_block l ` {..<nat (lg_n l)}" by (auto intro!: image_eqI [of _ _ "log_index l b"])
next
  assume "b \<in> lg_block l ` {..<nat (lg_n l)}"
  then obtain k where k: "k < nat (lg_n l)" "lg_block l k = b" by auto
  have "takeWhile (\<lambda>i. lg_block l i \<noteq> b) [0..<nat (lg_n l)] \<noteq> [0..<nat (lg_n l)]"
    using k by (auto simp: takeWhile_eq_all_conv)
  then show "log_index l b < nat (lg_n l)"
    unfolding log_index_def
    by (metis diff_zero length_takeWhile_le length_upt nat_less_le takeWhile_eq_take take_all_iff)
qed

lemma log_index_hit: "log_index l b < nat (lg_n l) \<Longrightarrow> lg_block l (log_index l b) = b"
  unfolding log_index_def
  by (metis (mono_tags, lifting) add.left_neutral diff_zero length_upt nth_length_takeWhile nth_upt)

text \<open>The whole of \<^verbatim>\<open>log_write\<close>: a block that is already in the log is absorbed, a new one
  gets the next entry and a reference.\<close>

lemma log_write_eq:
  fixes b
  assumes "LogLock \<notin> held s" "BcacheLock \<notin> held s" "0 \<le> lg_n (klog s)" "lg_n (klog s) < LOGBLOCKS"
    "1 \<le> lg_outstanding (klog s)"
  defines "blk \<equiv> b_blockno (bufs s b)"
  shows "log_write b s = Ret () (if blk \<in> lg_block (klog s) ` {..<nat (lg_n (klog s))} then s
    else s\<lparr>klog := (klog s)\<lparr>lg_n := lg_n (klog s) + 1, lg_block := (lg_block (klog s))(nat (lg_n (klog s)) := blk)\<rparr>,
      bufs := (bufs s)(b := (bufs s b)\<lparr>b_refcnt := b_refcnt (bufs s b) + 1\<rparr>)\<rparr>)"
proof -
  let ?i = "log_index (klog s) blk"
  show ?thesis
  proof (cases "blk \<in> lg_block (klog s) ` {..<nat (lg_n (klog s))}")
    case True
    then have i: "?i < nat (lg_n (klog s))" by (simp add: log_index_less)
    then have "int ?i \<noteq> lg_n (klog s)" by linarith
    moreover have "(lg_block (klog s))(?i := blk) = lg_block (klog s)"
      using log_index_hit [OF i] by (simp add: fun_upd_idem)
    ultimately show ?thesis
      using assms(1-5) True by (simp add: log_write_def Let_def upd_log_def flip: blk_def)
  next
    case False
    then have "?i = nat (lg_n (klog s))" using log_index_less [of "klog s" blk] log_index_le [of "klog s" blk] by linarith
    then have "int ?i = lg_n (klog s)" "?i = nat (lg_n (klog s))" using assms(3) by simp_all
    then show ?thesis
      using assms(1-5) False by (simp add: log_write_def Let_def upd_log_def bpin_def upd_buf_def flip: blk_def)
  qed
qed

lemma log_write_Ret:
  assumes "log_write b s = Ret () t" "0 \<le> lg_n (klog s)"
  shows "lg_n (klog t) = lg_n (klog s) \<or> lg_n (klog t) = lg_n (klog s) + 1"
    "lg_outstanding (klog t) = lg_outstanding (klog s)" "lg_committing (klog t) = lg_committing (klog s)"
    "0 \<le> lg_n (klog t)"
proof -
  have "LogLock \<notin> held s" "lg_n (klog s) < LOGBLOCKS" "1 \<le> lg_outstanding (klog s)"
    using assms(1) by (auto simp: log_write_def acquire_def split: if_splits)
  note h = this
  show "lg_n (klog t) = lg_n (klog s) \<or> lg_n (klog t) = lg_n (klog s) + 1"
    "lg_outstanding (klog t) = lg_outstanding (klog s)" "lg_committing (klog t) = lg_committing (klog s)" "0 \<le> lg_n (klog t)"
    using assms h by (auto simp: log_write_def Let_def bnd_Ret_iff acquire_def release_def bpin_def upd_log_def split: if_splits)
qed

lemma end_op_Ret:
  assumes "end_op s = Ret () t" "0 \<le> lg_n (klog s)" "\<not> lg_committing (klog s)"
  shows "klog t = (klog s)\<lparr>lg_outstanding := lg_outstanding (klog s) - 1,
    lg_n := (if lg_outstanding (klog s) = 1 then 0 else lg_n (klog s))\<rparr>"
proof -
  define l where "l = (klog s)\<lparr>lg_outstanding := lg_outstanding (klog s) - 1\<rparr>"
  define u where "u = upd_log (\<lambda>l. l\<lparr>lg_outstanding := lg_outstanding l - 1\<rparr>) (s\<lparr>held := insert LogLock (held s)\<rparr>)"
  have u: "klog u = l" by (simp add: u_def l_def upd_log_def)
  have free: "LogLock \<notin> held s" using assms(1) by (auto simp: end_op_def acquire_def split: if_splits)
  have op: "end_op s = (if lg_outstanding (klog s) = 1 then
       bnd (release LogLock (upd_log (\<lambda>l. l\<lparr>lg_committing := True\<rparr>) u)) (\<lambda>_ s.
       bnd (commit s) (\<lambda>_ s.
       bnd (acquire LogLock s) (\<lambda>_ s.
       bnd (wakeup ChLog (upd_log (\<lambda>l. l\<lparr>lg_committing := False\<rparr>) s)) (\<lambda>_ s. release LogLock s))))
     else bnd (wakeup ChLog u) (\<lambda>_ s. release LogLock s))"
    using free assms(3) u by (auto simp: end_op_def Let_def l_def simp flip: u_def)
  have lock: "klog y = klog x" if "release LogLock x = Ret () y \<or> acquire LogLock x = Ret () y" for x y
    using that by (auto simp: release_def acquire_def split: if_splits)
  have wake: "klog y = klog x" if "wakeup ChLog x = Ret () y" for x y
    using wakeup_log [OF refl, of x ChLog] that by (simp add: keeps_log_def)
  show ?thesis
  proof (cases "lg_outstanding (klog s) = 1")
    case True
    then obtain v w x y where r: "release LogLock (upd_log (\<lambda>l. l\<lparr>lg_committing := True\<rparr>) u) = Ret () v"
        "commit v = Ret () w" "acquire LogLock w = Ret () x"
        "wakeup ChLog (upd_log (\<lambda>l. l\<lparr>lg_committing := False\<rparr>) x) = Ret () y" "release LogLock y = Ret () t"
      using assms(1) op by (auto simp: bnd_Ret_iff)
    have v: "klog v = l\<lparr>lg_committing := True\<rparr>" "klog x = klog w" "klog t = (klog x)\<lparr>lg_committing := False\<rparr>"
      using lock [OF disjI1 [OF r(1)]] lock [OF disjI2 [OF r(3)]] lock [OF disjI1 [OF r(5)]] wake [OF r(4)]
      by (simp_all add: upd_log_def u)
    have cv: "0 \<le> lg_n (klog v)" using v(1) assms(2) by (simp add: l_def)
    then have "klog w = l\<lparr>lg_committing := True, lg_n := 0\<rparr>"
      using ensuresD [OF commit_log [OF cv] r(2)] v(1) by simp
    with v True show ?thesis using assms(3) by (cases "klog s") (simp add: l_def)
  next
    case False
    then obtain y where r: "wakeup ChLog u = Ret () y" "release LogLock y = Ret () t"
      using assms(1) op by (auto simp: bnd_Ret_iff)
    then show ?thesis using lock [OF disjI1 [OF r(2)]] wake [OF r(1)] u False by (simp add: l_def)
  qed
qed

lemma reserved_sum: "(\<Sum>u\<leftarrow>us. 10 - int u) \<le> 10 * int (length us)"
  by (induction us) auto

lemma tx_reserved: "tx_reach s us \<Longrightarrow> reserved (klog s) us"
proof (induction rule: tx_reach.induct)
  case (tx_start s)
  then show ?case by (simp add: reserved_def)
next
  case (tx_begin s us t)
  then show ?case using begin_op_Ret [OF tx_begin(2)] reserved_sum [of us] by (simp add: reserved_def)
next
  case (tx_write s us u vs b t)
  then show ?case using log_write_Ret [OF tx_write(3)] by (auto simp: reserved_def)
next
  case (tx_end s us u vs t)
  then show ?case using end_op_Ret [OF tx_end(2)] by (auto simp: reserved_def)
next
  case (tx_other s us t)
  then show ?case by simp
qed

subsection \<open>Properties\<close>

text \<open>\<^bold>\<open>C8\<close> The reservation suffices. In every state that any interleaving of
  \<^verbatim>\<open>begin_op\<close>, \<^verbatim>\<open>log_write\<close> and \<^verbatim>\<open>end_op\<close> calls can reach, with at most
  \<^verbatim>\<open>MAXOPBLOCKS\<close> writes per operation, a \<^verbatim>\<open>log_write\<close> by an operation that has
  writes left returns: neither of its panics is possible. The block is then in the
  in-memory header, once more only if it was not there, the earlier entries keep their
  place, and the header fits in the log.\<close>

theorem log_write_reserved:
  assumes "tx_reach s (us @ u # vs)" "u < nat MAXOPBLOCKS" "LogLock \<notin> held s" "BcacheLock \<notin> held s"
  shows "returns (log_write b s) (\<lambda>_ t. lg_n (klog t) \<le> LOGBLOCKS \<and>
    b_blockno (bufs s b) \<in> lg_block (klog t) ` {..<nat (lg_n (klog t))} \<and>
    lg_n (klog t) = lg_n (klog s) + (if b_blockno (bufs s b) \<in> lg_block (klog s) ` {..<nat (lg_n (klog s))} then 0 else 1) \<and>
    (\<forall>k < nat (lg_n (klog s)). lg_block (klog t) k = lg_block (klog s) k))"
proof -
  have r: "reserved (klog s) (us @ u # vs)" using tx_reserved [OF assms(1)] .
  have "0 \<le> (\<Sum>u\<leftarrow>ws. 10 - int u)" if "\<forall>u \<in> set ws. u \<le> 10" for ws
    using that by (induction ws) auto
  from this [of us] this [of vs] r assms(2)
  have n: "0 \<le> lg_n (klog s)" "lg_n (klog s) < LOGBLOCKS" "1 \<le> lg_outstanding (klog s)"
    by (auto simp: reserved_def)
  then have "nat (lg_n (klog s) + 1) = Suc (nat (lg_n (klog s)))" by simp
  then show ?thesis
    using log_write_eq [OF assms(3,4) n, of b] n by (auto simp: lessThan_Suc)
qed

theorem log_write_reserved_witness:
  "\<exists>t. begin_op kernel0 = Ret () t \<and> returns (log_write 0 t) (\<lambda>_ u. lg_n (klog u) = 1)"
proof -
  define t where "t = kernel0\<lparr>klog := (klog kernel0)\<lparr>lg_outstanding := 1\<rparr>\<rparr>"
  have b: "begin_op kernel0 = Ret () t"
    by (simp add: t_def begin_op_def begin_op_loop_def upd_log_def kernel0_def)
  have "tx_reach kernel0 []" by (rule tx_start) (simp_all add: kernel0_def)
  then have "tx_reach t ([] @ 0 # [])" using tx_begin [OF _ b] by simp
  moreover have t: "held t = {}" "lg_n (klog t) = 0" by (simp_all add: t_def kernel0_def)
  ultimately have "returns (log_write 0 t) (\<lambda>_ u. lg_n (klog u) = 1)"
    using log_write_reserved [of t "[]" 0 "[]" 0] by (auto simp: returns_iff)
  with b show ?thesis by blast
qed

text \<open>\<^bold>\<open>C35\<close> The cache has as many buffers as the log has blocks. When a transaction has
  filled the log, as the reservation admits, each of its blocks is pinned, so that no buffer
  is left to hold a block of the log, and the commit panics.\<close>

theorem commit_full_cache:
  assumes "cache_inv s" "idle s" "log_wf (klog s)" "lg_n (klog s) = LOGBLOCKS"
    and "\<forall>k < nat LOGBLOCKS. 0 < ca_refs (cabs s) (lg_block (klog s) k)"
  shows "commit s = Panic ''bget: no buffers''"
proof -
  let ?H = "lg_block (klog s)" and ?l = "log_blockno (klog s) 0"
  define f where "f k = the (slot (bufs s) (?H k))" for k
  have f: "slot (bufs s) (?H k) = Some (f k) \<and> b_refcnt (bufs s (f k)) \<noteq> 0" if "k < 30" for k
    using assms(5) that by (auto simp: f_def cabs_def split: option.splits)
  have fb: "f k < 30 \<and> is_block (?H k) (bufs s (f k))" if "k < 30" for k using slot_SomeD f [OF that] by blast
  have "inj_on f {..<30}"
  proof (rule inj_onI)
    fix j k assume jk: "j \<in> {..<30}" "k \<in> {..<30}" "f j = f k"
    then have "?H j = ?H k" using fb [of j] fb [of k] by (auto simp: is_block_def)
    then show "j = k" using assms(3,4) jk by (auto simp: log_wf_def inj_on_def)
  qed
  then have all: "f ` {..<30} = {..<30}" using fb by (intro endo_inj_surj) auto
  have used: "b_refcnt (bufs s i) \<noteq> 0 \<and> \<not> is_block ?l (bufs s i)" if "i < 30" for i
  proof -
    have "i \<in> f ` {..<30}" using that all by simp
    then obtain k where k: "k < 30" "i = f k" by auto
    moreover have "?H k \<noteq> ?l"
      using assms(3,4) k(1) log_blockno_area [of 0 "klog s"] by (auto simp: log_wf_def)
    ultimately show ?thesis using f [of k] fb [of k] by (auto simp: is_block_def)
  qed
  obtain ls where ls: "ring s ls" "set ls = {..<NBUF}" using assms(1) by (auto simp: cache_inv_def)
  have "find (has_block ROOTDEV ?l s) ls = None" "find (unused s) (rev ls) = None"
    using used ls(2) by (auto simp: find_None_iff has_block_def unused_def is_block_def)
  from bget_full [OF ls(1) idle_free [OF assms(2)] this]
  have "bread ROOTDEV ?l s = Panic ''bget: no buffers''" by (simp add: bread_def)
  moreover have "[0..<nat (lg_n (klog s))] = 0 # [1..<30]" using assms(4) by (simp add: upt_conv_Cons)
  ultimately show ?thesis using assms(3,4) by (simp add: commit_def write_log_def log_wf_def)
qed

text \<open>Thirty buffers pinned to the blocks 100 to 129.\<close>

definition full_cache :: kernel where
  "full_cache = (binit (demo_kernel (\<lambda>_ _. 0)))\<lparr>bufs := \<lambda>i. (demo_buf (\<lambda>_. 7))\<lparr>b_blockno := 100 + of_nat i\<rparr>,
     klog := \<lparr>lg_start = 2, lg_outstanding = 0, lg_committing = True, lg_dev = ROOTDEV, lg_n = LOGBLOCKS,
       lg_block = \<lambda>k. 100 + of_nat k\<rparr>\<rparr>"

theorem commit_full_cache_witness: "commit full_cache = Panic ''bget: no buffers''"
proof (rule commit_full_cache)
  let ?B = "\<lambda>i. (demo_buf (\<lambda>_. 7))\<lparr>b_blockno := 100 + of_nat i\<rparr>"
  have inj: "i = j" if "i < 30" "j < 30" "(100 + of_nat i :: u32) = 100 + of_nat j" for i j
    using that by (intro of_nat_31_inj) auto
  then have B: "bufs_ok ?B d" for d
    by (auto simp: bufs_ok_def buf_ok_def is_block_def demo_buf_def)
  show inv: "cache_inv full_cache"
    using B demo_boot(1) [of "\<lambda>_ _. 0"] by (auto simp: cache_inv_def full_cache_def ring_def)
  show "idle full_cache" using demo_boot(3) [of "\<lambda>_ _. 0"] by (simp add: full_cache_def)
  have "unat (100 + of_nat k - 2 :: u32) = 98 + k" if "k < 30" for k
    using that by (simp add: unat_word_ariths unat_of_nat take_bit_nat_eq_self)
  then have "100 + of_nat k \<notin> area 2" if "k < 30" for k using that by (simp add: area_iff)
  then show "log_wf (klog full_cache)"
    using inj by (auto simp: log_wf_def full_cache_def log_area_eq inj_on_def)
  show "lg_n (klog full_cache) = LOGBLOCKS" by (simp add: full_cache_def)
  show "\<forall>k < nat LOGBLOCKS. 0 < ca_refs (cabs full_cache) (lg_block (klog full_cache) k)"
  proof (intro allI impI)
    fix k assume k: "k < nat LOGBLOCKS"
    have "slot ?B (100 + of_nat k) = Some k"
      by (rule slotI [OF B]) (use k in \<open>simp_all add: is_block_def demo_buf_def\<close>)
    then show "0 < ca_refs (cabs full_cache) (lg_block (klog full_cache) k)"
      by (simp add: full_cache_def cabs_def demo_buf_def)
  qed
qed

end
