(* ===== verification/Virtio_Refine.thy ===== *)
theory Virtio_Refine
  imports Virtio Bio_Cache
begin

text \<open>
  The disk driver implements the contract the buffer cache uses. The device is a parameter:
  \<^verbatim>\<open>device_contract\<close> states what the virtio specification requires of it for the requests
  this driver makes. A call of \<^verbatim>\<open>virtio_disk_rw\<close>, the device's work, the interrupt and
  the second half of the call then have together the effect of \<^verbatim>\<open>disk_rw\<close>.
\<close>

unbundle bit_operations_syntax

subsection \<open>The device\<close>

text \<open>A chain of three descriptors as the driver makes them: request header, data of buffer
  \<^verbatim>\<open>b\<close>, status byte. The data descriptor is marked as written by the device exactly for a
  read request.\<close>

definition request_chain :: "vdisk \<Rightarrow> nat \<Rightarrow> nat \<Rightarrow> bool" where
  "request_chain d i0 b \<longleftrightarrow>
     (let h = vd_desc d i0; x = vd_desc d (unat (d_next h)); t = vd_desc d (unat (d_next x)) in
      d_addr h = VOps i0 \<and> d_len h = 16 \<and> d_flags h = VRING_DESC_F_NEXT \<and>
      d_addr x = VData b \<and> d_len x = of_nat BSIZE \<and>
      d_flags x = (if q_type (vd_ops d i0) = VIRTIO_BLK_T_OUT then VRING_DESC_F_NEXT
        else VRING_DESC_F_NEXT OR VRING_DESC_F_WRITE) \<and>
      d_addr t = VStatus i0 \<and> d_len t = 1 \<and> d_flags t = VRING_DESC_F_WRITE)"

text \<open>The transfer the request names, a block being two sectors, success in the status byte,
  and the head of the chain in the used ring.\<close>

definition served :: "nat \<Rightarrow> nat \<Rightarrow> kernel \<Rightarrow> kernel" where
  "served i0 b s =
     (let d = vdisk s; q = vd_ops d i0; blk = ucast (q_sector q div 2) in
      (if q_type q = VIRTIO_BLK_T_OUT
       then s\<lparr>disk := (disk s)(blk := b_data (bufs s b)), dwrites := dwrites s @ [(blk, b_data (bufs s b))]\<rparr>
       else upd_buf b (\<lambda>u. u\<lparr>b_data := disk s blk\<rparr>) s)
      \<lparr>vdisk := d\<lparr>vd_info_status := (vd_info_status d)(i0 := 0),
         vd_used_ring := (vd_used_ring d)(unat (vd_dev_idx d mod of_nat NUM) := of_nat i0),
         vd_dev_idx := vd_dev_idx d + 1\<rparr>\<rparr>)"

definition device_contract :: "(kernel \<Rightarrow> kernel) \<Rightarrow> bool" where
  "device_contract dev \<longleftrightarrow> (\<forall>s i0 b.
     vd_avail_idx (vdisk s) = vd_dev_idx (vdisk s) + 1 \<and> i0 < NUM \<and>
     unat (vd_avail_ring (vdisk s) (unat (vd_dev_idx (vdisk s) mod of_nat NUM))) = i0 \<and>
     request_chain (vdisk s) i0 b \<and> even (q_sector (vd_ops (vdisk s) i0)) \<longrightarrow> dev s = served i0 b s)"

text \<open>No request is in flight and every descriptor is free.\<close>

definition quiet :: "vdisk \<Rightarrow> bool" where
  "quiet d \<longleftrightarrow> (\<forall>i < NUM. vd_free d i) \<and> vd_avail_idx d = vd_dev_idx d \<and> vd_used_idx d = vd_dev_idx d"

subsection \<open>The pieces of the driver\<close>

lemma alloc3_quiet:
  assumes "\<forall>i < NUM. vd_free (vdisk s) i"
  shows "alloc3_desc s = Ret (Some [0, 1, 2])
    (upd_vd (\<lambda>d. d\<lparr>vd_free := (vd_free d)(0 := False, 1 := False, 2 := False)\<rparr>) s)"
proof -
  have f: "vd_free (vdisk s) 0" "vd_free (vdisk s) 1" "vd_free (vdisk s) 2" using assms by simp_all
  have u: "[0..<NUM] = [0, 1, 2, 3, 4, 5, 6, 7]" by (simp add: upt_rec)
  show ?thesis
    using f by (simp add: alloc3_desc_def numeral_3_eq_3 alloc_desc_def u upd_vd_def)
qed

lemma free_desc_eq:
  assumes "i < NUM" "\<not> vd_free (vdisk s) i" "plocks_free s"
  shows "free_desc i s = Ret () (s\<lparr>
    vdisk := (vdisk s)\<lparr>vd_desc := (vd_desc (vdisk s))(i := \<lparr>d_addr = VNone, d_len = 0, d_flags = 0, d_next = 0\<rparr>),
      vd_free := (vd_free (vdisk s))(i := True)\<rparr>,
    procs := wake ChDiskFree (myproc s) {..<NPROC} (procs s)\<rparr>)"
proof -
  have "plocks_free (s\<lparr>vdisk := v\<rparr>)" "myproc (s\<lparr>vdisk := v\<rparr>) = myproc s" for v
    using assms(3) by (simp_all add: plocks_free_def myproc_def)
  then show ?thesis using assms(1,2) by (simp add: free_desc_def upd_vd_def wakeup_eq)
qed

lemma free_chain_eq:
  defines "z \<equiv> \<lparr>d_addr = VNone, d_len = 0, d_flags = 0, d_next = 0\<rparr>"
  assumes f: "\<not> vd_free (vdisk s) 0" "\<not> vd_free (vdisk s) 1" "\<not> vd_free (vdisk s) 2"
    and d0: "d_flags (vd_desc (vdisk s) 0) AND VRING_DESC_F_NEXT \<noteq> 0" "d_next (vd_desc (vdisk s) 0) = 1"
    and d1: "d_flags (vd_desc (vdisk s) 1) AND VRING_DESC_F_NEXT \<noteq> 0" "d_next (vd_desc (vdisk s) 1) = 2"
    and d2: "d_flags (vd_desc (vdisk s) 2) AND VRING_DESC_F_NEXT = 0" and pl: "plocks_free s"
  shows "free_chain 0 s = Ret () (s\<lparr>
    vdisk := (vdisk s)\<lparr>vd_desc := (vd_desc (vdisk s))(0 := z, 1 := z, 2 := z),
      vd_free := (vd_free (vdisk s))(0 := True, 1 := True, 2 := True)\<rparr>,
    procs := wake ChDiskFree (myproc s) {..<NPROC} (procs s)\<rparr>)"
proof -
  define st where "st v q = s\<lparr>vdisk := v, procs := q\<rparr>" for v q
  have st: "plocks_free (st v q)" "myproc (st v q) = myproc s" "vdisk (st v q) = v" "procs (st v q) = q" for v q
    using pl by (simp_all add: st_def plocks_free_def myproc_def)
  have s: "s = st (vdisk s) (procs s)" by (simp add: st_def)
  have fd: "free_desc i (st v q) = Ret () (st (v\<lparr>vd_desc := (vd_desc v)(i := z), vd_free := (vd_free v)(i := True)\<rparr>)
      (wake ChDiskFree (myproc s) {..<NPROC} q))" if "i < NUM" "\<not> vd_free v i" for i v q
    using free_desc_eq [of i "st v q"] that st by (simp add: z_def) (simp add: st_def)
  have step: "free_chain_loop (Suc k) i (st v q) = (let t = st (v\<lparr>vd_desc := (vd_desc v)(i := z), vd_free := (vd_free v)(i := True)\<rparr>)
        (wake ChDiskFree (myproc s) {..<NPROC} q) in
      if d_flags (vd_desc v i) AND VRING_DESC_F_NEXT \<noteq> 0 then free_chain_loop k (unat (d_next (vd_desc v i))) t else Ret () t)"
    if "i < NUM" "\<not> vd_free v i" for k i v q
    using fd [OF that] st by (simp add: Let_def)
  have "free_chain 0 s = free_chain_loop (Suc 8) 0 (st (vdisk s) (procs s))"
    by (simp add: free_chain_def flip: s del: free_chain_loop.simps)
  also have "\<dots> = free_chain_loop (Suc 7) 1 (st ((vdisk s)\<lparr>vd_desc := (vd_desc (vdisk s))(0 := z),
      vd_free := (vd_free (vdisk s))(0 := True)\<rparr>) (wake ChDiskFree (myproc s) {..<NPROC} (procs s)))"
    using f(1) d0 by (subst step) (simp_all del: free_chain_loop.simps)
  also have "\<dots> = free_chain_loop (Suc 6) 2 (st ((vdisk s)\<lparr>vd_desc := (vd_desc (vdisk s))(0 := z, 1 := z),
      vd_free := (vd_free (vdisk s))(0 := True, 1 := True)\<rparr>) (wake ChDiskFree (myproc s) {..<NPROC} (procs s)))"
    using f(2) d1 by (subst step) (simp_all del: free_chain_loop.simps)
  also have "\<dots> = Ret () (st ((vdisk s)\<lparr>vd_desc := (vd_desc (vdisk s))(0 := z, 1 := z, 2 := z),
      vd_free := (vd_free (vdisk s))(0 := True, 1 := True, 2 := True)\<rparr>) (wake ChDiskFree (myproc s) {..<NPROC} (procs s)))"
    using f(3) d2 by (subst step) (simp_all del: free_chain_loop.simps)
  finally show ?thesis by (simp add: st_def)
qed

lemma sector_block:
  assumes "unat (x :: u32) < 2 ^ 31"
  shows "ucast ((ucast (x * 2) :: u64) div 2) = x" "even (ucast (x * 2) :: u64)"
proof -
  have u: "unat (x * 2) = unat x * 2" using assms by (simp add: unat_mult_lem [THEN iffD1])
  have v: "unat (ucast (x * 2) :: u64) = unat x * 2"
    using u by (simp add: unat_ucast_up)
  have "\<not> bit (x * 2) 0" unfolding bit_0 by simp
  then have "\<not> bit (ucast (x * 2) :: u64) 0" by (simp add: bit_ucast_iff)
  then show "even (ucast (x * 2) :: u64)" by (simp add: bit_0)
  have "unat ((ucast (x * 2) :: u64) div 2) = unat x" using v by (simp add: unat_div)
  then show "ucast ((ucast (x * 2) :: u64) div 2) = x"
    using assms by (simp add: word_unat_eq_iff unat_ucast)
qed

subsection \<open>A request from beginning to end\<close>

text \<open>The first half: descriptors 0, 1 and 2 describe the request and the caller sleeps.\<close>

definition requested :: "nat \<Rightarrow> bool \<Rightarrow> kernel \<Rightarrow> vdisk" where
  "requested b wr s = vdisk (format_request b wr 0 1 2
     (upd_vd (\<lambda>d. d\<lparr>vd_free := (vd_free d)(0 := False, 1 := False, 2 := False)\<rparr>) s))"

lemma virtio_start:
  assumes "idle s" "myproc s = Some p" "quiet (vdisk s)"
  shows "virtio_disk_rw b wr s = Switch (s\<lparr>vdisk := requested b wr s,
    bufs := (bufs s)(b := (bufs s b)\<lparr>b_disk := True\<rparr>), held := {ProcLock p},
    procs := (procs s)(p := (procs s p)\<lparr>p_chan := Some (ChBuf b), p_state := SLEEPING\<rparr>)\<rparr>)"
proof -
  let ?s = "s\<lparr>held := {VdiskLock}\<rparr>"
  let ?u = "format_request b wr 0 1 2 (upd_vd (\<lambda>d. d\<lparr>vd_free := (vd_free d)(0 := False, 1 := False, 2 := False)\<rparr>) ?s)"
  have u: "?u = s\<lparr>held := {VdiskLock}, vdisk := requested b wr s, bufs := (bufs s)(b := (bufs s b)\<lparr>b_disk := True\<rparr>)\<rparr>"
    by (simp add: requested_def format_request_def Let_def upd_vd_def upd_buf_def wreg_def)
  have a: "alloc3_desc ?s = Ret (Some [0, 1, 2]) (upd_vd (\<lambda>d. d\<lparr>vd_free := (vd_free d)(0 := False, 1 := False, 2 := False)\<rparr>) ?s)"
    using assms(3) by (intro alloc3_quiet) (simp add: quiet_def)
  have "virtio_disk_rw b wr s = virtio_wait b 0 ?u"
    using assms(1) a by (simp add: virtio_disk_rw_def virtio_rw_loop_def idle_def)
  also have "\<dots> = sleep (ChBuf b) VdiskLock ?u" unfolding u by (simp add: virtio_wait_def)
  also have "\<dots> = Switch (upd_proc p (\<lambda>q. q\<lparr>p_chan := Some (ChBuf b), p_state := SLEEPING\<rparr>) (?u\<lparr>held := {ProcLock p}\<rparr>))"
    unfolding u using assms(2) by (intro sleep_switch) (simp_all add: myproc_def)
  finally show ?thesis unfolding u by (simp add: upd_proc_def)
qed

lemma requested_simps:
  fixes b and wr :: bool
  assumes "quiet (vdisk s)"
  defines "d \<equiv> requested b wr s"
  shows "request_chain d 0 b" "vd_avail_idx d = vd_dev_idx d + 1" "vd_used_idx d = vd_dev_idx d" "vd_info_b d 0 = Some b"
    "vd_avail_ring d (unat (vd_dev_idx d mod of_nat NUM)) = 0" "vd_dev_idx d = vd_dev_idx (vdisk s)"
    "vd_ops d 0 = \<lparr>q_type = (if wr then VIRTIO_BLK_T_OUT else VIRTIO_BLK_T_IN), q_reserved = 0,
       q_sector = ucast (b_blockno (bufs s b) * 2)\<rparr>"
    "\<not> vd_free d 0" "\<not> vd_free d 1" "\<not> vd_free d 2" "\<And>i. i < NUM \<Longrightarrow> i > 2 \<Longrightarrow> vd_free d i"
    "d_flags (vd_desc d 0) AND VRING_DESC_F_NEXT \<noteq> 0" "d_next (vd_desc d 0) = 1"
    "d_flags (vd_desc d 1) AND VRING_DESC_F_NEXT \<noteq> 0" "d_next (vd_desc d 1) = 2"
    "d_flags (vd_desc d 2) AND VRING_DESC_F_NEXT = 0"
  using assms(1)
  by (auto simp: d_def requested_def format_request_def Let_def upd_vd_def upd_buf_def wreg_def quiet_def request_chain_def
      or.commute)

text \<open>The interrupt handler: one completed request, with head 0, for buffer \<^verbatim>\<open>b\<close>.\<close>

lemma virtio_intr_one:
  assumes "held s = {}" "vd_dev_idx (vdisk s) = vd_used_idx (vdisk s) + 1"
    and "vd_used_ring (vdisk s) (unat (vd_used_idx (vdisk s) mod of_nat NUM)) = 0"
    and "vd_info_status (vdisk s) 0 = 0" "vd_info_b (vdisk s) 0 = Some b"
  shows "\<exists>w. virtio_disk_intr ist s = Ret () (s\<lparr>bufs := (bufs s)(b := (bufs s b)\<lparr>b_disk := False\<rparr>),
    procs := wake (ChBuf b) (myproc s) {..<NPROC} (procs s),
    vdisk := (vdisk s)\<lparr>vd_used_idx := vd_dev_idx (vdisk s), vd_writes := w\<rparr>\<rparr>)"
proof -
  define w where "w = vd_writes (vdisk s) @ [(0x064, ist AND 3)]"
  define u where "u = s\<lparr>held := {VdiskLock}, vdisk := (vdisk s)\<lparr>vd_writes := w\<rparr>, bufs := (bufs s)(b := (bufs s b)\<lparr>b_disk := False\<rparr>)\<rparr>"
  have "plocks_free u" by (rule plocks_free_idle [of _ VdiskLock]) (simp_all add: u_def)
  then have wk: "wakeup (ChBuf b) u = Ret () (u\<lparr>procs := wake (ChBuf b) (myproc s) {..<NPROC} (procs s)\<rparr>)"
    using wakeup_eq [of u "ChBuf b"] by (simp add: u_def myproc_def)
  have d: "vdisk u = (vdisk s)\<lparr>vd_writes := w\<rparr>" by (simp add: u_def)
  have ne: "vd_used_idx (vdisk s) \<noteq> vd_used_idx (vdisk s) + 1" by simp
  have "virtio_intr_loop (wreg 0x064 (ist AND 3) (s\<lparr>held := {VdiskLock}\<rparr>)) =
      bnd (wakeup (ChBuf b) u) (\<lambda>_ s. virtio_intr_loop (upd_vd (\<lambda>d. d\<lparr>vd_used_idx := vd_used_idx d + 1\<rparr>) s))"
    using assms ne by (subst virtio_intr_loop.simps) (simp add: Let_def u_def wreg_def upd_vd_def upd_buf_def w_def)
  also have "\<dots> = Ret () (upd_vd (\<lambda>d. d\<lparr>vd_used_idx := vd_used_idx d + 1\<rparr>)
      (u\<lparr>procs := wake (ChBuf b) (myproc s) {..<NPROC} (procs s)\<rparr>))"
    unfolding wk using assms(2) by (simp, subst virtio_intr_loop.simps) (simp add: Let_def upd_vd_def d)
  finally have "virtio_disk_intr ist s = Ret () (s\<lparr>bufs := (bufs s)(b := (bufs s b)\<lparr>b_disk := False\<rparr>),
    procs := wake (ChBuf b) (myproc s) {..<NPROC} (procs s),
    vdisk := (vdisk s)\<lparr>vd_used_idx := vd_dev_idx (vdisk s), vd_writes := w\<rparr>\<rparr>)"
    using assms(1,2) by (simp add: virtio_disk_intr_def upd_vd_def u_def)
  then show ?thesis by blast
qed

text \<open>The second half: the caller runs again, frees the chain and returns.\<close>

lemma virtio_finish:
  assumes "held s = {ProcLock p}" "\<not> b_disk (bufs s b)"
    and f: "\<not> vd_free (vdisk s) 0" "\<not> vd_free (vdisk s) 1" "\<not> vd_free (vdisk s) 2"
    and d: "d_flags (vd_desc (vdisk s) 0) AND VRING_DESC_F_NEXT \<noteq> 0" "d_next (vd_desc (vdisk s) 0) = 1"
      "d_flags (vd_desc (vdisk s) 1) AND VRING_DESC_F_NEXT \<noteq> 0" "d_next (vd_desc (vdisk s) 1) = 2"
      "d_flags (vd_desc (vdisk s) 2) AND VRING_DESC_F_NEXT = 0"
  shows "\<exists>q D I. virtio_wait_resume p b 0 s = Ret () (s\<lparr>held := {}, procs := q,
    vdisk := (vdisk s)\<lparr>vd_desc := D, vd_info_b := I, vd_free := (vd_free (vdisk s))(0 := True, 1 := True, 2 := True)\<rparr>\<rparr>)"
proof -
  define u where "u = (upd_proc p (\<lambda>q. q\<lparr>p_chan := None\<rparr>) s)\<lparr>held := {VdiskLock},
    vdisk := (vdisk s)\<lparr>vd_info_b := (vd_info_b (vdisk s))(0 := None)\<rparr>\<rparr>"
  have pl: "plocks_free u" by (rule plocks_free_idle [of _ VdiskLock]) (simp_all add: u_def)
  have "virtio_wait_resume p b 0 s = bnd (free_chain 0 u) (\<lambda>_ s. release VdiskLock s)"
    using assms(1,2) by (simp add: virtio_wait_resume_def sleep_resume_def virtio_wait_def u_def upd_vd_def upd_proc_def)
  moreover have "\<exists>D q. free_chain 0 u = Ret () (u\<lparr>vdisk := (vdisk u)\<lparr>vd_desc := D,
      vd_free := (vd_free (vdisk u))(0 := True, 1 := True, 2 := True)\<rparr>, procs := q\<rparr>)"
    using free_chain_eq [of u, OF _ _ _ _ _ _ _ _ pl] f d by (auto simp: u_def)
  then obtain D q where fc: "free_chain 0 u = Ret () (u\<lparr>vdisk := (vdisk u)\<lparr>vd_desc := D,
      vd_free := (vd_free (vdisk u))(0 := True, 1 := True, 2 := True)\<rparr>, procs := q\<rparr>)" by blast
  ultimately have "virtio_wait_resume p b 0 s = Ret () (s\<lparr>held := {}, procs := q,
    vdisk := (vdisk s)\<lparr>vd_desc := D, vd_info_b := (vd_info_b (vdisk s))(0 := None),
      vd_free := (vd_free (vdisk s))(0 := True, 1 := True, 2 := True)\<rparr>\<rparr>)"
    by (simp add: u_def upd_proc_def)
  then show ?thesis by blast
qed

text \<open>The states between the halves: the scheduler has released the sleeper's lock and another
  process, or none, runs on the hart that takes the interrupt; later the sleeper is chosen
  again.\<close>

definition switched_away :: "nat \<Rightarrow> (nat \<Rightarrow> cpu) \<Rightarrow> kernel \<Rightarrow> kernel" where
  "switched_away h C t = t\<lparr>hartid := h, held := {}, cpus := C\<rparr>"

definition switched_back :: "nat \<Rightarrow> kernel \<Rightarrow> kernel \<Rightarrow> kernel" where
  "switched_back p s t = t\<lparr>hartid := hartid s, held := {ProcLock p}, cpus := cpus s,
     procs := (procs t)(p := (procs t p)\<lparr>p_state := RUNNING\<rparr>)\<rparr>"

lemma served_request:
  assumes q: "vd_ops (vdisk s) 0 = \<lparr>q_type = (if wr then VIRTIO_BLK_T_OUT else VIRTIO_BLK_T_IN), q_reserved = 0,
      q_sector = ucast (b_blockno (bufs s b) * 2)\<rparr>"
    and b: "unat (b_blockno (bufs s b)) < 2 ^ 31"
  shows "served 0 b s = (disk_xfer b wr s)\<lparr>vdisk := (vdisk s)\<lparr>vd_info_status := (vd_info_status (vdisk s))(0 := 0),
      vd_used_ring := (vd_used_ring (vdisk s))(unat (vd_dev_idx (vdisk s) mod of_nat NUM) := 0),
      vd_dev_idx := vd_dev_idx (vdisk s) + 1\<rparr>\<rparr>"
  using sector_block [OF b] by (cases wr) (simp_all add: served_def q Let_def disk_xfer_def upd_buf_def)

text \<open>\<^bold>\<open>C7\<close> The driver refines the synchronous disk of the buffer cache. With no other
  request in flight, whatever the 16-bit ring indices are, \<^verbatim>\<open>virtio_disk_rw\<close> puts the
  caller to sleep; a device that keeps the virtio contract completes the request; the
  interrupt handler wakes the caller; and the call then returns with every descriptor free
  again and with exactly the effect of \<^verbatim>\<open>disk_rw\<close> on the kernel, apart from the driver's
  own data and the states of processes. The block number must be below 2^31, as its sector
  number is computed in 32 bits.\<close>

theorem virtio_refines_disk_rw:
  assumes "device_contract dev" and "idle s" "myproc s = Some p" "p < NPROC" "quiet (vdisk s)"
    and "unat (b_blockno (bufs s b)) < 2 ^ 31" and "c_proc (C h) \<noteq> Some p"
  shows "\<exists>t1 t2 t3 u v q. virtio_disk_rw b wr s = Switch t1 \<and> p_state (procs t1 p) = SLEEPING \<and>
    virtio_disk_intr ist (dev (switched_away h C t1)) = Ret () t2 \<and> p_state (procs t2 p) = RUNNABLE \<and>
    virtio_wait_resume p b 0 (switched_back p s t2) = Ret () t3 \<and> quiet (vdisk t3) \<and>
    disk_rw b wr s = Ret () u \<and> t3 = u\<lparr>vdisk := v, procs := q\<rparr>"
proof -
  let ?d = "requested b wr s"
  note d = requested_simps [OF assms(5), where b = b and wr = wr]
  define t1 where "t1 = s\<lparr>vdisk := ?d, bufs := (bufs s)(b := (bufs s b)\<lparr>b_disk := True\<rparr>), held := {ProcLock p},
    procs := (procs s)(p := (procs s p)\<lparr>p_chan := Some (ChBuf b), p_state := SLEEPING\<rparr>)\<rparr>"
  have t1: "virtio_disk_rw b wr s = Switch t1" unfolding t1_def by (rule virtio_start [OF assms(2,3,5)])
  define a where "a = switched_away h C t1"
  have a: "vdisk a = ?d" "bufs a = (bufs s)(b := (bufs s b)\<lparr>b_disk := True\<rparr>)" "held a = {}" "procs a = procs t1"
    "myproc a = c_proc (C h)" by (simp_all add: a_def switched_away_def t1_def myproc_def)
  have ops: "vd_ops (vdisk a) 0 = \<lparr>q_type = (if wr then VIRTIO_BLK_T_OUT else VIRTIO_BLK_T_IN), q_reserved = 0,
      q_sector = ucast (b_blockno (bufs a b) * 2)\<rparr>" and bb: "unat (b_blockno (bufs a b)) < 2 ^ 31"
    using assms(6) by (simp_all add: a d(7))
  have "dev a = served 0 b a"
    using assms(1,6) d(1,2,5,7) sector_block(2) unfolding device_contract_def by (auto simp: a(1))
  then have sv: "dev a = (disk_xfer b wr a)\<lparr>vdisk := ?d\<lparr>vd_info_status := (vd_info_status ?d)(0 := 0),
      vd_used_ring := (vd_used_ring ?d)(unat (vd_dev_idx ?d mod of_nat NUM) := 0), vd_dev_idx := vd_dev_idx ?d + 1\<rparr>\<rparr>"
    unfolding served_request [OF ops bb] a(1) .
  define v where "v = dev a"
  have dx: "held (disk_xfer b wr a) = {}" "procs (disk_xfer b wr a) = procs t1" "myproc (disk_xfer b wr a) = c_proc (C h)"
    using a by (simp_all add: disk_xfer_def upd_buf_def myproc_def)
  have v: "held v = {}" "vd_dev_idx (vdisk v) = vd_used_idx (vdisk v) + 1" "vd_info_status (vdisk v) 0 = 0"
    "vd_used_ring (vdisk v) (unat (vd_used_idx (vdisk v) mod of_nat NUM)) = 0" "vd_info_b (vdisk v) 0 = Some b"
    "procs v = procs t1" "myproc v \<noteq> Some p"
    using d(3,4) dx assms(7) unfolding v_def sv by (simp_all add: myproc_def)
  obtain w where t2: "virtio_disk_intr ist v = Ret () (v\<lparr>bufs := (bufs v)(b := (bufs v b)\<lparr>b_disk := False\<rparr>),
      procs := wake (ChBuf b) (myproc v) {..<NPROC} (procs v),
      vdisk := (vdisk v)\<lparr>vd_used_idx := vd_dev_idx (vdisk v), vd_writes := w\<rparr>\<rparr>)" (is "_ = Ret () ?t2")
    using virtio_intr_one [OF v(1,2,4,3,5)] by blast
  have run: "p_state (procs ?t2 p) = RUNNABLE"
    using v(6,7) assms(4) by (auto simp: wake_def t1_def)
  define r where "r = switched_back p s ?t2"
  have r: "held r = {ProcLock p}" "\<not> b_disk (bufs r b)" "vd_desc (vdisk r) = vd_desc ?d" "vd_free (vdisk r) = vd_free ?d"
    "vd_used_idx (vdisk r) = vd_dev_idx (vdisk r)" "vd_avail_idx (vdisk r) = vd_dev_idx (vdisk r)"
    using d(2) by (simp_all add: r_def switched_back_def v_def sv)
  obtain q D I where t3: "virtio_wait_resume p b 0 r = Ret () (r\<lparr>held := {}, procs := q,
      vdisk := (vdisk r)\<lparr>vd_desc := D, vd_info_b := I, vd_free := (vd_free (vdisk r))(0 := True, 1 := True, 2 := True)\<rparr>\<rparr>)"
      (is "_ = Ret () ?t3")
    using virtio_finish [OF r(1,2)] d(8-10,12-16) r(3,4) by auto
  have "quiet (vdisk ?t3)"
    unfolding quiet_def using d(11) r(4-6) by (auto simp: less_Suc_eq numeral_eq_Suc)
  moreover have "?t3 = (upd_buf b (\<lambda>q. q\<lparr>b_disk := False\<rparr>) (disk_xfer b wr s))\<lparr>vdisk := vdisk ?t3, procs := q\<rparr>"
    using assms(2) unfolding r_def switched_back_def v_def sv
    by (cases wr) (simp_all add: a_def switched_away_def t1_def disk_xfer_def upd_buf_def idle_def)
  moreover have "p_state (procs t1 p) = SLEEPING" by (simp add: t1_def)
  ultimately show ?thesis
    using t1 t2 run t3 disk_rw_eq [OF assms(2), of b wr] unfolding v_def a_def r_def by blast
qed

text \<open>A device that keeps the contract, and a process that writes block 7 when the ring indices
  are about to wrap around.\<close>

definition demo_device :: "kernel \<Rightarrow> kernel" where
  "demo_device s =
     (let d = vdisk s; i0 = unat (vd_avail_ring d (unat (vd_dev_idx d mod of_nat NUM))) in
      case d_addr (vd_desc d (unat (d_next (vd_desc d i0)))) of VData b \<Rightarrow> served i0 b s | _ \<Rightarrow> s)"

definition demo_writer :: kernel where
  "demo_writer = kernel0\<lparr>cpus := \<lambda>h. \<lparr>c_proc = (if h = 0 then Some 0 else None), c_context = \<lambda>_. 0\<rparr>,
     vdisk := vdisk0\<lparr>vd_free := \<lambda>_. True, vd_avail_idx := 0xFFFF, vd_dev_idx := 0xFFFF, vd_used_idx := 0xFFFF\<rparr>,
     bufs := (\<lambda>_. buf0)(0 := buf0\<lparr>b_blockno := 7, b_data := \<lambda>_. 5\<rparr>)\<rparr>"

lemma demo_device_contract: "device_contract demo_device"
  by (auto simp: device_contract_def demo_device_def request_chain_def Let_def)

theorem virtio_refines_disk_rw_witness:
  "\<exists>t1 t2 t3. virtio_disk_rw 0 True demo_writer = Switch t1 \<and>
    virtio_disk_intr 1 (demo_device (switched_away 1 (cpus demo_writer) t1)) = Ret () t2 \<and>
    virtio_wait_resume 0 0 0 (switched_back 0 demo_writer t2) = Ret () t3 \<and> disk t3 7 = (\<lambda>_. 5)"
proof -
  have s: "idle demo_writer" "myproc demo_writer = Some 0" "(0 :: nat) < NPROC" "quiet (vdisk demo_writer)"
    "unat (b_blockno (bufs demo_writer 0)) < 2 ^ 31" "c_proc (cpus demo_writer 1) \<noteq> Some 0"
    by (simp_all add: demo_writer_def idle_def myproc_def quiet_def kernel0_def vdisk0_def)
  obtain t1 t2 t3 u v q where t: "virtio_disk_rw 0 True demo_writer = Switch t1"
    "virtio_disk_intr 1 (demo_device (switched_away 1 (cpus demo_writer) t1)) = Ret () t2"
    "virtio_wait_resume 0 0 0 (switched_back 0 demo_writer t2) = Ret () t3"
    "disk_rw 0 True demo_writer = Ret () u" "t3 = u\<lparr>vdisk := v, procs := q\<rparr>"
    using virtio_refines_disk_rw [where C = "cpus demo_writer" and h = 1 and wr = True and ist = 1,
        OF demo_device_contract s] by blast
  have "disk u 7 = (\<lambda>_. 5)"
    using t(4) disk_rw_eq [OF s(1), of 0 True] by (auto simp: disk_xfer_def upd_buf_def demo_writer_def)
  with t show ?thesis by auto
qed

end
