(* ===== verification/Ring_Buffer.thy ===== *)
theory Ring_Buffer
  imports Kernel_State
begin

text \<open>
  Ring buffers with free-running 32-bit counters, as pipes and the console use them: the
  element counted \<^verbatim>\<open>k\<close> is at index \<^verbatim>\<open>k mod size\<close>, and the counters wrap around. As
  the size divides \<^verbatim>\<open>2 ^ 32\<close>, the wrap-around is harmless: adding and removing at the
  two ends act on the list of elements between the counters.
\<close>

definition ring_list :: "nat \<Rightarrow> (nat \<Rightarrow> 'a) \<Rightarrow> u32 \<Rightarrow> u32 \<Rightarrow> 'a list" where
  "ring_list m d r w = map (\<lambda>j. d (unat (r + of_nat j) mod m)) [0..<unat (w - r)]"

lemma length_ring_list [simp]: "length (ring_list m d r w) = unat (w - r)"
  by (simp add: ring_list_def)

lemma ring_list_empty: "ring_list m d r w = [] \<longleftrightarrow> r = w"
  by (simp add: ring_list_def unat_eq_zero) (metis right_minus_eq)

lemma unat_pred: "(x :: u32) \<noteq> 0 \<Longrightarrow> unat x = Suc (unat (x - 1))"
  by unat_arith

locale ring_size =
  fixes m :: nat
  assumes pos: "0 < m" and dvd: "m dvd 2 ^ 32" and small: "m < 2 ^ 32"
begin

lemma unat_index: "unat (r + of_nat j :: u32) mod m = (unat r + j) mod m"
proof -
  have "unat (r + of_nat j :: u32) = (unat r + j) mod 2 ^ 32"
    by (simp add: unat_word_ariths unat_of_nat take_bit_eq_mod mod_add_right_eq)
  then show ?thesis using dvd by (simp add: mod_mod_cancel)
qed

lemma index_other:
  assumes "j < k" "k < m"
  shows "unat (r + of_nat j :: u32) mod m \<noteq> unat (r + of_nat k :: u32) mod m"
proof
  assume "unat (r + of_nat j :: u32) mod m = unat (r + of_nat k :: u32) mod m"
  then have "(unat r + j) mod m = (unat r + k) mod m" by (simp only: unat_index)
  then have "m dvd (unat r + k) - (unat r + j)"
    using assms(1) mod_eq_dvd_iff_nat [of "unat r + j" "unat r + k" m] by simp
  then have "m dvd k - j" by simp
  with assms show False by (auto dest: dvd_imp_le)
qed

lemma unat_length_Suc:
  assumes "unat (w - r :: u32) < m"
  shows "unat (w + 1 - r) = Suc (unat (w - r))"
proof -
  have "unat (w - r) + 1 < 2 ^ 32" using assms small by linarith
  then have "unat ((w - r) + 1) = unat (w - r) + 1" by (subst unat_add_lem [THEN iffD1]) simp_all
  then show ?thesis by (simp add: diff_add_eq)
qed

lemma ring_write:
  assumes "unat (w - r) < m" "i = unat w mod m"
  shows "ring_list m (d(i := x)) r (w + 1) = ring_list m d r w @ [x]"
proof -
  let ?k = "unat (w - r)"
  have w: "r + of_nat ?k = w" by simp
  have i: "i = unat (r + of_nat ?k) mod m" using assms(2) w by simp
  have "(d(i := x)) (unat (r + of_nat j) mod m) = d (unat (r + of_nat j) mod m)" if "j < ?k" for j
    using index_other [OF that assms(1), of r] i by simp
  then show ?thesis
    using i by (simp add: ring_list_def unat_length_Suc [OF assms(1)] w)
qed

lemma ring_read:
  assumes "r \<noteq> w"
  shows "ring_list m d r w = d (unat r mod m) # ring_list m d (r + 1) w"
proof -
  have "w - r \<noteq> 0" using assms by simp
  then have "unat (w - r) = Suc (unat (w - (r + 1)))"
    using unat_pred [of "w - r"] by (simp add: diff_diff_eq)
  then have "[0..<unat (w - r)] = 0 # map Suc [0..<unat (w - (r + 1))]"
    by (simp only: upt_conv_Cons map_Suc_upt zero_less_Suc One_nat_def)
  moreover have "r + of_nat (Suc j) = (r + 1) + of_nat j" for j by simp
  ultimately show ?thesis unfolding ring_list_def by (simp only: list.map map_map o_def semiring_1_class.of_nat_0 add_0_right)
qed

lemma ring_unwrite:
  assumes "r \<noteq> w"
  shows "ring_list m d r (w - 1) = butlast (ring_list m d r w)"
proof -
  have "w - r \<noteq> 0" using assms by simp
  moreover have "w - r - 1 = w - 1 - r" by simp
  ultimately have "unat (w - r) = Suc (unat (w - 1 - r))"
    using unat_pred [of "w - r"] by (simp only: not_False_eq_True)
  then show ?thesis by (simp add: ring_list_def)
qed

end

end
