(* ===== verification/Pipe_Fifo.thy ===== *)
theory Pipe_Fifo
  imports Pipe Ring_Buffer Bio_Cache Vm_Map
begin

text \<open>
  A pipe is a bounded first-in first-out queue of bytes: \<^verbatim>\<open>pipewrite\<close> appends bytes of the
  writer's memory until the pipe is full, \<^verbatim>\<open>piperead\<close> removes bytes from the front and puts
  them into the reader's memory.
\<close>

unbundle bit_operations_syntax

interpretation pipe_ring: ring_size PIPESIZE
  by unfold_locales simp_all

definition contents :: "pipe \<Rightarrow> u8 list" where
  "contents q = ring_list PIPESIZE (pi_data q) (pi_nread q) (pi_nwrite q)"

definition pipe_ok :: "pipe \<Rightarrow> bool" where
  "pipe_ok q \<longleftrightarrow> length (contents q) \<le> PIPESIZE"

lemma length_contents: "length (contents q) = unat (pi_nwrite q - pi_nread q)"
  by (simp add: contents_def)

lemma pipe_put_contents:
  assumes "length (contents q) < PIPESIZE"
  shows "contents (pipe_put c q) = contents q @ [c]"
proof -
  have "unat (pi_nwrite q mod 512) = unat (pi_nwrite q) mod 512" by (simp add: unat_mod)
  then show ?thesis
    using pipe_ring.ring_write [of "pi_nwrite q" "pi_nread q"] assms
    by (simp add: contents_def pipe_put_def)
qed

lemma pipe_get_contents:
  assumes "contents q \<noteq> []"
  shows "contents q = pipe_get q # contents (q\<lparr>pi_nread := pi_nread q + 1\<rparr>)"
proof -
  have "unat (pi_nread q mod 512) = unat (pi_nread q) mod 512" by (simp add: unat_mod)
  then show ?thesis
    using pipe_ring.ring_read [of "pi_nread q" "pi_nwrite q" "pi_data q"] assms
    by (simp add: contents_def pipe_get_def ring_list_empty)
qed

lemma pipe_full: "pi_nwrite q = pi_nread q + of_nat PIPESIZE \<longleftrightarrow> length (contents q) = PIPESIZE"
proof -
  have "pi_nwrite q = pi_nread q + 512 \<longleftrightarrow> pi_nwrite q - pi_nread q = 512" by (auto simp: diff_eq_eq)
  also have "\<dots> \<longleftrightarrow> unat (pi_nwrite q - pi_nread q) = 512" by (simp add: word_unat_eq_iff)
  finally show ?thesis by (simp add: length_contents)
qed

lemma pipe_empty: "pi_nread q = pi_nwrite q \<longleftrightarrow> contents q = []"
  by (simp add: contents_def ring_list_empty)

lemma pipe_put_fields [simp]:
  "pi_readopen (pipe_put c q) = pi_readopen q" "pi_writeopen (pipe_put c q) = pi_writeopen q"
  "pi_nread (pipe_put c q) = pi_nread q"
  by (simp_all add: pipe_put_def)

lemma upd_pipe_simps [simp]:
  "pipes (upd_pipe pi f s) = (pipes s)(pi := f (pipes s pi))" "held (upd_pipe pi f s) = held s"
  "procs (upd_pipe pi f s) = procs s" "pmem (upd_pipe pi f s) = pmem s" "myproc (upd_pipe pi f s) = myproc s"
  "upd_pipe pi f (upd_pipe pi g s) = upd_pipe pi (\<lambda>q. f (g q)) s" "upd_pipe pi (\<lambda>q. q) s = s"
  by (simp_all add: upd_pipe_def myproc_def)

lemma killed_eq: "ProcLock p \<notin> held s \<Longrightarrow> killed p s = Ret (p_killed (procs s p)) s"
  by (simp add: killed_def Let_def)

subsection \<open>User memory\<close>

text \<open>Ranges of user memory that are mapped, and that are mapped for writing with no two pages
  on the same physical page; the bytes such a range holds.\<close>

definition rrange :: "mem \<Rightarrow> u64 \<Rightarrow> u64 \<Rightarrow> nat \<Rightarrow> bool" where
  "rrange m r va n \<longleftrightarrow> pt_ok m r \<and> unat va + n \<le> 2 ^ 38 \<and> (\<forall>i<n. user_page m r (va + of_nat i))"

definition wrange :: "mem \<Rightarrow> u64 \<Rightarrow> u64 \<Rightarrow> nat \<Rightarrow> bool" where
  "wrange m r va n \<longleftrightarrow> pt_ok m r \<and> unat va + n \<le> 2 ^ 38 \<and> (\<forall>i<n. user_wpage m r (va + of_nat i)) \<and>
     (\<forall>i<n. \<forall>j<n. PTE2PA (pt_get m r (va + of_nat i)) = PTE2PA (pt_get m r (va + of_nat j)) \<longrightarrow>
       PGROUNDDOWN (va + of_nat i) = PGROUNDDOWN (va + of_nat j))"

definition ubytes :: "mem \<Rightarrow> u64 \<Rightarrow> u64 \<Rightarrow> nat \<Rightarrow> u8 list" where
  "ubytes m r va n = map (\<lambda>i. m (uaddr m r (va + of_nat i))) [0..<n]"

lemma copyin_byte:
  assumes "rrange (pmem s) r va n" "i < n"
  shows "copyin r (va + of_nat i) 1 s = Ret (0, [pmem s (uaddr (pmem s) r (va + of_nat i))]) s"
proof -
  have "unat (va + of_nat i) = unat va + i" using assms by (intro unat_add_small) (simp add: rrange_def)
  then show ?thesis using copyin_user [of s r "va + of_nat i" 1] assms by (auto simp: rrange_def)
qed

lemma uaddr_inj:
  assumes "wrange m r va n" "i < n" "j < n" "uaddr m r (va + of_nat i) = uaddr m r (va + of_nat j)"
  shows "i = j"
proof -
  have "PTE2PA (pt_get m r (va + of_nat i)) = PTE2PA (pt_get m r (va + of_nat j))"
    using assms(4) uaddr_in_page [of m r "va + of_nat i"] uaddr_in_page [of m r "va + of_nat j"]
    by (intro in_page_disjoint) auto
  moreover from this have "PGROUNDDOWN (va + of_nat i) = PGROUNDDOWN (va + of_nat j)"
    using assms(1-3) unfolding wrange_def by blast
  ultimately have e: "va + of_nat i = va + of_nat j" using assms(4) by (simp add: uaddr_def)
  have u: "unat (va + of_nat i) = unat va + i" "unat (va + of_nat j) = unat va + j"
    by (rule unat_add_small; use assms(1-3) in \<open>simp add: wrange_def\<close>)+
  from arg_cong [OF e, of unat] show ?thesis unfolding u by simp
qed

lemma copyout_byte:
  assumes "wrange (pmem s) r va n" "i < n"
  obtains m where "copyout r (va + of_nat i) [c] s = Ret 0 (s\<lparr>pmem := m\<rparr>)" "wrange m r va n"
    "\<And>wa. uaddr m r wa = uaddr (pmem s) r wa" "m (uaddr (pmem s) r (va + of_nat i)) = c"
    "\<And>a. a \<noteq> uaddr (pmem s) r (va + of_nat i) \<Longrightarrow> m a = pmem s a"
proof -
  have u: "unat (va + of_nat i) = unat va + i" using assms by (intro unat_add_small) (simp add: wrange_def)
  obtain m where m: "copyout r (va + of_nat i) [c] s = Ret 0 (s\<lparr>pmem := m\<rparr>)" "pt_ok m r"
    "\<And>wa. pt_get m r wa = pt_get (pmem s) r wa" "m (uaddr (pmem s) r (va + of_nat i)) = c"
    "\<forall>a. a \<noteq> uaddr (pmem s) r (va + of_nat i) \<longrightarrow> m a = pmem s a"
    using copyout_user [of s r "va + of_nat i" "[c]"] assms u by (auto simp: wrange_def)
  have tp: "tpages m r = tpages (pmem s) r"
  proof (rule pt_frame(2))
    show "pt_ok (pmem s) r" using assms by (simp add: wrange_def)
    fix q a assume q: "q \<in> tpages (pmem s) r" "in_page q a"
    have "aligned q" using assms(1) q(1) by (auto simp: wrange_def pt_ok_def)
    moreover have "PTE2PA (pt_get (pmem s) r (va + of_nat i)) \<notin> tpages (pmem s) r"
      using assms by (auto simp: wrange_def user_wpage_def)
    ultimately have "a \<noteq> uaddr (pmem s) r (va + of_nat i)"
      using q uaddr_in_page [of "pmem s" r "va + of_nat i"] in_page_disjoint aligned_PTE2PA by blast
    then show "m a = pmem s a" using m(5) by simp
  qed
  have uw: "user_wpage m r wa = user_wpage (pmem s) r wa" for wa
    unfolding user_wpage_def user_page_def m(3) tp ..
  have "wrange m r va n"
    unfolding wrange_def uw m(3) using m(2) assms(1) [unfolded wrange_def] by blast
  moreover have "uaddr m r wa = uaddr (pmem s) r wa" for wa by (simp only: uaddr_def m(3))
  ultimately show ?thesis using that [of m] m(1,4,5) by blast
qed

subsection \<open>Writing\<close>

lemma pipe_puts:
  assumes "length (contents q) + length cs \<le> PIPESIZE"
  shows "contents (fold pipe_put cs q) = contents q @ cs" "pi_readopen (fold pipe_put cs q) = pi_readopen q"
    "pi_nread (fold pipe_put cs q) = pi_nread q" "pi_writeopen (fold pipe_put cs q) = pi_writeopen q"
proof -
  have "contents (fold pipe_put cs q) = contents q @ cs \<and> pi_readopen (fold pipe_put cs q) = pi_readopen q \<and>
    pi_nread (fold pipe_put cs q) = pi_nread q \<and> pi_writeopen (fold pipe_put cs q) = pi_writeopen q"
    using assms by (induction cs arbitrary: q) (simp_all add: pipe_put_contents)
  then show "contents (fold pipe_put cs q) = contents q @ cs" "pi_readopen (fold pipe_put cs q) = pi_readopen q"
    "pi_nread (fold pipe_put cs q) = pi_nread q" "pi_writeopen (fold pipe_put cs q) = pi_writeopen q" by simp_all
qed

lemma pipewrite_fill:
  assumes "rrange (pmem s) r addr (i + j)" "r = p_pagetable (procs s pr)" "length (contents (pipes s pi)) + j \<le> PIPESIZE"
    and "pi_readopen (pipes s pi)" "\<not> p_killed (procs s pr)" "ProcLock pr \<notin> held s"
  shows "pipewrite_loop pr pi addr i (j + k) s = pipewrite_loop pr pi addr (i + j) k
    (upd_pipe pi (fold pipe_put (map (\<lambda>x. pmem s (uaddr (pmem s) r (addr + of_nat x))) [i..<i + j])) s)"
  using assms
proof (induction j arbitrary: i s)
  case 0
  then show ?case by simp
next
  case (Suc j)
  let ?q = "pipes s pi" and ?c = "pmem s (uaddr (pmem s) r (addr + of_nat i))"
  have full: "pi_nwrite ?q \<noteq> pi_nread ?q + of_nat PIPESIZE" using Suc.prems(3) by (simp only: pipe_full)
  have "copyin r (addr + of_nat i) 1 s = Ret (0, [?c]) s"
    by (rule copyin_byte [OF Suc.prems(1)]) simp
  then have "pipewrite_loop pr pi addr i (Suc j + k) s = pipewrite_loop pr pi addr (Suc i) (j + k) (upd_pipe pi (pipe_put ?c) s)"
    using Suc.prems full by (simp add: killed_eq)
  also have "\<dots> = pipewrite_loop pr pi addr (Suc i + j) k (upd_pipe pi
      (fold pipe_put (map (\<lambda>x. pmem s (uaddr (pmem s) r (addr + of_nat x))) [Suc i..<Suc i + j])) (upd_pipe pi (pipe_put ?c) s))"
    using Suc.prems Suc.IH [of "upd_pipe pi (pipe_put ?c) s" "Suc i"] by (simp add: pipe_put_contents)
  also have "upd_pipe pi (fold pipe_put (map (\<lambda>x. pmem s (uaddr (pmem s) r (addr + of_nat x))) [Suc i..<Suc i + j]))
      (upd_pipe pi (pipe_put ?c) s) =
    upd_pipe pi (fold pipe_put (map (\<lambda>x. pmem s (uaddr (pmem s) r (addr + of_nat x))) (i # [Suc i..<Suc i + j]))) s"
    by (simp del: upt_Suc add: o_def)
  also have "i # [Suc i..<Suc i + j] = [i..<i + Suc j]" by (simp add: upt_conv_Cons del: upt_Suc)
  finally show ?case by (simp only: add_Suc add_Suc_right)
qed

text \<open>The state after \<^verbatim>\<open>cs\<close> was put into the pipe and its readers were woken.\<close>

definition pipe_written :: "u64 \<Rightarrow> u8 list \<Rightarrow> kernel \<Rightarrow> kernel" where
  "pipe_written pi cs s = (upd_pipe pi (fold pipe_put cs) s)
     \<lparr>procs := wake (ChPipeRead pi) (myproc s) {..<NPROC} (procs s)\<rparr>"

lemma pipewrite_eq:
  assumes s: "idle s" "myproc s = Some pr" "pi_readopen (pipes s pi)" "\<not> p_killed (procs s pr)" "pipe_ok (pipes s pi)"
    and m: "m = nat (sint n)" "rrange (pmem s) r addr m" "r = p_pagetable (procs s pr)"
    and room: "room = PIPESIZE - length (contents (pipes s pi))"
  shows "pipewrite pi addr n s =
    (if m \<le> room then Ret (of_nat m) (pipe_written pi (ubytes (pmem s) r addr m) s)
     else Switch (upd_proc pr (\<lambda>q. q\<lparr>p_chan := Some (ChPipeWrite pi), p_state := SLEEPING\<rparr>)
       ((pipe_written pi (ubytes (pmem s) r addr room) s)\<lparr>held := {ProcLock pr}\<rparr>)))"
proof -
  define k where "k = min m room"
  let ?s = "s\<lparr>held := {PipeLock pi}\<rparr>"
  define u where "u = upd_pipe pi (fold pipe_put (ubytes (pmem s) r addr k)) ?s"
  have h: "held s = {}" using s(1) by (simp add: idle_def)
  have k: "k \<le> m" "length (contents (pipes s pi)) + k \<le> PIPESIZE" using s(5) by (auto simp: k_def room pipe_ok_def)
  have "rrange (pmem s) r addr k" using m(2) k(1) by (simp add: rrange_def)
  from pipewrite_fill [where i = 0 and s = ?s and j = k and k = "m - k" and addr = addr, of r pr pi] this m(3) s(3,4) k
  have loop: "pipewrite pi addr n s = pipewrite_loop pr pi addr k (m - k) u"
    using s(2) h m(1) by (simp add: pipewrite_def u_def ubytes_def)
  define w where "w = u\<lparr>procs := wake (ChPipeRead pi) (myproc s) {..<NPROC} (procs s)\<rparr>"
  have wk: "wakeup (ChPipeRead pi) u = Ret () w"
    using wakeup_eq [of u] by (simp add: w_def u_def plocks_free_idle [of _ "PipeLock pi"] upd_pipe_def)
  have w: "held w = {PipeLock pi}" "myproc w = Some pr" "w\<lparr>held := H\<rparr> = (pipe_written pi (ubytes (pmem s) r addr k) s)\<lparr>held := H\<rparr>"
    for H using s(2) by (simp_all add: w_def pipe_written_def u_def upd_pipe_def myproc_def)
  have hw: "(pipe_written pi cs s)\<lparr>held := {}\<rparr> = pipe_written pi cs s" for cs
    using h by (simp add: pipe_written_def upd_pipe_def)
  show ?thesis
  proof (cases "m \<le> room")
    case True
    then have "k = m" by (simp add: k_def)
    then show ?thesis using True loop wk w hw by simp
  next
    case False
    then have km: "k = room" "m - k = Suc (m - room - 1)" by (simp_all add: k_def)
    have "length (contents (pipes s pi)) + length (ubytes (pmem s) r addr k) \<le> PIPESIZE" using k(2) by (simp add: ubytes_def)
    note p = pipe_puts [OF this]
    have "contents (pipes u pi) = contents (pipes s pi) @ ubytes (pmem s) r addr k" by (simp add: u_def p)
    then have "length (contents (pipes u pi)) = PIPESIZE" using s(5) km(1) by (simp add: ubytes_def room pipe_ok_def)
    then have full: "pi_nwrite (pipes u pi) = pi_nread (pipes u pi) + 512" using pipe_full [of "pipes u pi"] by simp
    have "pi_readopen (pipes u pi)" "ProcLock pr \<notin> held u" "\<not> p_killed (procs u pr)"
      using s(3,4) by (simp_all add: u_def p)
    then have "pipewrite_loop pr pi addr k (Suc j) u = bnd (sleep (ChPipeWrite pi) (PipeLock pi) w) (\<lambda>_ s. Ret 0 s)" for j
      using full wk by (simp add: killed_eq)
    then have "pipewrite_loop pr pi addr k (m - k) u = bnd (sleep (ChPipeWrite pi) (PipeLock pi) w) (\<lambda>_ s. Ret 0 s)"
      by (simp only: km(2))
    also have "sleep (ChPipeWrite pi) (PipeLock pi) w = Switch (upd_proc pr (\<lambda>q. q\<lparr>p_chan := Some (ChPipeWrite pi), p_state := SLEEPING\<rparr>)
        (w\<lparr>held := {ProcLock pr}\<rparr>))" using w by (intro sleep_switch) simp_all
    finally show ?thesis using False loop w km(1) by simp
  qed
qed

subsection \<open>Reading\<close>

text \<open>The state after \<^verbatim>\<open>k\<close> bytes have been read, with memory \<^verbatim>\<open>m\<close>.\<close>

definition pipe_taken :: "u64 \<Rightarrow> nat \<Rightarrow> mem \<Rightarrow> kernel \<Rightarrow> kernel" where
  "pipe_taken pi k m s = upd_pipe pi (\<lambda>q. q\<lparr>pi_nread := pi_nread q + of_nat k\<rparr>) (s\<lparr>pmem := m\<rparr>)"

definition delivered :: "mem \<Rightarrow> u64 \<Rightarrow> u64 \<Rightarrow> nat \<Rightarrow> u8 list \<Rightarrow> mem \<Rightarrow> bool" where
  "delivered m r addr i cs m' \<longleftrightarrow> (\<forall>wa. uaddr m' r wa = uaddr m r wa) \<and>
     (\<forall>x < length cs. m' (uaddr m r (addr + of_nat (i + x))) = cs ! x) \<and>
     (\<forall>a. (\<forall>x < length cs. a \<noteq> uaddr m r (addr + of_nat (i + x))) \<longrightarrow> m' a = m a)"

lemma delivered_cons:
  assumes "delivered m r addr i [c] m1" "delivered m1 r addr (Suc i) cs m2" "wrange m r addr n" "Suc i + length cs \<le> n"
  shows "delivered m r addr i (c # cs) m2"
proof -
  have u: "uaddr m1 r wa = uaddr m r wa" "uaddr m2 r wa = uaddr m r wa" for wa using assms(1,2) by (simp_all add: delivered_def)
  have far: "uaddr m r (addr + of_nat i) \<noteq> uaddr m1 r (addr + of_nat (Suc i + x))" if "x < length cs" for x
  proof
    assume "uaddr m r (addr + of_nat i) = uaddr m1 r (addr + of_nat (Suc i + x))"
    then have "i = Suc i + x" unfolding u by (rule uaddr_inj [OF assms(3), rotated 2]) (use assms(4) that in simp_all)
    then show False by simp
  qed
  then have "m2 (uaddr m r (addr + of_nat i)) = m1 (uaddr m r (addr + of_nat i))"
    using assms(2) unfolding delivered_def by blast
  moreover have "m1 (uaddr m r (addr + of_nat i)) = c" using assms(1) by (simp add: delivered_def)
  moreover have "m2 (uaddr m r (addr + of_nat (i + Suc x))) = cs ! x" if "x < length cs" for x
    using assms(2) that by (simp add: delivered_def u)
  moreover have "m2 a = m a" if "\<forall>x < Suc (length cs). a \<noteq> uaddr m r (addr + of_nat (i + x))" for a
  proof -
    have "a \<noteq> uaddr m r (addr + of_nat (i + Suc x))" if "x < length cs" for x
      using \<open>\<forall>x < Suc (length cs). a \<noteq> uaddr m r (addr + of_nat (i + x))\<close> that by (metis Suc_less_eq)
    then have "m2 a = m1 a" using assms(2) by (simp add: delivered_def u del: of_nat_Suc of_nat_add)
    moreover have "a \<noteq> uaddr m r (addr + of_nat (i + 0))" using that by blast
    then have "m1 a = m a" using assms(1) by (simp add: delivered_def)
    ultimately show ?thesis by simp
  qed
  ultimately show ?thesis
    unfolding delivered_def u by (auto simp: nth_Cons split: nat.split simp del: of_nat_Suc of_nat_add)
qed

lemma piperead_drain:
  assumes "wrange (pmem s) r addr n" "r = p_pagetable (procs s pr)" "i + k \<le> n" "k \<le> length (contents (pipes s pi))"
  shows "\<exists>m. piperead_loop pr pi addr i (k + j) s = piperead_loop pr pi addr (i + k) j (pipe_taken pi k m s) \<and>
    wrange m r addr n \<and> delivered (pmem s) r addr i (take k (contents (pipes s pi))) m \<and>
    contents (pipes (pipe_taken pi k m s) pi) = drop k (contents (pipes s pi))"
  using assms
proof (induction k arbitrary: i s)
  case 0
  have "pipe_taken pi 0 (pmem s) s = s" by (simp add: pipe_taken_def upd_pipe_def)
  then show ?case using 0 by (intro exI [of _ "pmem s"]) (simp add: delivered_def)
next
  case (Suc k)
  let ?q = "pipes s pi"
  have ne: "contents ?q \<noteq> []" using Suc.prems(4) by auto
  note g = pipe_get_contents [OF ne]
  have kl: "k \<le> length (contents ?q) - Suc 0" using Suc.prems(4) by simp
  have i: "i < n" using Suc.prems(3) by simp
  obtain m1 where m1: "copyout r (addr + of_nat i) [pipe_get ?q] s = Ret 0 (s\<lparr>pmem := m1\<rparr>)" "wrange m1 r addr n"
    "\<And>wa. uaddr m1 r wa = uaddr (pmem s) r wa" "m1 (uaddr (pmem s) r (addr + of_nat i)) = pipe_get ?q"
    "\<And>a. a \<noteq> uaddr (pmem s) r (addr + of_nat i) \<Longrightarrow> m1 a = pmem s a"
    by (rule copyout_byte [OF Suc.prems(1) i, where c = "pipe_get ?q"]) blast
  have d1: "delivered (pmem s) r addr i [pipe_get ?q] m1" using m1(3-5) by (simp add: delivered_def)
  define u where "u = pipe_taken pi 1 m1 s"
  have u: "pmem u = m1" "procs u = procs s" "contents (pipes u pi) = tl (contents ?q)"
    using g by (simp_all add: u_def pipe_taken_def)
  have "piperead_loop pr pi addr i (Suc k + j) s = piperead_loop pr pi addr (Suc i) (k + j) u"
    using Suc.prems(2) m1(1) ne pipe_empty [of ?q] by (simp add: u_def pipe_taken_def)
  moreover obtain m where m: "piperead_loop pr pi addr (Suc i) (k + j) u = piperead_loop pr pi addr (Suc i + k) j (pipe_taken pi k m u)"
    "wrange m r addr n" "delivered m1 r addr (Suc i) (take k (tl (contents ?q))) m"
    "contents (pipes (pipe_taken pi k m u) pi) = drop k (tl (contents ?q))"
    using Suc.IH [of u "Suc i"] Suc.prems(2,3) kl u m1(2) by auto
  moreover have "pipe_taken pi k m u = pipe_taken pi (Suc k) m s"
    by (simp add: u_def pipe_taken_def upd_pipe_def add.assoc)
  moreover have "take (Suc k) (contents ?q) = pipe_get ?q # take k (tl (contents ?q))"
    using g by (metis list.sel(3) take_Suc_Cons)
  then have "delivered (pmem s) r addr i (take (Suc k) (contents ?q)) m"
    using delivered_cons [OF d1 m(3) Suc.prems(1)] Suc.prems(3,4) by simp
  ultimately show ?case by (intro exI [of _ m]) (simp add: drop_Suc)
qed

lemma delivered_copyin:
  assumes "wrange m r addr n" "delivered m0 r addr 0 cs m" "length cs = n" "pmem t = m"
  shows "copyin r addr n t = Ret (0, cs) t"
proof -
  have "rrange (pmem t) r addr n" using assms(1,4) by (simp add: wrange_def rrange_def user_wpage_def)
  then have "copyin r addr n t = Ret (0, ubytes (pmem t) r addr n) t"
    unfolding rrange_def ubytes_def by (intro copyin_user) auto
  moreover have "ubytes (pmem t) r addr n = cs"
    using assms(2-4) by (intro nth_equalityI) (simp_all add: ubytes_def delivered_def)
  ultimately show ?thesis by simp
qed

lemma piperead_eq:
  assumes s: "idle s" "myproc s = Some pr" "contents (pipes s pi) \<noteq> [] \<or> \<not> pi_writeopen (pipes s pi)"
    and k: "k = min (nat (sint n)) (length (contents (pipes s pi)))"
    and r: "wrange (pmem s) r addr k" "r = p_pagetable (procs s pr)"
  obtains m t where "piperead pi addr n s = Ret (of_nat k) t" "pmem t = m" "wrange m r addr k"
    "delivered (pmem s) r addr 0 (take k (contents (pipes s pi))) m" "contents (pipes t pi) = drop k (contents (pipes s pi))"
    "procs t = wake (ChPipeWrite pi) (myproc s) {..<NPROC} (procs s)" "held t = {}"
proof -
  let ?s = "s\<lparr>held := {PipeLock pi}\<rparr>" and ?q = "pipes s pi"
  define j where "j = nat (sint n) - k"
  have h: "held s = {}" using s(1) by (simp add: idle_def)
  obtain m where m: "piperead_loop pr pi addr 0 (k + j) ?s = piperead_loop pr pi addr k j (pipe_taken pi k m ?s)"
    "wrange m r addr k" "delivered (pmem s) r addr 0 (take k (contents ?q)) m"
    "contents (pipes (pipe_taken pi k m ?s) pi) = drop k (contents ?q)"
    using piperead_drain [of ?s r addr k pr 0 k pi j] r k by auto
  have "piperead_loop pr pi addr k j (pipe_taken pi k m ?s) = Ret (of_nat k) (pipe_taken pi k m ?s)"
  proof (cases j)
    case (Suc i)
    then have "contents (pipes (pipe_taken pi k m ?s) pi) = []" using m(4) k by (simp add: j_def)
    then show ?thesis using Suc pipe_empty [of "pipes (pipe_taken pi k m ?s) pi"] by simp
  qed simp
  moreover have "k + j = nat (sint n)" by (simp add: j_def k)
  ultimately have l: "piperead_loop pr pi addr 0 (nat (sint n)) ?s = Ret (of_nat k) (pipe_taken pi k m ?s)" using m(1) by simp
  define t where "t = (pipe_taken pi k m s)\<lparr>procs := wake (ChPipeWrite pi) (myproc s) {..<NPROC} (procs s)\<rparr>"
  have "wakeup (ChPipeWrite pi) (pipe_taken pi k m ?s) = Ret () (t\<lparr>held := {PipeLock pi}\<rparr>)"
    using wakeup_eq [of "pipe_taken pi k m ?s" "ChPipeWrite pi"]
    by (simp add: t_def pipe_taken_def plocks_free_idle [of _ "PipeLock pi"] upd_pipe_def myproc_def)
  moreover have t: "held t = {}" using h by (simp add: t_def pipe_taken_def)
  moreover have "\<not> (pi_nread ?q = pi_nwrite ?q \<and> pi_writeopen ?q)" using s(3) pipe_empty [of ?q] by simp
  ultimately have "piperead pi addr n s = Ret (of_nat k) (t\<lparr>held := {}\<rparr>)"
    using s(2) h l by (auto simp: piperead_def piperead_locked_def)
  moreover have "t\<lparr>held := {}\<rparr> = t" using t by simp
  moreover have "contents (pipes t pi) = drop k (contents ?q)" using m(4) by (simp add: t_def pipe_taken_def)
  moreover have "pmem t = m" "procs t = wake (ChPipeWrite pi) (myproc s) {..<NPROC} (procs s)"
    by (simp_all add: t_def pipe_taken_def)
  ultimately show ?thesis using that m(2,3) t by metis
qed

subsection \<open>Properties\<close>

text \<open>\<^bold>\<open>C20\<close> Writing to a pipe that has a reader, from mapped user memory. If the bytes fit,
  all of them are appended, in order, and their number is returned. Otherwise exactly as
  many as fit are appended and the writer sleeps on the full pipe until a reader makes room.
  In both cases every process that waits to read from the pipe is made runnable.\<close>

theorem pipewrite_appends:
  assumes "idle s" "myproc s = Some pr" "pi_readopen (pipes s pi)" "\<not> p_killed (procs s pr)" "pipe_ok (pipes s pi)"
    and "m = nat (sint n)" "rrange (pmem s) r addr m" "r = p_pagetable (procs s pr)"
    and "room = PIPESIZE - length (contents (pipes s pi))"
  shows "\<exists>t. pipewrite pi addr n s = (if m \<le> room then Ret (of_nat m) t else Switch t) \<and>
    contents (pipes t pi) = contents (pipes s pi) @ ubytes (pmem s) r addr (min m room) \<and> pipe_ok (pipes t pi) \<and>
    (room < m \<longrightarrow> p_state (procs t pr) = SLEEPING \<and> p_chan (procs t pr) = Some (ChPipeWrite pi)) \<and>
    (\<forall>p < NPROC. p \<noteq> pr \<and> p_state (procs s p) = SLEEPING \<and> p_chan (procs s p) = Some (ChPipeRead pi) \<longrightarrow>
      p_state (procs t p) = RUNNABLE)"
proof -
  define k where "k = min m room"
  have "length (contents (pipes s pi)) + length (ubytes (pmem s) r addr k) \<le> PIPESIZE"
    using assms(5,9) by (simp add: ubytes_def k_def pipe_ok_def)
  note p = pipe_puts [OF this]
  define t where "t = (if m \<le> room then pipe_written pi (ubytes (pmem s) r addr k) s
    else upd_proc pr (\<lambda>q. q\<lparr>p_chan := Some (ChPipeWrite pi), p_state := SLEEPING\<rparr>)
       ((pipe_written pi (ubytes (pmem s) r addr k) s)\<lparr>held := {ProcLock pr}\<rparr>))"
  have e: "pipewrite pi addr n s = (if m \<le> room then Ret (of_nat m) t else Switch t)"
    using pipewrite_eq [OF assms] by (auto simp: t_def k_def min_def)
  have c: "contents (pipes t pi) = contents (pipes s pi) @ ubytes (pmem s) r addr k"
    using p(1) by (simp add: t_def pipe_written_def upd_proc_def)
  then have "pipe_ok (pipes t pi)" using assms(5,9) by (simp add: pipe_ok_def ubytes_def k_def)
  moreover have "p_state (procs t pr) = SLEEPING \<and> p_chan (procs t pr) = Some (ChPipeWrite pi)" if "room < m"
    using that by (simp add: t_def upd_proc_def)
  moreover have "p_state (procs t p) = RUNNABLE"
    if "p < NPROC" "p \<noteq> pr" "p_state (procs s p) = SLEEPING" "p_chan (procs s p) = Some (ChPipeRead pi)" for p
    using that assms(2) by (simp add: t_def upd_proc_def pipe_written_def wake_def)
  ultimately show ?thesis using e c unfolding k_def by blast
qed

text \<open>A process with one mapped page, and a pipe whose counters are about to wrap around.\<close>

definition demo_pipe :: "u8 list \<Rightarrow> pipe" where
  "demo_pipe cs = fold pipe_put cs \<lparr>pi_data = \<lambda>_. 0, pi_nread = 0xFFFFFFFE, pi_nwrite = 0xFFFFFFFE,
     pi_readopen = True, pi_writeopen = True\<rparr>"

definition demo_piper :: "u8 list \<Rightarrow> kernel" where
  "demo_piper cs = demo_state\<lparr>cpus := \<lambda>_. \<lparr>c_proc = Some 0, c_context = \<lambda>_. 0\<rparr>,
     procs := (\<lambda>_. proc0)(0 := proc0\<lparr>p_pagetable := 0x80001000\<rparr>), pipes := \<lambda>_. demo_pipe cs\<rparr>"

lemma demo_pipe_contents: "length cs \<le> PIPESIZE \<Longrightarrow> contents (demo_pipe cs) = cs \<and> pi_readopen (demo_pipe cs)"
  unfolding demo_pipe_def by (subst pipe_puts; (subst pipe_puts)?) (simp_all add: contents_def ring_list_def)

lemma demo_range: "n \<le> 100 \<Longrightarrow> wrange demo_mem 0x80001000 0x10 n \<and> rrange demo_mem 0x80001000 0x10 n"
proof -
  assume n: "n \<le> 100"
  have u: "unat (0x10 + of_nat i :: u64) = 16 + i" if "i < n" for i
    using that n by (simp add: unat_word_ariths unat_of_nat take_bit_nat_eq_self)
  then have lt: "(0x10 + of_nat i :: u64) < 4096" if "i < n" for i using that n by (simp add: word_less_nat_alt)
  have "PGROUNDDOWN (0x10 + of_nat i) = 0" if "i < n" for i
    using that n u by (simp add: word_unat_eq_iff unat_PGROUNDDOWN)
  then show ?thesis
    using lt demo_pages(1,2) demo_table(1) n by (auto simp: wrange_def rrange_def)
qed

theorem pipewrite_appends_witness:
  "\<exists>t. pipewrite 7 0x10 3 (demo_piper [9]) = Ret 3 t \<and> contents (pipes t 7) = [9] @ ubytes demo_mem 0x80001000 0x10 3"
proof -
  let ?s = "demo_piper [9]"
  have c: "contents (demo_pipe [9]) = [9]" "pi_readopen (demo_pipe [9])" using demo_pipe_contents [of "[9]"] by simp_all
  have "idle ?s" "myproc ?s = Some 0" "pi_readopen (pipes ?s 7)" "\<not> p_killed (procs ?s 0)" "pipe_ok (pipes ?s 7)"
    "3 = nat (sint (3 :: i32))" "rrange (pmem ?s) 0x80001000 0x10 3" "0x80001000 = p_pagetable (procs ?s 0)"
    "511 = PIPESIZE - length (contents (pipes ?s 7))"
    using demo_range [of 3] c by (simp_all add: demo_piper_def idle_def myproc_def demo_state_def kernel0_def proc0_def pipe_ok_def)
  from pipewrite_appends [OF this] show ?thesis
    using c by (auto simp: demo_piper_def demo_state_def)
qed

text \<open>\<^bold>\<open>C21\<close> Reading from a pipe that holds bytes, or whose writers are gone, into writable
  user memory: the first bytes of the pipe, as many as were asked for or are there, are
  what the reader finds in its memory afterwards; they and nothing else leave the pipe, and
  every process that waits for room in it is made runnable.\<close>

theorem piperead_takes:
  assumes "idle s" "myproc s = Some pr" "contents (pipes s pi) \<noteq> [] \<or> \<not> pi_writeopen (pipes s pi)"
    and "k = min (nat (sint n)) (length (contents (pipes s pi)))"
    and "wrange (pmem s) r addr k" "r = p_pagetable (procs s pr)"
  shows "returns (piperead pi addr n s) (\<lambda>x t. x = of_nat k \<and> contents (pipes t pi) = drop k (contents (pipes s pi)) \<and>
    copyin r addr k t = Ret (0, take k (contents (pipes s pi))) t \<and>
    (\<forall>p < NPROC. p \<noteq> pr \<and> p_state (procs s p) = SLEEPING \<and> p_chan (procs s p) = Some (ChPipeWrite pi) \<longrightarrow>
      p_state (procs t p) = RUNNABLE))"
proof -
  obtain m t where t: "piperead pi addr n s = Ret (of_nat k) t" "pmem t = m" "wrange m r addr k"
    "delivered (pmem s) r addr 0 (take k (contents (pipes s pi))) m" "contents (pipes t pi) = drop k (contents (pipes s pi))"
    "procs t = wake (ChPipeWrite pi) (myproc s) {..<NPROC} (procs s)" "held t = {}"
    by (rule piperead_eq [OF assms])
  have "copyin r addr k t = Ret (0, take k (contents (pipes s pi))) t"
    by (rule delivered_copyin [OF t(3,4) _ t(2)]) (simp add: assms(4))
  then show ?thesis using t(1,5,6) assms(2) by (auto simp: wake_def)
qed

theorem piperead_takes_witness:
  "returns (piperead 7 0x10 2 (demo_piper [7, 8, 9])) (\<lambda>x t. x = 2 \<and> contents (pipes t 7) = [9] \<and>
     copyin 0x80001000 0x10 2 t = Ret (0, [7, 8]) t)"
proof -
  let ?s = "demo_piper [7, 8, 9]"
  have c: "contents (demo_pipe [7, 8, 9]) = [7, 8, 9]" using demo_pipe_contents [of "[7, 8, 9]"] by simp
  have "idle ?s" "myproc ?s = Some 0" "contents (pipes ?s 7) \<noteq> [] \<or> \<not> pi_writeopen (pipes ?s 7)"
    "2 = min (nat (sint (2 :: i32))) (length (contents (pipes ?s 7)))"
    "wrange (pmem ?s) 0x80001000 0x10 2" "0x80001000 = p_pagetable (procs ?s 0)"
    using demo_range [of 2] c by (simp_all add: demo_piper_def idle_def myproc_def demo_state_def kernel0_def)
  from piperead_takes [OF this] show ?thesis
    by (rule returns_weaken) (simp add: demo_piper_def c)
qed

end
