(* ===== verification/Console_Line.thy ===== *)
theory Console_Line
  imports Console Ring_Buffer Bio_Cache
begin

text \<open>
  The console's input processing refines a line editor on two lists: the completed input
  that \<^verbatim>\<open>consoleread\<close> may take, and the line being edited.
\<close>

unbundle bit_operations_syntax

interpretation cons_ring: ring_size 128
  by unfold_locales simp_all

lemma ring_split:
  assumes "unat (w - r) + unat (e - w) \<le> 128"
  shows "ring_list 128 d r e = ring_list 128 d r w @ ring_list 128 d w e" "unat (e - r) = unat (w - r) + unat (e - w)"
proof -
  have "e - r = (w - r) + (e - w)" by simp
  then show n: "unat (e - r) = unat (w - r) + unat (e - w)"
    using assms by (simp only:) (subst unat_add_lem [THEN iffD1]; simp)
  have w: "r + of_nat (unat (w - r) + j) = w + of_nat j" for j by simp
  show "ring_list 128 d r e = ring_list 128 d r w @ ring_list 128 d w e"
    unfolding ring_list_def n
    by (rule nth_equalityI) (auto simp: nth_append w [symmetric] simp del: of_nat_add)
qed

subsection \<open>The abstract line editor\<close>

definition ready :: "kernel \<Rightarrow> u8 list" where
  "ready s = ring_list 128 (cons_buf s) (cons_r s) (cons_w s)"

definition editing :: "kernel \<Rightarrow> u8 list" where
  "editing s = ring_list 128 (cons_buf s) (cons_w s) (cons_e s)"

definition cons_inv :: "kernel \<Rightarrow> bool" where
  "cons_inv s \<longleftrightarrow> length (ready s) + length (editing s) \<le> 128 \<and> 10 \<notin> set (editing s)"

text \<open>One key: ^P does not change the input, ^U discards the line, backspace and delete its
  last character; any other character but NUL is added while there is room, return as a
  newline, and newline, ^D and the last free place complete the line.\<close>

definition key :: "u8 \<Rightarrow> u8 list \<times> u8 list \<Rightarrow> u8 list \<times> u8 list" where
  "key c = (\<lambda>(done, line).
     if c = 0x10 then (done, line)
     else if c = 0x15 then (done, [])
     else if c = 8 \<or> c = 0x7F then (done, butlast line)
     else if c = 0 \<or> length done + length line \<ge> 128 then (done, line)
     else let c = (if c = 13 then 10 else c); line = line @ [c] in
       if c = 10 \<or> c = 4 \<or> length done + length line = 128 then (done @ line, []) else (done, line))"

subsection \<open>The pieces of the handler\<close>

lemma procdump_loop_uart:
  "PrLock \<notin> held s \<Longrightarrow> \<exists>out. procdump_loop ps s = Ret () (s\<lparr>uart_out := out\<rparr>)"
proof (induction ps arbitrary: s)
  case Nil
  show ?case by (rule exI [of _ "uart_out s"]) simp
next
  case (Cons p ps)
  show ?case
  proof (cases "p_state (procs s p) = UNUSED")
    case True
    with Cons show ?thesis by simp
  next
    case False
    obtain o1 where 1: "printf ''%d %s %s'' [VInt (ucast (p_pid (procs s p))),
        VStr (bytes_of (state_name (p_state (procs s p)))), VStr (p_name (procs s p))] s = Ret () (s\<lparr>uart_out := o1\<rparr>)"
      by (rule printf_returns [OF Cons.prems])
    obtain o2 where 2: "printf [CHR 0x0A] [] (s\<lparr>uart_out := o1\<rparr>) = Ret () ((s\<lparr>uart_out := o1\<rparr>)\<lparr>uart_out := o2\<rparr>)"
      by (rule printf_returns [of "s\<lparr>uart_out := o1\<rparr>"]) (use Cons.prems in simp)
    show ?thesis using Cons.IH [of "s\<lparr>uart_out := o2\<rparr>"] Cons.prems False 1 2 by (auto simp: Let_def)
  qed
qed

lemma procdump_uart: "PrLock \<notin> held s \<Longrightarrow> \<exists>out. procdump s = Ret () (s\<lparr>uart_out := out\<rparr>)"
proof -
  assume h: "PrLock \<notin> held s"
  obtain o1 where "printf [CHR 0x0A] [] s = Ret () (s\<lparr>uart_out := o1\<rparr>)" by (rule printf_returns [OF h])
  moreover obtain o2 where "procdump_loop [0..<NPROC] (s\<lparr>uart_out := o1\<rparr>) = Ret () ((s\<lparr>uart_out := o1\<rparr>)\<lparr>uart_out := o2\<rparr>)"
    using procdump_loop_uart [of "s\<lparr>uart_out := o1\<rparr>"] h by auto
  ultimately show ?thesis by (auto simp: procdump_def simp del: procdump_loop.simps)
qed

lemma editing_last:
  assumes "cons_e s \<noteq> cons_w s"
  shows "editing s = butlast (editing s) @ [cons_buf s (unat ((cons_e s - 1) mod 128))]"
    "editing (s\<lparr>cons_e := cons_e s - 1\<rparr>) = butlast (editing s)"
proof -
  let ?e = "cons_e s - 1"
  show b: "editing (s\<lparr>cons_e := cons_e s - 1\<rparr>) = butlast (editing s)"
    using cons_ring.ring_unwrite [of "cons_w s" "cons_e s"] assms by (simp add: editing_def)
  have x: "cons_e s - cons_w s \<noteq> 0" "cons_e s - cons_w s - 1 = ?e - cons_w s" using assms by simp_all
  have "unat (cons_e s - cons_w s) = Suc (unat (?e - cons_w s))"
    using unat_pred [OF x(1)] unfolding x(2) .
  then have "editing s = ring_list 128 (cons_buf s) (cons_w s) ?e @ [cons_buf s (unat (cons_w s + of_nat (unat (?e - cons_w s))) mod 128)]"
    by (simp add: editing_def ring_list_def)
  moreover have "unat (?e mod 128) = unat ?e mod 128" by (simp add: unat_mod)
  ultimately show "editing s = butlast (editing s) @ [cons_buf s (unat ((cons_e s - 1) mod 128))]"
    by simp
qed

lemma kill_line_eq:
  assumes "10 \<notin> set (editing s)"
  shows "\<exists>out. kill_line s = s\<lparr>uart_out := out, cons_e := cons_w s\<rparr>"
  using assms
proof (induction s rule: kill_line.induct)
  case (1 s)
  show ?case
  proof (cases "cons_e s = cons_w s")
    case True
    then have "kill_line s = s" by (subst kill_line.simps) simp
    also have "s = s\<lparr>uart_out := uart_out s, cons_e := cons_w s\<rparr>" using True by simp
    finally show ?thesis by blast
  next
    case False
    note l = editing_last [OF False]
    have c: "cons_e s \<noteq> cons_w s \<and> cons_buf s (unat ((cons_e s - 1) mod 128)) \<noteq> 10"
      using False l(1) 1(2) by (metis in_set_conv_decomp)
    obtain o1 where o1: "consputc BACKSPACE (s\<lparr>cons_e := cons_e s - 1\<rparr>) = (s\<lparr>cons_e := cons_e s - 1\<rparr>)\<lparr>uart_out := o1\<rparr>"
      using consputc_uart by blast
    have "editing ((s\<lparr>cons_e := cons_e s - 1\<rparr>)\<lparr>uart_out := o1\<rparr>) = butlast (editing s)"
      using l(2) by (simp add: editing_def)
    then have "10 \<notin> set (editing (consputc BACKSPACE (s\<lparr>cons_e := cons_e s - 1\<rparr>)))"
      using 1(2) o1 by (auto dest: in_set_butlastD)
    from 1(1) [OF c this] obtain o2 where "kill_line (consputc BACKSPACE (s\<lparr>cons_e := cons_e s - 1\<rparr>)) =
        (consputc BACKSPACE (s\<lparr>cons_e := cons_e s - 1\<rparr>))\<lparr>uart_out := o2, cons_e := cons_w s\<rparr>" by auto
    moreover have "kill_line s = kill_line (consputc BACKSPACE (s\<lparr>cons_e := cons_e s - 1\<rparr>))"
      using c by (subst kill_line.simps) simp
    ultimately have "kill_line s = s\<lparr>uart_out := o2, cons_e := cons_w s\<rparr>" unfolding o1 by simp
    then show ?thesis by blast
  qed
qed

lemma ucast_u8_inj: "(ucast (b :: u8) :: u32) = ucast c \<longleftrightarrow> b = c"
proof
  assume "(ucast b :: u32) = ucast c"
  then have "unat (ucast b :: u32) = unat (ucast c :: u32)" by simp
  then show "b = c" by (simp add: unat_ucast_up word_unat_eq_iff)
qed simp

lemma key_codes:
  "(ucast (b :: u8) :: u32) = 0x10 \<longleftrightarrow> b = 0x10" "(ucast b :: u32) = 0x15 \<longleftrightarrow> b = 0x15" "(ucast b :: u32) = 8 \<longleftrightarrow> b = 8"
  "(ucast b :: u32) = 0x7F \<longleftrightarrow> b = 0x7F" "(ucast b :: u32) = 0 \<longleftrightarrow> b = 0" "(ucast b :: u32) = 13 \<longleftrightarrow> b = 13"
  "(ucast b :: u32) = 10 \<longleftrightarrow> b = 10" "(ucast b :: u32) = 4 \<longleftrightarrow> b = 4"
  using ucast_u8_inj [of b "0x10"] ucast_u8_inj [of b "0x15"] ucast_u8_inj [of b 8] ucast_u8_inj [of b "0x7F"]
    ucast_u8_inj [of b 0] ucast_u8_inj [of b 13] ucast_u8_inj [of b 10] ucast_u8_inj [of b 4]
  by simp_all

subsection \<open>Properties\<close>

text \<open>Adding a character to the line.\<close>

definition typed :: "u8 \<Rightarrow> kernel \<Rightarrow> kernel" where
  "typed c s = s\<lparr>cons_buf := (cons_buf s)(unat (cons_e s mod 128) := c), cons_e := cons_e s + 1\<rparr>"

lemma typed_lists:
  assumes "cons_inv s" "length (ready s) + length (editing s) < 128"
  shows "ready (typed c s) = ready s" "editing (typed c s) = editing s @ [c]"
    "ready ((typed c s)\<lparr>cons_w := cons_e s + 1\<rparr>) = ready s @ editing s @ [c]" "editing ((typed c s)\<lparr>cons_w := cons_e s + 1\<rparr>) = []"
proof -
  let ?i = "unat (cons_e s mod 128)" and ?d = "(cons_buf s)(unat (cons_e s mod 128) := c)"
  have i: "?i = unat (cons_e s) mod 128" by (simp add: unat_mod)
  have l: "unat (cons_w s - cons_r s) + unat (cons_e s - cons_w s) < 128"
    using assms(2) by (simp add: ready_def editing_def)
  note sp = ring_split(1) [OF less_imp_le [OF l], of "cons_buf s"] ring_split(2) [OF less_imp_le [OF l]]
  have all: "ring_list 128 ?d (cons_r s) (cons_e s + 1) = ready s @ editing s @ [c]"
    using cons_ring.ring_write [OF _ i, where d = "cons_buf s" and x = c and r = "cons_r s"] sp l by (simp add: ready_def editing_def)
  show e: "editing (typed c s) = editing s @ [c]"
    using cons_ring.ring_write [OF _ i, where d = "cons_buf s" and x = c and r = "cons_w s"] l by (simp add: editing_def typed_def)
  have n: "unat (cons_e s + 1 - cons_w s) = Suc (unat (cons_e s - cons_w s))"
    by (rule cons_ring.unat_length_Suc) (use l in simp)
  have "ring_list 128 ?d (cons_r s) (cons_e s + 1) = ready (typed c s) @ editing (typed c s)"
    using ring_split(1) [where r = "cons_r s" and w = "cons_w s" and e = "cons_e s + 1" and d = ?d] n l
    by (simp add: ready_def editing_def typed_def)
  then show "ready (typed c s) = ready s" using all e by simp
  show "ready ((typed c s)\<lparr>cons_w := cons_e s + 1\<rparr>) = ready s @ editing s @ [c]"
    using all by (simp add: ready_def typed_def)
  show "editing ((typed c s)\<lparr>cons_w := cons_e s + 1\<rparr>) = []" by (simp add: editing_def typed_def ring_list_def)
qed

lemma editor_frame [simp]:
  "ready (s\<lparr>uart_out := x\<rparr>) = ready s" "editing (s\<lparr>uart_out := x\<rparr>) = editing s"
  "ready (s\<lparr>held := h\<rparr>) = ready s" "editing (s\<lparr>held := h\<rparr>) = editing s"
  "ready (s\<lparr>procs := q\<rparr>) = ready s" "editing (s\<lparr>procs := q\<rparr>) = editing s"
  "ready (s\<lparr>cons_e := y\<rparr>) = ready s"
  by (simp_all add: ready_def editing_def)

lemma cons_room:
  assumes "cons_inv s"
  shows "cons_e s - cons_r s < 128 \<longleftrightarrow> length (ready s) + length (editing s) < 128"
    "unat (cons_e s - cons_r s) = length (ready s) + length (editing s)"
  using ring_split(2) [of "cons_w s" "cons_r s" "cons_e s"] assms
  by (simp_all add: cons_inv_def ready_def editing_def word_less_nat_alt)

lemma consoleintr_default:
  assumes "held s = {}" "cons_inv s" "c \<notin> {0x10, 0x15, 8, 0x7F, 0}" "length (ready s) + length (editing s) < 128"
  defines "c' \<equiv> (if c = 13 then 10 else c)"
  defines "full \<equiv> c' = 10 \<or> c' = 4 \<or> Suc (length (ready s) + length (editing s)) = 128"
  shows "\<exists>out. consoleintr (ucast c) s = Ret () ((if full
    then (typed c' s)\<lparr>cons_w := cons_e s + 1, procs := wake ChCons (myproc s) {..<NPROC} (procs s)\<rparr>
    else typed c' s)\<lparr>uart_out := out\<rparr>)"
proof -
  let ?c = "ucast c' :: u32" and ?s = "s\<lparr>held := {ConsLock}\<rparr>"
  obtain out where out: "consputc ?c ?s = ?s\<lparr>uart_out := out\<rparr>" using consputc_uart by blast
  define u where "u = typed c' (?s\<lparr>uart_out := out\<rparr>)"
  have cc: "(if (ucast c :: u32) = 13 then 10 else ucast c) = ?c" by (simp add: c'_def key_codes)
  have room: "(ucast c :: u32) \<noteq> 0 \<and> cons_e s - cons_r s < 128" using assms(3,4) cons_room(1) [OF assms(2)] by (simp add: key_codes)
  have len: "unat (cons_e s - cons_r s) = length (ready s) + length (editing s)" using cons_room(2) [OF assms(2)] .
  have "unat (cons_e s + 1 - cons_r s) = Suc (unat (cons_e s - cons_r s))"
    by (rule cons_ring.unat_length_Suc) (use assms(4) len in simp)
  then have full: "(?c = 10 \<or> ?c = 4 \<or> cons_e s + 1 - cons_r s = 128) = full"
    by (simp add: full_def key_codes word_unat_eq_iff [of _ 128] len)
  have "(ucast ?c :: u8) = c'"
    using unat_bound [of c'] by (simp add: word_unat_eq_iff unat_ucast)
  then have "consoleintr (ucast c) s = bnd (if full then wakeup ChCons (u\<lparr>cons_w := cons_e s + 1\<rparr>) else Ret () u) (\<lambda>_ s. release ConsLock s)"
    using assms(1,3) room full unfolding consoleintr_def Let_def cc by (simp add: key_codes out u_def typed_def)
  moreover have "plocks_free (u\<lparr>cons_w := cons_e s + 1\<rparr>)"
    by (rule plocks_free_idle [of _ ConsLock]) (simp_all add: u_def typed_def)
  then have "wakeup ChCons (u\<lparr>cons_w := cons_e s + 1\<rparr>) = Ret () (u\<lparr>cons_w := cons_e s + 1,
      procs := wake ChCons (myproc s) {..<NPROC} (procs s)\<rparr>)"
    using wakeup_eq [of "u\<lparr>cons_w := cons_e s + 1\<rparr>" ChCons] by (simp add: u_def typed_def myproc_def)
  ultimately show ?thesis
    using assms(1) by (intro exI [of _ out]) (auto simp: u_def typed_def)
qed

lemma key_list:
  "key c (done, line) =
     (if c = 0x10 \<or> c = 0 \<or> c \<notin> {0x10, 0x15, 8, 0x7F} \<and> length done + length line \<ge> 128 then (done, line)
      else if c = 0x15 then (done, [])
      else if c = 8 \<or> c = 0x7F then (done, butlast line)
      else let c = (if c = 13 then 10 else c) in
        if c = 10 \<or> c = 4 \<or> Suc (length done + length line) = 128 then (done @ line @ [c], []) else (done, line @ [c]))"
  by (auto simp: key_def Let_def)

text \<open>The states one call of the handler may lead to: only the input lists, the output and
  the processes that wait for input change.\<close>

definition keyed :: "kernel \<Rightarrow> kernel \<Rightarrow> bool" where
  "keyed s t \<longleftrightarrow> cons_inv t \<and> held t = held s \<and> myproc t = myproc s \<and>
     (procs t = procs s \<and> ready t = ready s \<or> procs t = wake ChCons (myproc s) {..<NPROC} (procs s))"

lemma consoleintr_key:
  assumes h: "held s = {}" and inv: "cons_inv s"
  shows "\<exists>t. consoleintr (ucast c) s = Ret () t \<and> keyed s t \<and> (ready t, editing t) = key c (ready s, editing s)"
proof -
  have len: "length (ready s) + length (editing s) \<le> 128" "10 \<notin> set (editing s)" using inv by (simp_all add: cons_inv_def)
  have rl: "release ConsLock (s\<lparr>held := {ConsLock}, cons_e := y, uart_out := x\<rparr>) = Ret () (s\<lparr>cons_e := y, uart_out := x\<rparr>)" for x y
    using h by simp
  consider "c = 0x10" | "c = 0x15" | "c = 8 \<or> c = 0x7F" "cons_e s \<noteq> cons_w s" | "c = 8 \<or> c = 0x7F" "cons_e s = cons_w s"
    | "c \<notin> {0x10, 0x15, 8, 0x7F}" "c = 0 \<or> length (ready s) + length (editing s) \<ge> 128"
    | "c \<notin> {0x10, 0x15, 8, 0x7F, 0}" "length (ready s) + length (editing s) < 128"
    by fastforce
  then show ?thesis
  proof cases
    case 1
    obtain out where "procdump (s\<lparr>held := {ConsLock}\<rparr>) = Ret () (s\<lparr>held := {ConsLock}, uart_out := out\<rparr>)"
      using procdump_uart [of "s\<lparr>held := {ConsLock}\<rparr>"] by auto
    then have "consoleintr (ucast c) s = Ret () (s\<lparr>uart_out := out\<rparr>)"
      using 1 h by (simp add: consoleintr_def key_codes)
    then show ?thesis using 1 inv by (auto simp: keyed_def cons_inv_def myproc_def key_list)
  next
    case 2
    have e: "editing (s\<lparr>held := {ConsLock}\<rparr>) = editing s" by simp
    obtain out where "kill_line (s\<lparr>held := {ConsLock}\<rparr>) = s\<lparr>held := {ConsLock}, uart_out := out, cons_e := cons_w s\<rparr>"
      using kill_line_eq [of "s\<lparr>held := {ConsLock}\<rparr>"] len(2) by auto
    then have "consoleintr (ucast c) s = Ret () (s\<lparr>uart_out := out, cons_e := cons_w s\<rparr>)"
      using 2 h by (simp add: consoleintr_def key_codes)
    moreover have "editing (s\<lparr>uart_out := out, cons_e := cons_w s\<rparr>) = []" by (simp add: editing_def ring_list_def)
    ultimately show ?thesis using 2 len by (auto simp: keyed_def cons_inv_def myproc_def key_list)
  next
    case 3
    let ?s = "s\<lparr>held := {ConsLock}, cons_e := cons_e s - 1\<rparr>"
    obtain out where "consputc BACKSPACE ?s = ?s\<lparr>uart_out := out\<rparr>" using consputc_uart by blast
    then have "consoleintr (ucast c) s = Ret () (s\<lparr>cons_e := cons_e s - 1, uart_out := out\<rparr>)"
      using 3 rl h by (auto simp: consoleintr_def key_codes)
    moreover have "editing (s\<lparr>cons_e := cons_e s - 1, uart_out := out\<rparr>) = butlast (editing s)"
      using editing_last(2) [OF 3(2)] by simp
    ultimately show ?thesis
      using 3 len by (auto simp: keyed_def cons_inv_def myproc_def key_list dest: in_set_butlastD)
  next
    case 4
    then have "editing s = []" by (simp add: editing_def ring_list_def)
    moreover have "consoleintr (ucast c) s = Ret () s" using 4 h by (auto simp: consoleintr_def key_codes)
    ultimately show ?thesis using 4 inv by (auto simp: keyed_def key_list)
  next
    case 5
    then have "\<not> ((ucast c :: u32) \<noteq> 0 \<and> cons_e s - cons_r s < 128)" using cons_room(1) [OF inv] by (auto simp: key_codes)
    then have "consoleintr (ucast c) s = Ret () s" using 5(1) h by (auto simp: consoleintr_def key_codes)
    then show ?thesis using 5 inv by (auto simp: keyed_def key_list)
  next
    case 6
    define c' where "c' = (if c = 13 then 10 else c)"
    define full where "full = (c' = 10 \<or> c' = 4 \<or> Suc (length (ready s) + length (editing s)) = 128)"
    note ty = typed_lists [OF inv 6(2), of c']
    define t where "t = (if full
      then (typed c' s)\<lparr>cons_w := cons_e s + 1, procs := wake ChCons (myproc s) {..<NPROC} (procs s)\<rparr> else typed c' s)"
    obtain out where r: "consoleintr (ucast c) s = Ret () (t\<lparr>uart_out := out\<rparr>)"
      using consoleintr_default [OF h inv 6] unfolding t_def full_def c'_def by blast
    have l: "ready t = (if full then ready s @ editing s @ [c'] else ready s)" "editing t = (if full then [] else editing s @ [c'])"
      using ty by (simp_all add: t_def)
    have "cons_inv t" using len 6(2) by (auto simp: cons_inv_def l full_def)
    moreover have "(ready t, editing t) = key c (ready s, editing s)"
      using 6 unfolding l key_list c'_def [symmetric] full_def by (auto simp: Let_def)
    moreover have "held t = held s" "myproc t = myproc s" by (simp_all add: t_def typed_def myproc_def)
    moreover have "procs t = procs s \<and> ready t = ready s \<or> procs t = wake ChCons (myproc s) {..<NPROC} (procs s)"
      by (simp add: l) (simp add: t_def typed_def)
    ultimately show ?thesis
      using r by (intro exI [of _ "t\<lparr>uart_out := out\<rparr>"]) (auto simp: keyed_def cons_inv_def myproc_def)
  qed
qed

lemma keyed_trans: "keyed s u \<Longrightarrow> keyed u t \<Longrightarrow> keyed s t"
  unfolding keyed_def by (elim conjE disjE) simp_all

lemma uart_input_keys:
  "held s = {} \<Longrightarrow> cons_inv s \<Longrightarrow>
   \<exists>t. uart_input cs s = Ret () t \<and> keyed s t \<and> (ready t, editing t) = fold key cs (ready s, editing s)"
proof (induction cs arbitrary: s)
  case Nil
  then show ?case by (auto simp: keyed_def)
next
  case (Cons c cs)
  obtain u where u: "consoleintr (ucast c) s = Ret () u" "keyed s u" "(ready u, editing u) = key c (ready s, editing s)"
    using consoleintr_key [OF Cons.prems] by blast
  then have "held u = {}" "cons_inv u" using Cons.prems(1) by (auto simp: keyed_def)
  then obtain t where "uart_input cs u = Ret () t" "keyed u t" "(ready t, editing t) = fold key cs (ready u, editing u)"
    using Cons.IH by blast
  then show ?case using u keyed_trans by auto
qed

text \<open>\<^bold>\<open>C12\<close> The console refines a line editor: whatever characters the UART delivers in one
  interrupt, the handler returns, and the completed input and the line being edited are
  what the editor makes of these characters, across the wrap-around of the ring buffer and
  of its indices; no more than INPUT\_BUF\_SIZE characters are ever kept and, when the
  completed input has changed, every process that waits for input has been made runnable.\<close>

theorem console_line_editor:
  assumes "held s = {}" "cons_inv s"
  shows "returns (uartintr idl cs s) (\<lambda>_ t. cons_inv t \<and> held t = {} \<and>
    (ready t, editing t) = fold key cs (ready s, editing s) \<and>
    (ready t \<noteq> ready s \<longrightarrow> (\<forall>p < NPROC. Some p \<noteq> myproc s \<and> p_state (procs s p) = SLEEPING \<and>
       p_chan (procs s p) = Some ChCons \<longrightarrow> p_state (procs t p) = RUNNABLE)))"
proof -
  define u where "u = (if idl then s\<lparr>tx_busy := False, procs := wake ChTx (myproc s) {..<NPROC} (procs s), held := {}\<rparr> else s\<lparr>held := {}\<rparr>)"
  have f: "plocks_free (s\<lparr>held := {TxLock}, tx_busy := False\<rparr>)" by (simp add: plocks_free_def)
  have h: "held u = {}" "cons_inv u" "myproc u = myproc s" "ready u = ready s" "editing u = editing s"
    using assms by (simp_all add: u_def cons_inv_def ready_def editing_def myproc_def)
  have "uartintr idl cs s = uart_input cs u"
    using assms(1) wakeup_eq [OF f, of ChTx] by (simp add: uartintr_def u_def myproc_def)
  moreover obtain t where t: "uart_input cs u = Ret () t" "keyed u t" "(ready t, editing t) = fold key cs (ready u, editing u)"
    using uart_input_keys [OF h(1,2)] by blast
  moreover have "p_state (procs t p) = RUNNABLE"
    if "ready t \<noteq> ready s" "p < NPROC" "Some p \<noteq> myproc s" "p_state (procs s p) = SLEEPING" "p_chan (procs s p) = Some ChCons" for p
  proof -
    have "procs t = wake ChCons (myproc s) {..<NPROC} (procs u)" using t(2) that(1) h by (auto simp: keyed_def)
    moreover have "procs u p = procs s p" using that by (simp add: u_def wake_def)
    ultimately show ?thesis using that by (simp add: wake_def)
  qed
  ultimately show ?thesis using h by (auto simp: keyed_def)
qed

theorem console_line_editor_witness:
  "returns (uartintr True [108, 120, 8, 115, 13, 99] kernel0) (\<lambda>_ t. ready t = [108, 115, 10] \<and> editing t = [99])"
proof -
  have e: "held kernel0 = {}" "ready kernel0 = []" "editing kernel0 = []"
    by (simp_all add: kernel0_def ready_def editing_def ring_list_def)
  then have "cons_inv kernel0" by (simp add: cons_inv_def)
  from console_line_editor [OF e(1) this, of True "[108, 120, 8, 115, 13, 99]"] show ?thesis
    by (rule returns_weaken) (simp add: e key_def)
qed

end
