(* ===== verification/Hart.thy ===== *)
theory Hart
  imports Vm_Map
begin

text \<open>
  One hart at the level of its instructions: general registers, control and status
  registers, privilege mode, and memory seen through the Sv39 translation \<^verbatim>\<open>satp\<close>
  selects. The assembly files \<^verbatim>\<open>entry.S\<close>, \<^verbatim>\<open>swtch.S\<close>, \<^verbatim>\<open>trampoline.S\<close>
  and \<^verbatim>\<open>kernelvec.S\<close> are lists of instructions, the register accessors of
  \<^verbatim>\<open>riscv.h\<close> and \<^verbatim>\<open>start.c\<close> functions on the hart. Every assembly routine is
  a straight line; \<^verbatim>\<open>run\<close> gives \<^verbatim>\<open>None\<close> when an access faults.
\<close>

unbundle bit_operations_syntax

subsection \<open>Registers and modes\<close>

datatype (plugins only: code size) reg =
    ZERO | RA | SP | GP | TP | T0 | T1 | T2 | S0 | S1 | A0 | A1 | A2 | A3 | A4 | A5 | A6 | A7 | S2 | S3 | S4 | S5 | S6 | S7 | S8 | S9 | S10 | S11 | T3 | T4 | T5 | T6

datatype mcsr =
    Mhartid | Mstatus | Mepc | Medeleg | Mideleg | Mie | Mip | Menvcfg | Mcounteren
  | Pmpcfg0 | Pmpaddr0 | Sie | Sip | Sscratch | Sup csr

datatype mode = Machine | Supervisor | User

record hart =
  gpr :: "reg \<Rightarrow> u64"
  hcsr :: "mcsr \<Rightarrow> u64"
  priv :: mode
  pc :: u64
  hmem :: mem

definition set_reg :: "reg \<Rightarrow> u64 \<Rightarrow> hart \<Rightarrow> hart" where
  "set_reg r x h = (if r = ZERO then h else h\<lparr>gpr := (gpr h)(r := x)\<rparr>)"

text \<open>\<^verbatim>\<open>sstatus\<close> is the part of \<^verbatim>\<open>mstatus\<close> that supervisor mode sees, and \<^verbatim>\<open>sie\<close>
  and \<^verbatim>\<open>sip\<close> are the delegated interrupts of \<^verbatim>\<open>mie\<close> and \<^verbatim>\<open>mip\<close>.\<close>

definition SSTATUS_VIEW :: u64 where
  "SSTATUS_VIEW = 0x80000003000DE762"

definition merge :: "u64 \<Rightarrow> u64 \<Rightarrow> u64 \<Rightarrow> u64" where
  "merge view old x = (old AND NOT view) OR (x AND view)"

definition csr_read :: "mcsr \<Rightarrow> hart \<Rightarrow> u64" where
  "csr_read c h =
     (if c = Sup Sstatus then hcsr h Mstatus AND SSTATUS_VIEW
      else if c = Sie then hcsr h Mie AND hcsr h Mideleg
      else if c = Sip then hcsr h Mip AND hcsr h Mideleg
      else hcsr h c)"

definition csr_write :: "mcsr \<Rightarrow> u64 \<Rightarrow> hart \<Rightarrow> hart" where
  "csr_write c x h =
     (let f = hcsr h in
      h\<lparr>hcsr :=
        (if c = Sup Sstatus then f(Mstatus := merge SSTATUS_VIEW (f Mstatus) x)
         else if c = Sie then f(Mie := merge (f Mideleg) (f Mie) x)
         else if c = Sip then f(Mip := merge (f Mideleg) (f Mip) x)
         else f(c := x))\<rparr>)"

subsection \<open>Address translation\<close>

datatype access = Load | Store

text \<open>The hardware's walk of an Sv39 table from the given level: a valid entry with R or X
  set is a leaf, at any level, and its low page-number bits must then be 0; any other valid
  entry points to the next level. Accessed and dirty bits are left to the hardware.\<close>

fun sv39 :: "nat \<Rightarrow> mem \<Rightarrow> u64 \<Rightarrow> u64 \<Rightarrow> (u64 \<times> u64) option" where
  "sv39 l m p va =
     (let e = load64 m (p + 8 * PX l va); off = mask (12 + 9 * l) in
      if e AND PTE_V = 0 \<or> (e AND PTE_R = 0 \<and> e AND PTE_W \<noteq> 0) then None
      else if e AND (PTE_R OR PTE_X) \<noteq> 0 then
        if PTE2PA e AND off \<noteq> 0 then None else Some (e, PTE2PA e OR (va AND off))
      else case l of 0 \<Rightarrow> None | Suc k \<Rightarrow> sv39 k m (PTE2PA e) va)"

declare sv39.simps [simp del]

text \<open>The top four bits of \<^verbatim>\<open>satp\<close> are the mode (0 for no translation), its low 44 bits
  the root's page number. A virtual address must be sign-extended from its 39 bits.\<close>

definition satp_root :: "u64 \<Rightarrow> u64" where
  "satp_root x = push_bit 12 (x AND mask 44)"

definition permits :: "access \<Rightarrow> mode \<Rightarrow> u64 \<Rightarrow> bool" where
  "permits k md e \<longleftrightarrow>
     (case k of Load \<Rightarrow> e AND PTE_R \<noteq> 0 | Store \<Rightarrow> e AND PTE_W \<noteq> 0) \<and>
     (case md of User \<Rightarrow> e AND PTE_U \<noteq> 0 | _ \<Rightarrow> e AND PTE_U = 0)"

definition translate :: "access \<Rightarrow> hart \<Rightarrow> u64 \<Rightarrow> u64 option" where
  "translate k h va =
     (if priv h = Machine \<or> drop_bit 60 (hcsr h (Sup Satp)) = 0 then Some va
      else if signed_take_bit 38 va \<noteq> va then None
      else case sv39 2 (hmem h) (satp_root (hcsr h (Sup Satp))) va of
        None \<Rightarrow> None
      | Some (e, pa) \<Rightarrow> if permits k (priv h) e then Some pa else None)"

subsection \<open>Instructions\<close>

text \<open>The link address of a jump that links, the address of the instruction after it, is
  an operand; \<^verbatim>\<open>Retn\<close> is \<^verbatim>\<open>ret\<close>.\<close>

datatype instr =
    Sd reg int reg | Ld reg int reg | Li reg u64 | Addi reg reg int | Add reg reg reg | Mul reg reg reg
  | Csrw mcsr reg | Csrr reg mcsr | SfenceVma | Jalr reg u64 | Call u64 u64 | Retn | Sret

definition mem_addr :: "access \<Rightarrow> reg \<Rightarrow> int \<Rightarrow> hart \<Rightarrow> u64 option" where
  "mem_addr k b off h =
     (let a = gpr h b + of_int off in if a mod 8 = 0 then translate k h a else None)"

text \<open>\<^verbatim>\<open>sret\<close> and \<^verbatim>\<open>mret\<close> enter the mode the status register saved and restore its
  interrupt-enable bit.\<close>

definition sret :: "hart \<Rightarrow> hart" where
  "sret h =
     (let x = hcsr h Mstatus;
          y = x AND NOT 0x122 OR (if x AND 0x20 \<noteq> 0 then 2 else 0) OR 0x20
      in h\<lparr>hcsr := (hcsr h)(Mstatus := y), pc := hcsr h (Sup Sepc),
           priv := (if x AND 0x100 \<noteq> 0 then Supervisor else User)\<rparr>)"

definition mret :: "hart \<Rightarrow> hart" where
  "mret h =
     (let x = hcsr h Mstatus;
          y = x AND NOT 0x1888 OR (if x AND 0x80 \<noteq> 0 then 8 else 0) OR 0x80
      in h\<lparr>hcsr := (hcsr h)(Mstatus := y), pc := hcsr h Mepc,
           priv := (if x AND 0x1800 = 0x1800 then Machine
                    else if x AND 0x1800 = 0x800 then Supervisor else User)\<rparr>)"

fun exec :: "instr \<Rightarrow> hart \<Rightarrow> hart option" where
  "exec (Sd r off b) h =
     (case mem_addr Store b off h of None \<Rightarrow> None
      | Some pa \<Rightarrow> Some (h\<lparr>hmem := store64 (hmem h) pa (gpr h r)\<rparr>))"
| "exec (Ld r off b) h =
     (case mem_addr Load b off h of None \<Rightarrow> None
      | Some pa \<Rightarrow> Some (set_reg r (load64 (hmem h) pa) h))"
| "exec (Li r x) h = Some (set_reg r x h)"
| "exec (Addi r b x) h = Some (set_reg r (gpr h b + of_int x) h)"
| "exec (Add r b c) h = Some (set_reg r (gpr h b + gpr h c) h)"
| "exec (Mul r b c) h = Some (set_reg r (gpr h b * gpr h c) h)"
| "exec (Csrw c r) h = Some (csr_write c (gpr h r) h)"
| "exec (Csrr r c) h = Some (set_reg r (csr_read c h) h)"
| "exec SfenceVma h = Some h"
| "exec (Jalr r link) h = Some ((set_reg RA link h)\<lparr>pc := gpr h r\<rparr>)"
| "exec (Call target link) h = Some ((set_reg RA link h)\<lparr>pc := target\<rparr>)"
| "exec Retn h = Some (h\<lparr>pc := gpr h RA\<rparr>)"
| "exec Sret h = Some (sret h)"

fun run :: "instr list \<Rightarrow> hart \<Rightarrow> hart option" where
  "run [] h = Some h"
| "run (i # is) h = (case exec i h of None \<Rightarrow> None | Some h \<Rightarrow> run is h)"

subsection \<open>The assembly files\<close>

definition entry_code :: "u64 \<Rightarrow> u64 \<Rightarrow> u64 \<Rightarrow> instr list" where
  "entry_code stack0 start spin =
     [Li SP stack0, Li A0 4096, Csrr A1 Mhartid, Addi A1 A1 1, Mul A0 A0 A1, Add SP SP A0,
      Call start spin]"

definition swtch_code :: "instr list" where
  "swtch_code =
    [Sd RA 0 A0, Sd SP 8 A0, Sd S0 16 A0, Sd S1 24 A0, Sd S2 32 A0, Sd S3 40 A0, Sd S4 48 A0,
     Sd S5 56 A0, Sd S6 64 A0, Sd S7 72 A0, Sd S8 80 A0, Sd S9 88 A0, Sd S10 96 A0,
     Sd S11 104 A0, Ld RA 0 A1, Ld SP 8 A1, Ld S0 16 A1, Ld S1 24 A1, Ld S2 32 A1, Ld S3 40 A1,
     Ld S4 48 A1, Ld S5 56 A1, Ld S6 64 A1, Ld S7 72 A1, Ld S8 80 A1, Ld S9 88 A1,
     Ld S10 96 A1, Ld S11 104 A1, Retn]"

definition uservec_code :: "u64 \<Rightarrow> instr list" where
  "uservec_code userret =
    [Csrw Sscratch A0, Li A0 TRAPFRAME, Sd RA 40 A0, Sd SP 48 A0, Sd GP 56 A0, Sd TP 64 A0,
     Sd T0 72 A0, Sd T1 80 A0, Sd T2 88 A0, Sd S0 96 A0, Sd S1 104 A0, Sd A1 120 A0,
     Sd A2 128 A0, Sd A3 136 A0, Sd A4 144 A0, Sd A5 152 A0, Sd A6 160 A0, Sd A7 168 A0,
     Sd S2 176 A0, Sd S3 184 A0, Sd S4 192 A0, Sd S5 200 A0, Sd S6 208 A0, Sd S7 216 A0,
     Sd S8 224 A0, Sd S9 232 A0, Sd S10 240 A0, Sd S11 248 A0, Sd T3 256 A0, Sd T4 264 A0,
     Sd T5 272 A0, Sd T6 280 A0, Csrr T0 Sscratch, Sd T0 112 A0, Ld SP 8 A0, Ld TP 32 A0,
     Ld T0 16 A0, Ld T1 0 A0, SfenceVma, Csrw (Sup Satp) T1, SfenceVma, Jalr T0 userret]"

definition userret_code :: "instr list" where
  "userret_code =
    [SfenceVma, Csrw (Sup Satp) A0, SfenceVma, Li A0 TRAPFRAME, Ld RA 40 A0, Ld SP 48 A0,
     Ld GP 56 A0, Ld TP 64 A0, Ld T0 72 A0, Ld T1 80 A0, Ld T2 88 A0, Ld S0 96 A0,
     Ld S1 104 A0, Ld A1 120 A0, Ld A2 128 A0, Ld A3 136 A0, Ld A4 144 A0, Ld A5 152 A0,
     Ld A6 160 A0, Ld A7 168 A0, Ld S2 176 A0, Ld S3 184 A0, Ld S4 192 A0, Ld S5 200 A0,
     Ld S6 208 A0, Ld S7 216 A0, Ld S8 224 A0, Ld S9 232 A0, Ld S10 240 A0, Ld S11 248 A0,
     Ld T3 256 A0, Ld T4 264 A0, Ld T5 272 A0, Ld T6 280 A0, Ld A0 112 A0, Sret]"

text \<open>\<^verbatim>\<open>kernelvec\<close> up to its call of \<^verbatim>\<open>kerneltrap\<close>, and from there on.\<close>

definition kernelvec_code :: "u64 \<Rightarrow> u64 \<Rightarrow> instr list" where
  "kernelvec_code kerneltrap link =
    [Addi SP SP (- 256), Sd RA 0 SP, Sd GP 16 SP, Sd TP 24 SP, Sd T0 32 SP, Sd T1 40 SP,
     Sd T2 48 SP, Sd A0 72 SP, Sd A1 80 SP, Sd A2 88 SP, Sd A3 96 SP, Sd A4 104 SP,
     Sd A5 112 SP, Sd A6 120 SP, Sd A7 128 SP, Sd T3 216 SP, Sd T4 224 SP, Sd T5 232 SP,
     Sd T6 240 SP, Call kerneltrap link]"

definition kernelvec_return :: "instr list" where
  "kernelvec_return =
    [Ld RA 0 SP, Ld GP 16 SP, Ld T0 32 SP, Ld T1 40 SP, Ld T2 48 SP, Ld A0 72 SP, Ld A1 80 SP,
     Ld A2 88 SP, Ld A3 96 SP, Ld A4 104 SP, Ld A5 112 SP, Ld A6 120 SP, Ld A7 128 SP,
     Ld T3 216 SP, Ld T4 224 SP, Ld T5 232 SP, Ld T6 240 SP, Addi SP SP 256, Sret]"

text \<open>The layout of \<^verbatim>\<open>struct trapframe\<close> and \<^verbatim>\<open>struct context\<close> of \<^verbatim>\<open>proc.h\<close>.\<close>

fun tf_off :: "tfreg \<Rightarrow> nat" where
  "tf_off kernel_satp = 0"
| "tf_off kernel_sp = 8"
| "tf_off kernel_trap = 16"
| "tf_off epc = 24"
| "tf_off kernel_hartid = 32"
| "tf_off T_ra = 40"
| "tf_off T_sp = 48"
| "tf_off T_gp = 56"
| "tf_off T_tp = 64"
| "tf_off T_t0 = 72"
| "tf_off T_t1 = 80"
| "tf_off T_t2 = 88"
| "tf_off T_s0 = 96"
| "tf_off T_s1 = 104"
| "tf_off T_a0 = 112"
| "tf_off T_a1 = 120"
| "tf_off T_a2 = 128"
| "tf_off T_a3 = 136"
| "tf_off T_a4 = 144"
| "tf_off T_a5 = 152"
| "tf_off T_a6 = 160"
| "tf_off T_a7 = 168"
| "tf_off T_s2 = 176"
| "tf_off T_s3 = 184"
| "tf_off T_s4 = 192"
| "tf_off T_s5 = 200"
| "tf_off T_s6 = 208"
| "tf_off T_s7 = 216"
| "tf_off T_s8 = 224"
| "tf_off T_s9 = 232"
| "tf_off T_s10 = 240"
| "tf_off T_s11 = 248"
| "tf_off T_t3 = 256"
| "tf_off T_t4 = 264"
| "tf_off T_t5 = 272"
| "tf_off T_t6 = 280"

fun ctx_off :: "ctxreg \<Rightarrow> nat" where
  "ctx_off C_ra = 0"
| "ctx_off C_sp = 8"
| "ctx_off C_s0 = 16"
| "ctx_off C_s1 = 24"
| "ctx_off C_s2 = 32"
| "ctx_off C_s3 = 40"
| "ctx_off C_s4 = 48"
| "ctx_off C_s5 = 56"
| "ctx_off C_s6 = 64"
| "ctx_off C_s7 = 72"
| "ctx_off C_s8 = 80"
| "ctx_off C_s9 = 88"
| "ctx_off C_s10 = 96"
| "ctx_off C_s11 = 104"

definition trapframe_at :: "mem \<Rightarrow> u64 \<Rightarrow> trapframe" where
  "trapframe_at m a = (\<lambda>f. load64 m (a + of_nat (tf_off f)))"

definition context_at :: "mem \<Rightarrow> u64 \<Rightarrow> kcontext" where
  "context_at m a = (\<lambda>f. load64 m (a + of_nat (ctx_off f)))"

end
