(* ===== verification/Hart_Regs.thy ===== *)
theory Hart_Regs
  imports Hart
begin

text \<open>
  Saving and restoring registers: what runs of \<^verbatim>\<open>sd\<close> and \<^verbatim>\<open>ld\<close> instructions do
  to memory and registers under a fixed translation, and with that the contracts of the
  context switch, of the trampoline and of the kernel's own trap vector.
\<close>

unbundle bit_operations_syntax

subsection \<open>Translation that stores do not disturb\<close>

text \<open>The \<^verbatim>\<open>n\<close> bytes from \<^verbatim>\<open>va\<close> on are readable and writable, at \<^verbatim>\<open>pa\<close>, whatever
  the memory in \<^verbatim>\<open>R\<close> holds.\<close>

definition span :: "u64 \<Rightarrow> nat \<Rightarrow> u64 set" where
  "span a n = {x. unat (x - a) < n}"

definition maps :: "hart \<Rightarrow> u64 set \<Rightarrow> u64 \<Rightarrow> u64 \<Rightarrow> nat \<Rightarrow> bool" where
  "maps h R va pa n \<longleftrightarrow> 8 dvd unat va \<and> n \<le> 4096 \<and>
     (\<forall>m k i. (\<forall>x. x \<notin> R \<longrightarrow> m x = hmem h x) \<longrightarrow> i < n \<longrightarrow>
        translate k (h\<lparr>hmem := m\<rparr>) (va + of_nat i) = Some (pa + of_nat i))"

lemma translate_frame [simp]:
  "translate k (h\<lparr>gpr := g\<rparr>) va = translate k h va"
  "translate k (h\<lparr>pc := p\<rparr>) va = translate k h va"
  "translate k (set_reg r x h) va = translate k h va"
  by (simp_all add: translate_def set_reg_def split: option.split)

lemma set_reg_simps [simp]:
  "hmem (set_reg r x h) = hmem h" "hcsr (set_reg r x h) = hcsr h" "priv (set_reg r x h) = priv h"
  "pc (set_reg r x h) = pc h" "gpr (set_reg r x h) = (if r = ZERO then gpr h else (gpr h)(r := x))"
  by (simp_all add: set_reg_def)

lemma maps_cong:
  assumes "maps h R va pa n" "\<And>k m a. translate k (h'\<lparr>hmem := m\<rparr>) a = translate k (h\<lparr>hmem := m\<rparr>) a"
    "\<And>x. x \<notin> R \<Longrightarrow> hmem h' x = hmem h x"
  shows "maps h' R va pa n"
  using assms unfolding maps_def by auto

lemma translate_hmem [simp]:
  "translate k (h\<lparr>gpr := g, hmem := m\<rparr>) va = translate k (h\<lparr>hmem := m\<rparr>) va"
  "translate k (h\<lparr>pc := p, hmem := m\<rparr>) va = translate k (h\<lparr>hmem := m\<rparr>) va"
  by (simp_all add: translate_def split: option.split)

lemma maps_gpr [simp]: "maps (h\<lparr>gpr := g\<rparr>) R va pa n = maps h R va pa n"
  by (simp add: maps_def)

lemma maps_set_reg [simp]: "maps (set_reg r x h) R va pa n = maps h R va pa n"
  by (simp add: set_reg_def)

lemma maps_mem: "maps h R va pa n \<Longrightarrow> (\<And>x. x \<notin> R \<Longrightarrow> m x = hmem h x) \<Longrightarrow> maps (h\<lparr>hmem := m\<rparr>) R va pa n"
  by (rule maps_cong) auto

lemma maps_addr:
  assumes "maps h R va pa n" "o8 mod 8 = 0" "o8 + 8 \<le> n" "gpr h b = va"
  shows "mem_addr k b (int o8) h = Some (pa + of_nat o8)"
proof -
  have n: "o8 < 4096" "8 dvd unat va" using assms by (auto simp: maps_def)
  have "(va + of_nat o8) mod 8 = 0"
  proof -
    have "unat (of_nat o8 :: u64) = o8" using n(1) by (simp add: unat_of_nat take_bit_nat_eq_self)
    then have "unat (va + of_nat o8) = (unat va + o8) mod 2 ^ 64" by (simp add: unat_word_ariths(1))
    then have "unat (va + of_nat o8) mod 8 = (unat va + o8) mod 8" by (simp add: mod_mod_cancel)
    also have "\<dots> = 0" using assms(2) n(2) by auto
    finally show ?thesis by (simp add: word_unat_eq_iff unat_mod)
  qed
  moreover have "translate k h (va + of_nat o8) = Some (pa + of_nat o8)"
  proof -
    have "translate k (h\<lparr>hmem := hmem h\<rparr>) (va + of_nat o8) = Some (pa + of_nat o8)"
      using assms(1,3) unfolding maps_def by auto
    then show ?thesis by simp
  qed
  ultimately show ?thesis using assms(4) by (simp add: mem_addr_def Let_def)
qed

subsection \<open>Runs of stores and loads\<close>

definition stores :: "(reg \<times> nat) list \<Rightarrow> u64 \<Rightarrow> (reg \<Rightarrow> u64) \<Rightarrow> mem \<Rightarrow> mem" where
  "stores xs a g m = foldl (\<lambda>m (r, k). store64 m (a + of_nat k) (g r)) m xs"

definition loads :: "(reg \<times> nat) list \<Rightarrow> u64 \<Rightarrow> mem \<Rightarrow> (reg \<Rightarrow> u64) \<Rightarrow> reg \<Rightarrow> u64" where
  "loads xs a m g = foldl (\<lambda>g (r, k). g(r := load64 m (a + of_nat k))) g xs"

definition slots :: "(reg \<times> nat) list \<Rightarrow> nat \<Rightarrow> bool" where
  "slots xs n \<longleftrightarrow> distinct (map fst xs) \<and> distinct (map snd xs) \<and> ZERO \<notin> fst ` set xs \<and>
     (\<forall>(r, k) \<in> set xs. k mod 8 = 0 \<and> k + 8 \<le> n)"

lemma unat_off: "k + i < 2 ^ 63 \<Longrightarrow> unat ((x :: u64) - (a + of_nat k)) < i \<Longrightarrow> unat (x - a) = unat (x - (a + of_nat k)) + k"
proof -
  assume a: "k + i < 2 ^ 63" "unat (x - (a + of_nat k)) < i"
  have "x - a = (x - (a + of_nat k)) + of_nat k" by simp
  moreover have "unat (of_nat k :: u64) = k" using a by (simp add: unat_of_nat take_bit_nat_eq_self)
  ultimately show ?thesis using a by (simp only:) (subst unat_add_lem [THEN iffD1]; simp)
qed

lemma store64_span: "k + 8 \<le> n \<Longrightarrow> n \<le> 4096 \<Longrightarrow> x \<notin> span a n \<Longrightarrow> store64 m (a + of_nat k) v x = m x"
  using unat_off [of k 8 x a] by (auto simp: store64_def span_def)

lemma load64_store64_slot:
  assumes "j mod 8 = 0" "k mod 8 = 0" "j \<noteq> k" "j < 4096" "k < 4096"
  shows "load64 (store64 m (a + of_nat k) v) (a + of_nat j) = load64 m (a + of_nat j)"
proof (rule load64_cong)
  fix x assume x: "unat (x - (a + of_nat j)) < 8"
  have "\<not> unat (x - (a + of_nat k)) < 8"
  proof
    assume y: "unat (x - (a + of_nat k)) < 8"
    have "unat (x - a) div 8 = j div 8" "unat (x - a) div 8 = k div 8"
      using unat_off [OF _ x] unat_off [OF _ y] x y assms by auto
    then show False using assms by (metis mod_0_imp_dvd dvd_div_mult_self)
  qed
  then show "store64 m (a + of_nat k) v x = m x" by (simp add: store64_def)
qed

lemma stores_outside: "(\<forall>(r, k) \<in> set xs. k + 8 \<le> n) \<Longrightarrow> n \<le> 4096 \<Longrightarrow> x \<notin> span a n \<Longrightarrow> stores xs a g m x = m x"
  by (induction xs arbitrary: m) (auto simp: stores_def store64_span)

lemma load_stores_other:
  assumes "\<forall>(r, k) \<in> set xs. k mod 8 = 0 \<and> k < 4096" "j mod 8 = 0" "j < 4096" "j \<notin> snd ` set xs"
  shows "load64 (stores xs a g m) (a + of_nat j) = load64 m (a + of_nat j)"
  using assms
proof (induction xs arbitrary: m)
  case Nil
  then show ?case by (simp add: stores_def)
next
  case (Cons x xs)
  obtain r k where x: "x = (r, k)" by (cases x)
  show ?case
    using Cons.IH [of "store64 m (a + of_nat k) (g r)"] Cons.prems load64_store64_slot [of j k m a "g r"]
    by (auto simp: stores_def x)
qed

lemma load_stores:
  assumes "slots xs n" "n \<le> 4096" "(r, k) \<in> set xs"
  shows "load64 (stores xs a g m) (a + of_nat k) = g r"
proof -
  obtain ys zs where s: "xs = ys @ (r, k) # zs" using assms(3) by (auto simp: in_set_conv_decomp)
  have "\<forall>(r, k) \<in> set zs. k mod 8 = 0 \<and> k + 8 \<le> n" "k \<notin> snd ` set zs" "k mod 8 = 0" "k < 4096"
    using assms(1,2) by (auto simp: s slots_def)
  moreover from this(1) have "\<forall>(r, k) \<in> set zs. k mod 8 = 0 \<and> k < 4096" using assms(2) by fastforce
  ultimately have "load64 (stores zs a g m') (a + of_nat k) = load64 m' (a + of_nat k)" for m'
    by (intro load_stores_other)
  then show ?thesis by (simp add: s stores_def)
qed

lemma run_saves:
  assumes "maps h R va pa n" "gpr h b = va" "span pa n \<subseteq> R" "\<forall>(r, k) \<in> set xs. k mod 8 = 0 \<and> k + 8 \<le> n"
  shows "run (map (\<lambda>(r, k). Sd r (int k) b) xs @ is) h = run is (h\<lparr>hmem := stores xs pa (gpr h) (hmem h)\<rparr>)"
  using assms
proof (induction xs arbitrary: h)
  case Nil
  then show ?case by (simp add: stores_def)
next
  case (Cons x xs)
  obtain r k where x: "x = (r, k)" by (cases x)
  have n: "n \<le> 4096" using Cons.prems(1) by (simp add: maps_def)
  have k: "k mod 8 = 0" "k + 8 \<le> n" using Cons.prems(4) by (auto simp: x)
  let ?h = "h\<lparr>hmem := store64 (hmem h) (pa + of_nat k) (gpr h r)\<rparr>"
  have "maps ?h R va pa n"
    using Cons.prems(1) by (rule maps_mem) (use store64_span [OF k(2) n] Cons.prems(3) in blast)
  then have "run (map (\<lambda>(r, k). Sd r (int k) b) xs @ is) ?h = run is (?h\<lparr>hmem := stores xs pa (gpr ?h) (hmem ?h)\<rparr>)"
    using Cons.prems by (intro Cons.IH) auto
  then show ?case
    using maps_addr [OF Cons.prems(1) k Cons.prems(2)] by (simp add: x stores_def)
qed

lemma run_loads:
  assumes "maps h R va pa n" "gpr h b = va" "\<forall>(r, k) \<in> set xs. k mod 8 = 0 \<and> k + 8 \<le> n" "b \<notin> fst ` set xs" "ZERO \<notin> fst ` set xs"
  shows "run (map (\<lambda>(r, k). Ld r (int k) b) xs @ is) h = run is (h\<lparr>gpr := loads xs pa (hmem h) (gpr h)\<rparr>)"
  using assms
proof (induction xs arbitrary: h)
  case Nil
  then show ?case by (simp add: loads_def)
next
  case (Cons x xs)
  obtain r k where x: "x = (r, k)" by (cases x)
  have k: "k mod 8 = 0" "k + 8 \<le> n" "r \<noteq> b" "r \<noteq> ZERO" using Cons.prems by (auto simp: x)
  let ?h = "h\<lparr>gpr := (gpr h)(r := load64 (hmem h) (pa + of_nat k))\<rparr>"
  have "run (map (\<lambda>(r, k). Ld r (int k) b) xs @ is) ?h = run is (?h\<lparr>gpr := loads xs pa (hmem ?h) (gpr ?h)\<rparr>)"
    using Cons.prems k by (intro Cons.IH) auto
  then show ?case
    using maps_addr [OF Cons.prems(1) k(1,2) Cons.prems(2)] k by (simp add: x loads_def set_reg_def)
qed

lemma loads_other: "r \<notin> fst ` set xs \<Longrightarrow> loads xs a m g r = g r"
  by (induction xs arbitrary: g) (auto simp: loads_def)

lemma loads_at:
  assumes "distinct (map fst xs)" "(r, k) \<in> set xs"
  shows "loads xs a m g r = load64 m (a + of_nat k)"
proof -
  obtain ys zs where s: "xs = ys @ (r, k) # zs" using assms(2) by (auto simp: in_set_conv_decomp)
  then have "r \<notin> fst ` set zs" using assms(1) by auto
  from loads_other [OF this] show ?thesis by (simp add: s loads_def)
qed

subsection \<open>The register lists of the assembly files\<close>

definition ctx_regs :: "(reg \<times> nat) list" where
  "ctx_regs = [(RA, 0), (SP, 8), (S0, 16), (S1, 24), (S2, 32), (S3, 40), (S4, 48), (S5, 56), (S6, 64),
     (S7, 72), (S8, 80), (S9, 88), (S10, 96), (S11, 104)]"

definition user_regs :: "(reg \<times> nat) list" where
  "user_regs = [(RA, 40), (SP, 48), (GP, 56), (TP, 64), (T0, 72), (T1, 80), (T2, 88), (S0, 96), (S1, 104),
     (A1, 120), (A2, 128), (A3, 136), (A4, 144), (A5, 152), (A6, 160), (A7, 168), (S2, 176),
     (S3, 184), (S4, 192), (S5, 200), (S6, 208), (S7, 216), (S8, 224), (S9, 232), (S10, 240),
     (S11, 248), (T3, 256), (T4, 264), (T5, 272), (T6, 280)]"

definition trap_regs :: "(reg \<times> nat) list" where
  "trap_regs = [(RA, 0), (GP, 16), (TP, 24), (T0, 32), (T1, 40), (T2, 48), (A0, 72), (A1, 80), (A2, 88),
     (A3, 96), (A4, 104), (A5, 112), (A6, 120), (A7, 128), (T3, 216), (T4, 224), (T5, 232),
     (T6, 240)]"

text \<open>The register each field of the two structs holds.\<close>

fun ctx_reg :: "ctxreg \<Rightarrow> reg" where
  "ctx_reg C_ra = RA"
| "ctx_reg C_sp = SP"
| "ctx_reg C_s0 = S0"
| "ctx_reg C_s1 = S1"
| "ctx_reg C_s2 = S2"
| "ctx_reg C_s3 = S3"
| "ctx_reg C_s4 = S4"
| "ctx_reg C_s5 = S5"
| "ctx_reg C_s6 = S6"
| "ctx_reg C_s7 = S7"
| "ctx_reg C_s8 = S8"
| "ctx_reg C_s9 = S9"
| "ctx_reg C_s10 = S10"
| "ctx_reg C_s11 = S11"

fun user_reg :: "tfreg \<Rightarrow> reg option" where
  "user_reg T_ra = Some RA"
| "user_reg T_sp = Some SP"
| "user_reg T_gp = Some GP"
| "user_reg T_tp = Some TP"
| "user_reg T_t0 = Some T0"
| "user_reg T_t1 = Some T1"
| "user_reg T_t2 = Some T2"
| "user_reg T_s0 = Some S0"
| "user_reg T_s1 = Some S1"
| "user_reg T_a0 = Some A0"
| "user_reg T_a1 = Some A1"
| "user_reg T_a2 = Some A2"
| "user_reg T_a3 = Some A3"
| "user_reg T_a4 = Some A4"
| "user_reg T_a5 = Some A5"
| "user_reg T_a6 = Some A6"
| "user_reg T_a7 = Some A7"
| "user_reg T_s2 = Some S2"
| "user_reg T_s3 = Some S3"
| "user_reg T_s4 = Some S4"
| "user_reg T_s5 = Some S5"
| "user_reg T_s6 = Some S6"
| "user_reg T_s7 = Some S7"
| "user_reg T_s8 = Some S8"
| "user_reg T_s9 = Some S9"
| "user_reg T_s10 = Some S10"
| "user_reg T_s11 = Some S11"
| "user_reg T_t3 = Some T3"
| "user_reg T_t4 = Some T4"
| "user_reg T_t5 = Some T5"
| "user_reg T_t6 = Some T6"
| "user_reg _ = None"

lemma swtch_code_eq:
  "swtch_code = map (\<lambda>(r, k). Sd r (int k) A0) ctx_regs @ map (\<lambda>(r, k). Ld r (int k) A1) ctx_regs @ [Retn]"
  by (simp add: swtch_code_def ctx_regs_def)

lemma uservec_code_eq:
  "uservec_code ret = [Csrw Sscratch A0, Li A0 TRAPFRAME] @ map (\<lambda>(r, k). Sd r (int k) A0) user_regs @
     [Csrr T0 Sscratch] @ map (\<lambda>(r, k). Sd r (int k) A0) [(T0, 112)] @
     map (\<lambda>(r, k). Ld r (int k) A0) [(SP, 8), (TP, 32), (T0, 16), (T1, 0)] @
     [SfenceVma, Csrw (Sup Satp) T1, SfenceVma, Jalr T0 ret]"
  by (simp add: uservec_code_def user_regs_def)

lemma userret_code_eq:
  "userret_code = [SfenceVma, Csrw (Sup Satp) A0, SfenceVma, Li A0 TRAPFRAME] @
     map (\<lambda>(r, k). Ld r (int k) A0) user_regs @ [Ld A0 (int 112) A0, Sret]"
  by (simp add: userret_code_def user_regs_def)

lemma kernelvec_code_eq:
  "kernelvec_code target back = Addi SP SP (- 256) # map (\<lambda>(r, k). Sd r (int k) SP) trap_regs @ [Call target back]"
  "kernelvec_return = map (\<lambda>(r, k). Ld r (int k) SP) [x\<leftarrow>trap_regs. fst x \<noteq> TP] @ [Addi SP SP 256, Sret]"
  by (simp_all add: kernelvec_code_def kernelvec_return_def trap_regs_def)

lemma reg_slots: "slots ctx_regs 112" "slots user_regs 4096" "slots trap_regs 256"
  by (simp_all add: slots_def ctx_regs_def user_regs_def trap_regs_def)

lemma ctx_reg_slot: "(ctx_reg f, ctx_off f) \<in> set ctx_regs"
  by (cases f) (simp_all add: ctx_regs_def)

lemma ctx_regs_reg: "r \<in> fst ` set ctx_regs \<longleftrightarrow> r \<in> range ctx_reg"
proof
  assume "r \<in> fst ` set ctx_regs"
  then show "r \<in> range ctx_reg" by (auto simp: ctx_regs_def) (metis ctx_reg.simps rangeI)+
next
  assume "r \<in> range ctx_reg"
  then show "r \<in> fst ` set ctx_regs" using ctx_reg_slot by force
qed

lemma user_reg_slot: "user_reg f = Some r \<Longrightarrow> r \<noteq> A0 \<Longrightarrow> (r, tf_off f) \<in> set user_regs"
  by (cases f) (auto simp: user_regs_def)

lemma user_reg_A0: "user_reg f = Some A0 \<Longrightarrow> tf_off f = 112"
  by (cases f) auto

lemma user_reg_None: "user_reg f = None \<Longrightarrow> tf_off f \<notin> snd ` set user_regs \<and> tf_off f \<noteq> 112 \<and> tf_off f mod 8 = 0 \<and> tf_off f < 40"
  by (cases f) (auto simp: user_regs_def)

lemma user_reg_ex: "r \<noteq> ZERO \<Longrightarrow> \<exists>f. user_reg f = Some r"
  by (cases r) (metis user_reg.simps)+

subsection \<open>Context switch\<close>

lemma slots_run: "slots xs n \<Longrightarrow> \<forall>(r, k) \<in> set xs. k mod 8 = 0 \<and> k + 8 \<le> n"
  "slots xs n \<Longrightarrow> distinct (map fst xs)" "slots xs n \<Longrightarrow> ZERO \<notin> fst ` set xs"
  by (auto simp: slots_def)

lemma load64_span:
  assumes "\<And>x. x \<in> span a n \<Longrightarrow> m x = m' x" "k + 8 \<le> n" "n \<le> 4096"
  shows "load64 m (a + of_nat k) = load64 m' (a + of_nat k)"
proof (rule load64_cong)
  fix x assume "unat (x - (a + of_nat k)) < 8"
  then have "x \<in> span a n" using unat_off [of k 8 x a] assms(2,3) by (simp add: span_def)
  then show "m x = m' x" by (rule assms(1))
qed

lemma swtch_run:
  assumes "maps h (span pa 112) (gpr h A0) pa 112" "maps h (span pa 112) (gpr h A1) pb 112"
    and "span pa 112 \<inter> span pb 112 = {}"
  obtains t where "run swtch_code h = Some t" "pc t = context_at (hmem h) pb C_ra"
    "\<And>f. gpr t (ctx_reg f) = context_at (hmem h) pb f" "\<And>r. r \<notin> range ctx_reg \<Longrightarrow> gpr t r = gpr h r"
    "\<And>f. context_at (hmem t) pa f = gpr h (ctx_reg f)" "\<And>x. x \<notin> span pa 112 \<Longrightarrow> hmem t x = hmem h x"
    "hcsr t = hcsr h" "priv t = priv h"
proof -
  define m where "m = stores ctx_regs pa (gpr h) (hmem h)"
  define g where "g = loads ctx_regs pb m (gpr h)"
  note sl = slots_run(1) [OF reg_slots(1)]
  have out: "m x = hmem h x" if "x \<notin> span pa 112" for x
    unfolding m_def by (rule stores_outside [OF _ _ that]) (use sl in auto)
  have "maps (h\<lparr>hmem := m\<rparr>) (span pa 112) (gpr h A1) pb 112" using assms(2) out by (rule maps_mem)
  moreover have "A1 \<notin> fst ` set ctx_regs" by (simp add: ctx_regs_def)
  ultimately have r: "run swtch_code h = Some (h\<lparr>hmem := m, gpr := g, pc := g RA\<rparr>)"
    unfolding swtch_code_eq run_saves [OF assms(1) refl order_refl sl] m_def [symmetric]
    using run_loads [of "h\<lparr>hmem := m\<rparr>" "span pa 112" "gpr h A1" pb 112 A1 ctx_regs "[Retn]"] sl slots_run(3) [OF reg_slots(1)]
    by (simp add: g_def)
  have ld: "load64 m (pb + of_nat (ctx_off f)) = context_at (hmem h) pb f" for f
  proof -
    have "ctx_off f + 8 \<le> 112" using sl ctx_reg_slot [of f] by auto
    then show ?thesis unfolding context_at_def by (intro load64_span) (use out assms(3) in auto)
  qed
  have g: "g (ctx_reg f) = context_at (hmem h) pb f" for f
    unfolding g_def by (simp add: loads_at [OF slots_run(2) [OF reg_slots(1)] ctx_reg_slot] ld)
  have "context_at m pa f = gpr h (ctx_reg f)" for f
    unfolding context_at_def m_def by (rule load_stores [OF reg_slots(1) _ ctx_reg_slot]) simp
  moreover have "g r = gpr h r" if "r \<notin> range ctx_reg" for r
    unfolding g_def by (rule loads_other) (simp add: ctx_regs_reg that)
  ultimately show ?thesis
    using that [OF r] g out g [of C_ra] by simp
qed

subsection \<open>The trampoline\<close>

lemma PTE2PA_off: "PTE2PA e AND mask 12 = 0" "PTE2PA e OR (va AND mask 12) = PTE2PA e + (va - PGROUNDDOWN va)"
proof -
  show z: "PTE2PA e AND mask 12 = 0"
    by (rule bit_word_eqI) (auto simp: PTE2PA_def bit_simps)
  have "PTE2PA e AND (va AND mask 12) = (PTE2PA e AND mask 12) AND va" by (simp only: ac_simps)
  then have "PTE2PA e OR (va AND mask 12) = PTE2PA e + (va AND mask 12)"
    by (simp add: z disjunctive_add_eq_or)
  moreover have "va AND mask 12 = va - PGROUNDDOWN va"
    by (simp only: word_unat_eq_iff PGROUNDDOWN_off) (simp add: take_bit_eq_mask [symmetric] take_bit_eq_mod unat_mod)
  ultimately show "PTE2PA e OR (va AND mask 12) = PTE2PA e + (va - PGROUNDDOWN va)" by simp
qed

lemma sv39_leaf:
  "sv39 0 m p va = (let e = ent m p (px 0 va) in
     if \<not> pv e \<or> (e AND PTE_R = 0 \<and> e AND PTE_W \<noteq> 0) \<or> e AND (PTE_R OR PTE_X) = 0 then None
     else Some (e, PTE2PA e + (va - PGROUNDDOWN va)))"
  by (subst sv39.simps) (simp add: Let_def ent_def PX_px pv_def PTE2PA_off)

lemma inner_bits: "(e :: u64) AND (PTE_R OR PTE_W OR PTE_X) = 0 \<Longrightarrow> e AND PTE_R = 0 \<and> e AND PTE_W = 0 \<and> e AND (PTE_R OR PTE_X) = 0"
proof -
  assume a: "e AND (PTE_R OR PTE_W OR PTE_X) = 0"
  have "(e AND (PTE_R OR PTE_W OR PTE_X)) AND f = e AND f" if "(PTE_R OR PTE_W OR PTE_X) AND f = f" for f
    by (simp only: and.assoc that)
  from this [of PTE_R] this [of PTE_W] this [of "PTE_R OR PTE_X"] show ?thesis using a by simp
qed

lemma sv39_inner:
  assumes "e = ent m p (px (Suc l) va)" "pv e \<Longrightarrow> e AND (PTE_R OR PTE_W OR PTE_X) = 0"
  shows "sv39 (Suc l) m p va = (if pv e then sv39 l m (PTE2PA e) va else None)"
  using assms inner_bits [of e]
  by (subst sv39.simps) (auto simp: Let_def ent_def PX_px pv_def)

text \<open>On such a table the hardware finds the entry the kernel's own walk finds.\<close>

lemma sv39_pt_get:
  assumes "inner_ok m r"
  shows "sv39 2 m r va = (let e = pt_get m r va in
     if \<not> pv e \<or> (e AND PTE_R = 0 \<and> e AND PTE_W \<noteq> 0) \<or> e AND (PTE_R OR PTE_X) = 0 then None
     else Some (e, uaddr m r va))"
proof -
  define e where "e = ent m r (px 2 va)"
  define e' where "e' = ent m (PTE2PA e) (px 1 va)"
  have i: "length ps \<le> 1 \<Longrightarrow> vpath ps \<Longrightarrow> node m r ps = Some q \<Longrightarrow> i < 512 \<Longrightarrow> pv (ent m q i) \<Longrightarrow>
      ent m q i AND (PTE_R OR PTE_W OR PTE_X) = 0" for ps q i
    using assms unfolding inner_ok_def by blast
  have 1: "sv39 2 m r va = (if pv e then sv39 1 m (PTE2PA e) va else None)"
    unfolding numeral_2_eq_2 One_nat_def
    by (rule sv39_inner) (use i [of "[]" r "px 2 va"] in \<open>simp_all add: e_def vpath_def numeral_2_eq_2\<close>)
  have 2: "sv39 1 m (PTE2PA e) va = (if pv e' then sv39 0 m (PTE2PA e') va else None)" if "pv e"
    unfolding One_nat_def
    by (rule sv39_inner) (use i [of "[px 2 va]" "PTE2PA e" "px 1 va"] that in \<open>simp_all add: e_def e'_def vpath_def\<close>)
  note 2 = 2 [unfolded e'_def One_nat_def]
  show ?thesis
    by (simp add: 1 2 sv39_leaf pt_get_def lpath_def e_def [symmetric] uaddr_def Let_def)
qed

definition user_space :: "mem \<Rightarrow> u64 \<Rightarrow> u64 \<Rightarrow> bool" where
  "user_space m r tf \<longleftrightarrow> pt_ok m r \<and> inner_ok m r \<and> aligned r \<and> unat r < 2 ^ 56 \<and> aligned tf \<and> unat tf < 2 ^ 54 \<and>
     tf \<notin> tpages m r \<and> pt_get m r TRAPFRAME = PA2PTE tf OR 7"

lemma MAKE_SATP_root:
  assumes "aligned r" "unat r < 2 ^ 56"
  shows "satp_root (MAKE_SATP r) = r" "drop_bit 60 (MAKE_SATP r) \<noteq> 0"
proof -
  have b: "bit r n \<Longrightarrow> 12 \<le> n \<and> n < 56" for n using assms bit_aligned bit_below by blast
  have e: "bit (8 :: u64) n \<longleftrightarrow> n = 3" for n using bit_exp_iff [of 3 n, where 'a = "64 word"] by auto
  have m: "bit (MAKE_SATP r) n \<longleftrightarrow> n = 63 \<or> bit r (n + 12)" if "n < 64" for n
    using that by (simp only: MAKE_SATP_def bit_or_iff bit_push_bit_iff bit_drop_bit_eq comp_def e) (auto simp: add.commute)
  show "satp_root (MAKE_SATP r) = r"
  proof (rule bit_word_eqI)
    fix n assume n: "n < LENGTH(64)"
    have "bit (satp_root (MAKE_SATP r)) n \<longleftrightarrow> 12 \<le> n \<and> n - 12 < 44 \<and> bit (MAKE_SATP r) (n - 12)"
      using n by (auto simp: satp_root_def bit_push_bit_iff bit_and_iff bit_mask_iff)
    then show "bit (satp_root (MAKE_SATP r)) n \<longleftrightarrow> bit r n" using m [of "n - 12"] b [of n] n by auto
  qed
  have "bit (drop_bit 60 (MAKE_SATP r)) 3" using m [of 63] by (simp add: bit_drop_bit_eq)
  then show "drop_bit 60 (MAKE_SATP r) \<noteq> 0" by auto
qed

lemma low_sign: "va < MAXVA \<Longrightarrow> signed_take_bit 38 va = va"
proof (rule bit_word_eqI)
  fix n assume "va < MAXVA" and n: "n < LENGTH(64)"
  then have "unat va < 2 ^ 38" by (simp add: word_less_nat_alt)
  from bit_below [OF this] have "bit va n \<Longrightarrow> n < 38" "\<not> bit va 38" by blast+
  then show "bit (signed_take_bit 38 va) n \<longleftrightarrow> bit va n"
    using n by (auto simp: bit_signed_take_bit_iff min_def dest: bit_below [OF \<open>unat va < 2 ^ 38\<close>])
qed

lemma inner_frame:
  assumes ok: "pt_ok m r" and same: "\<And>q a. q \<in> tpages m r \<Longrightarrow> in_page q a \<Longrightarrow> m' a = m a" and i: "inner_ok m r"
  shows "inner_ok m' r"
  unfolding inner_ok_def
proof (intro allI impI)
  fix ps q k assume a: "length ps \<le> 1" "vpath ps" "node m' r ps = Some q" "k < 512" "pv (ent m' q k)"
  have n: "node m' r ps = node m r ps" if "vpath ps" for ps using ok _ that by (rule node_frame) (rule same)
  have "q \<in> tpages m r" using a(2,3) n [OF a(2)] by (auto simp: tpages_def)
  then have "ent m' q k = ent m q k" using a(4) by (intro ent_frame) (rule same)
  then show "ent m' q k AND (PTE_R OR PTE_W OR PTE_X) = 0"
    using i a n [OF a(2)] unfolding inner_ok_def by (metis (no_types))
qed

lemma user_space_frame:
  assumes "user_space m r tf" "\<And>x. x \<notin> span tf 4096 \<Longrightarrow> m' x = m x"
  shows "user_space m' r tf"
proof -
  have u: "pt_ok m r" "inner_ok m r" "aligned tf" "tf \<notin> tpages m r" using assms(1) by (auto simp: user_space_def)
  have same: "m' a = m a" if "q \<in> tpages m r" "in_page q a" for q a
  proof -
    have "aligned q" using that(1) u(1) by (simp add: pt_ok_def)
    then have "\<not> in_page tf a" using in_page_disjoint [OF u(3) _ _ that(2)] u(4) that(1) by auto
    then show ?thesis by (intro assms(2)) (simp add: span_def in_page_def)
  qed
  have "pt_ok m' r" by (rule pt_frame(1) [OF u(1)]) (rule same)
  moreover have "tpages m' r = tpages m r" by (rule pt_frame(2) [OF u(1)]) (rule same)
  moreover have "pt_get m' r wa = pt_get m r wa" for wa by (rule pt_frame(3) [OF u(1)]) (rule same)
  moreover have "inner_ok m' r" using u(1) _ u(2) by (rule inner_frame) (rule same)
  ultimately show ?thesis using assms(1) by (auto simp: user_space_def)
qed

lemma trapframe_maps:
  assumes h: "priv h = Supervisor" "hcsr h (Sup Satp) = MAKE_SATP r" and u: "user_space (hmem h) r tf"
  shows "maps h (span tf 4096) TRAPFRAME tf 4096"
  unfolding maps_def
proof (intro conjI allI impI)
  fix m k i assume m: "\<forall>x. x \<notin> span tf 4096 \<longrightarrow> m x = hmem h x" and i: "i < (4096 :: nat)"
  have us: "user_space m r tf" using u by (rule user_space_frame) (use m in blast)
  define va where "va = TRAPFRAME + of_nat i"
  have v: "unat va = unat TRAPFRAME + i"
    using i unfolding va_def by (subst unat_add_lem [THEN iffD1]) (simp_all add: unat_of_nat take_bit_nat_eq_self)
  then have va: "va < MAXVA" using i by (simp add: word_less_nat_alt)
  have "(274877898752 + i) mod 4096 = i" using i mod_add_left_eq [of 274877898752 4096 i] by simp
  then have pd: "PGROUNDDOWN va = TRAPFRAME" using v i by (simp add: word_unat_eq_iff unat_PGROUNDDOWN)
  have g: "pt_get m r va = PA2PTE tf OR 7"
    using pt_get_page [OF va, of TRAPFRAME m r] us pd PGROUNDDOWN_aligned [of TRAPFRAME]
    by (simp add: user_space_def aligned_def)
  have pa: "uaddr m r va = tf + of_nat i"
    using us PTE2PA_PA2PTE [of tf 7] unfolding uaddr_def g pd by (simp add: va_def user_space_def)
  have f: "PTE_FLAGS (PA2PTE tf OR 7) = 7" by (rule PTE_FLAGS_PA2PTE) simp
  have fl: "(PA2PTE tf OR 7) AND x = 7 AND x" if "0x3FF AND x = x" for x
  proof -
    have "(PA2PTE tf OR 7) AND x = PTE_FLAGS (PA2PTE tf OR 7) AND x" by (simp only: PTE_FLAGS_def and.assoc that)
    then show ?thesis by (simp only: f)
  qed
  have "sv39 2 m r va = Some (PA2PTE tf OR 7, tf + of_nat i)"
    using us by (simp add: sv39_pt_get user_space_def g pa pv_def fl)
  then show "translate k (h\<lparr>hmem := m\<rparr>) (TRAPFRAME + of_nat i) = Some (tf + of_nat i)"
    using us MAKE_SATP_root low_sign [OF va] unfolding va_def [symmetric]
    by (simp add: translate_def h user_space_def permits_def fl split: access.split)
qed simp_all

end
