(* ===== verification/Trampoline.thy ===== *)
theory Trampoline
  imports Hart_Regs
begin

text \<open>
  The contracts of the assembly code: a context switch that is switched back later resumes
  its caller, a trap from user space through \<^verbatim>\<open>uservec\<close> and \<^verbatim>\<open>userret\<close> and a trap in
  the kernel through \<^verbatim>\<open>kernelvec\<close> keep the registers of what they interrupt.
\<close>

unbundle bit_operations_syntax

subsection \<open>Traps from user space\<close>

lemma sscratch_csr: "csr_write Sscratch x h = h\<lparr>hcsr := (hcsr h)(Sscratch := x)\<rparr>"
  "csr_write (Sup Satp) x h = h\<lparr>hcsr := (hcsr h)(Sup Satp := x)\<rparr>" "csr_read Sscratch h = hcsr h Sscratch"
  by (simp_all add: csr_write_def csr_read_def)

lemma hart_upd_order: "h\<lparr>hmem := m, gpr := g\<rparr> = h\<lparr>gpr := g, hmem := m\<rparr>" "h\<lparr>hcsr := c, gpr := g\<rparr> = h\<lparr>gpr := g, hcsr := c\<rparr>"
  "h\<lparr>hmem := m, hcsr := c\<rparr> = h\<lparr>hcsr := c, hmem := m\<rparr>"
  by (cases h; simp)+

lemma uservec_run:
  assumes h: "priv h = Supervisor" "hcsr h (Sup Satp) = MAKE_SATP r" and u: "user_space (hmem h) r tf"
  obtains t where "run (uservec_code ret) h = Some t" "priv t = Supervisor"
    "pc t = trapframe_at (hmem h) tf kernel_trap" "gpr t RA = ret"
    "gpr t SP = trapframe_at (hmem h) tf kernel_sp" "gpr t TP = trapframe_at (hmem h) tf kernel_hartid"
    "hcsr t = (hcsr h)(Sscratch := gpr h A0, Sup Satp := trapframe_at (hmem h) tf kernel_satp)"
    "\<And>f x. user_reg f = Some x \<Longrightarrow> trapframe_at (hmem t) tf f = gpr h x"
    "\<And>f. user_reg f = None \<Longrightarrow> trapframe_at (hmem t) tf f = trapframe_at (hmem h) tf f"
    "\<And>x. x \<notin> span tf 4096 \<Longrightarrow> hmem t x = hmem h x"
proof -
  define ks :: "(reg \<times> nat) list" where "ks = [(SP, 8), (TP, 32), (T0, 16), (T1, 0)]"
  define as :: "(reg \<times> nat) list" where "as = [(T0, 112)]"
  define c1 where "c1 = (hcsr h)(Sscratch := gpr h A0)"
  define g1 where "g1 = (gpr h)(A0 := TRAPFRAME)"
  define m1 where "m1 = stores user_regs tf g1 (hmem h)"
  define g2 where "g2 = g1(T0 := gpr h A0)"
  define m2 where "m2 = stores as tf g2 m1"
  define g3 where "g3 = loads ks tf m2 g2"
  note sl = slots_run(1) [OF reg_slots(2)]
  have o1: "m1 x = hmem h x" if "x \<notin> span tf 4096" for x
    unfolding m1_def by (rule stores_outside [OF _ _ that]) (use sl in auto)
  have o2: "m2 x = hmem h x" if "x \<notin> span tf 4096" for x
    using stores_outside [OF _ _ that, of as g2 m1] o1 [OF that] by (simp add: m2_def as_def)
  have mp: "maps (h\<lparr>gpr := g, hcsr := c1, hmem := m\<rparr>) (span tf 4096) TRAPFRAME tf 4096"
    if "\<And>x. x \<notin> span tf 4096 \<Longrightarrow> m x = hmem h x" for g m
    by (rule trapframe_maps [of _ r]) (simp_all add: h c1_def user_space_frame [OF u that])
  have a0: "g1 A0 = TRAPFRAME" "g2 A0 = TRAPFRAME" by (simp_all add: g1_def g2_def)
  have 1: "run (map (\<lambda>(r, k). Sd r (int k) A0) user_regs @ is) (h\<lparr>gpr := g1, hcsr := c1\<rparr>) =
      run is (h\<lparr>gpr := g1, hcsr := c1, hmem := m1\<rparr>)" for "is"
    using run_saves [of "h\<lparr>gpr := g1, hcsr := c1\<rparr>" "span tf 4096" TRAPFRAME tf 4096 A0 user_regs "is"] mp [of "hmem h" g1] sl
    by (simp add: m1_def a0)
  have 2: "run (map (\<lambda>(r, k). Sd r (int k) A0) as @ is) (h\<lparr>gpr := g2, hcsr := c1, hmem := m1\<rparr>) =
      run is (h\<lparr>gpr := g2, hcsr := c1, hmem := m2\<rparr>)" for "is"
  proof -
    have "\<forall>(r, k) \<in> set as. k mod 8 = 0 \<and> k + 8 \<le> 4096" by (simp add: as_def)
    from run_saves [OF mp [OF o1, of g2] _ order_refl this, of A0 "is"] show ?thesis by (simp add: m2_def a0)
  qed
  have 3: "run (map (\<lambda>(r, k). Ld r (int k) A0) ks @ is) (h\<lparr>gpr := g2, hcsr := c1, hmem := m2\<rparr>) =
      run is (h\<lparr>gpr := g3, hcsr := c1, hmem := m2\<rparr>)" for "is"
  proof -
    have "\<forall>(r, k) \<in> set ks. k mod 8 = 0 \<and> k + 8 \<le> 4096" "A0 \<notin> fst ` set ks" "ZERO \<notin> fst ` set ks" by (simp_all add: ks_def)
    from run_loads [OF mp [OF o2, of g2] _ this, of "is"] show ?thesis by (simp add: g3_def a0 hart_upd_order)
  qed
  have r: "run (uservec_code ret) h =
      Some (h\<lparr>gpr := g3(RA := ret), hcsr := c1(Sup Satp := g3 T1), hmem := m2, pc := g3 T0\<rparr>)"
    unfolding uservec_code_eq as_def [symmetric] ks_def [symmetric]
    by (simp del: fun_upd_apply add: sscratch_csr set_reg_def hart_upd_order c1_def [symmetric] g1_def [symmetric] 1)
      (simp add: c1_def 2 [unfolded c1_def] 3 [unfolded c1_def] g2_def [symmetric] sscratch_csr set_reg_def hart_upd_order)
  have as: "slots as 4096" by (simp add: slots_def as_def)
  have skip: "load64 m2 (tf + of_nat k) = load64 m1 (tf + of_nat k)" if "k mod 8 = 0" "k < 4096" "k \<noteq> 112" for k
    unfolding m2_def using that by (intro load_stores_other) (auto simp: as_def)
  have sv: "trapframe_at m2 tf f = gpr h x" if f: "user_reg f = Some x" for f x
  proof (cases "x = A0")
    case True
    then have "(T0, tf_off f) \<in> set as" using user_reg_A0 f by (simp add: as_def)
    then show ?thesis using load_stores [OF as order_refl, of T0 "tf_off f" tf g2 m1] True
      by (simp add: trapframe_at_def m2_def g2_def)
  next
    case False
    then have i: "(x, tf_off f) \<in> set user_regs" using user_reg_slot f by blast
    moreover have "112 \<notin> snd ` set user_regs" by (simp add: user_regs_def)
    ultimately have "tf_off f mod 8 = 0" "tf_off f < 4096" "tf_off f \<noteq> 112" using sl by force+
    then show ?thesis using load_stores [OF reg_slots(2) order_refl i, of tf g1 "hmem h"] skip False
      by (simp add: trapframe_at_def m1_def g1_def)
  qed
  have kf: "trapframe_at m2 tf f = trapframe_at (hmem h) tf f" if f: "user_reg f = None" for f
  proof -
    note n = user_reg_None [OF f]
    have "\<forall>(r, k) \<in> set user_regs. k mod 8 = 0 \<and> k < 4096" using sl by fastforce
    then have "load64 m1 (tf + of_nat (tf_off f)) = load64 (hmem h) (tf + of_nat (tf_off f))"
      unfolding m1_def using n by (intro load_stores_other) auto
    then show ?thesis using skip [of "tf_off f"] n by (simp add: trapframe_at_def)
  qed
  have ks: "distinct (map fst ks)" "set ks = {(SP, 8), (TP, 32), (T0, 16), (T1, 0)}" by (auto simp: ks_def)
  have g: "g3 SP = trapframe_at m2 tf kernel_sp" "g3 TP = trapframe_at m2 tf kernel_hartid"
    "g3 T0 = trapframe_at m2 tf kernel_trap" "g3 T1 = trapframe_at m2 tf kernel_satp"
    unfolding g3_def trapframe_at_def 
    using loads_at [OF ks(1), of SP 8 tf m2 g2] loads_at [OF ks(1), of TP 32 tf m2 g2]
      loads_at [OF ks(1), of T0 16 tf m2 g2] loads_at [OF ks(1), of T1 0 tf m2 g2] by (simp_all add: ks(2))
  show ?thesis
    using that [OF r] sv kf o2 by (simp add: g h c1_def)
qed

lemma userret_run:
  assumes h: "priv h = Supervisor" "gpr h A0 = MAKE_SATP r" and u: "user_space (hmem h) r tf"
  obtains t where "run userret_code h = Some t" "\<And>f x. user_reg f = Some x \<Longrightarrow> gpr t x = trapframe_at (hmem h) tf f"
    "pc t = hcsr h (Sup Sepc)" "priv t = (if hcsr h Mstatus AND 0x100 = 0 then User else Supervisor)"
    "hcsr t (Sup Satp) = MAKE_SATP r" "hmem t = hmem h"
proof -
  define c where "c = (hcsr h)(Sup Satp := MAKE_SATP r)"
  define g1 where "g1 = (gpr h)(A0 := TRAPFRAME)"
  define g2 where "g2 = loads user_regs tf (hmem h) g1"
  define h2 where "h2 = h\<lparr>gpr := g2, hcsr := c\<rparr>"
  note sl = slots_run [OF reg_slots(2)]
  have a0: "A0 \<notin> fst ` set user_regs" by (simp add: user_regs_def)
  have mp: "maps (h\<lparr>gpr := g, hcsr := c\<rparr>) (span tf 4096) TRAPFRAME tf 4096" for g
    by (rule trapframe_maps [of _ r]) (simp_all add: h u c_def)
  have g2: "g2 A0 = TRAPFRAME" using loads_other [OF a0] by (simp add: g2_def g1_def)
  have 1: "run (map (\<lambda>(r, k). Ld r (int k) A0) user_regs @ is) (h\<lparr>gpr := g1, hcsr := c\<rparr>) = run is h2" for "is"
    using run_loads [OF mp [of g1] _ sl(1) a0 sl(3), of "is"] by (simp add: g1_def g2_def h2_def hart_upd_order)
  have 2: "mem_addr Load A0 (int 112) h2 = Some (tf + of_nat 112)"
    unfolding h2_def by (rule maps_addr [OF mp [of g2]]) (simp_all add: g2)
  define g3 where "g3 = g2(A0 := load64 (hmem h) (tf + of_nat 112))"
  have r: "run userret_code h = Some (sret (h2\<lparr>gpr := g3\<rparr>))"
    unfolding userret_code_eq using h(2)
    by (simp del: fun_upd_apply add: sscratch_csr set_reg_def hart_upd_order c_def [symmetric] g1_def [symmetric] 1)
      (use 2 in \<open>simp add: g3_def set_reg_def h2_def hart_upd_order\<close>)
  have "g3 x = trapframe_at (hmem h) tf f" if f: "user_reg f = Some x" for f x
  proof (cases "x = A0")
    case True
    then show ?thesis using user_reg_A0 f by (simp add: g3_def trapframe_at_def)
  next
    case False
    then show ?thesis using loads_at [OF sl(2) user_reg_slot [OF f False], of tf "hmem h" g1]
      by (simp add: g3_def g2_def trapframe_at_def)
  qed
  then show ?thesis
    using that [OF r] by (simp add: sret_def Let_def h2_def c_def)
qed

subsection \<open>Traps in the kernel\<close>

lemma kernelvec_run:
  assumes "maps h (span pa 256) (gpr h SP - 256) pa 256"
  obtains t where "run (kernelvec_code target link) h = Some t" "pc t = target" "gpr t RA = link"
    "gpr t SP = gpr h SP - 256" "\<And>x. x \<notin> {RA, SP} \<Longrightarrow> gpr t x = gpr h x"
    "\<And>x k. (x, k) \<in> set trap_regs \<Longrightarrow> load64 (hmem t) (pa + of_nat k) = gpr h x"
    "\<And>x. x \<notin> span pa 256 \<Longrightarrow> hmem t x = hmem h x" "hcsr t = hcsr h" "priv t = priv h"
proof -
  define g where "g = (gpr h)(SP := gpr h SP - 256)"
  define m where "m = stores trap_regs pa g (hmem h)"
  note sl = slots_run(1) [OF reg_slots(3)]
  have "run (kernelvec_code target link) h = Some (h\<lparr>gpr := g(RA := link), hmem := m, pc := target\<rparr>)"
    unfolding kernelvec_code_eq
    using run_saves [of "h\<lparr>gpr := g\<rparr>" "span pa 256" "g SP" pa 256 SP trap_regs "[Call target link]"] assms sl
    by (simp add: set_reg_def g_def [symmetric] m_def hart_upd_order) (simp add: g_def)
  moreover have "m x = hmem h x" if "x \<notin> span pa 256" for x
    unfolding m_def by (rule stores_outside [OF _ _ that]) (use sl in auto)
  moreover have "load64 m (pa + of_nat k) = gpr h x" if "(x, k) \<in> set trap_regs" for x k
  proof -
    have "x \<noteq> SP" using that by (auto simp: trap_regs_def)
    then show ?thesis unfolding m_def using load_stores [OF reg_slots(3) _ that, of pa g "hmem h"] by (simp add: g_def)
  qed
  ultimately show ?thesis using that by (simp add: g_def)
qed

lemma kernelvec_return_run:
  assumes "maps h (span pa 256) (gpr h SP) pa 256"
  obtains t where "run kernelvec_return h = Some t" "gpr t SP = gpr h SP + 256" "pc t = hcsr h (Sup Sepc)"
    "\<And>x k. (x, k) \<in> set trap_regs \<Longrightarrow> x \<noteq> TP \<Longrightarrow> gpr t x = load64 (hmem h) (pa + of_nat k)"
    "\<And>x. x = TP \<or> x \<notin> fst ` set trap_regs \<Longrightarrow> x \<noteq> SP \<Longrightarrow> gpr t x = gpr h x"
    "hmem t = hmem h" "priv t = (if hcsr h Mstatus AND 0x100 = 0 then User else Supervisor)"
proof -
  define xs where "xs = [x\<leftarrow>trap_regs. fst x \<noteq> TP]"
  define g where "g = loads xs pa (hmem h) (gpr h)"
  have sx: "\<forall>(r, k) \<in> set xs. k mod 8 = 0 \<and> k + 8 \<le> 256" "SP \<notin> fst ` set xs" "ZERO \<notin> fst ` set xs" "distinct (map fst xs)"
    by (simp_all add: xs_def trap_regs_def)
  have sp: "g SP = gpr h SP" unfolding g_def by (rule loads_other [OF sx(2)])
  have r: "run kernelvec_return h = Some (sret (h\<lparr>gpr := g(SP := gpr h SP + 256)\<rparr>))"
    unfolding kernelvec_code_eq xs_def [symmetric] run_loads [OF assms refl sx(1-3)]
    by (simp add: g_def [symmetric] set_reg_def sp)
  have "g x = load64 (hmem h) (pa + of_nat k)" if "(x, k) \<in> set trap_regs" "x \<noteq> TP" for x k
    unfolding g_def by (rule loads_at [OF sx(4)]) (simp add: xs_def that)
  moreover have "x \<noteq> SP" if "(x, k) \<in> set trap_regs" for x k using that by (auto simp: trap_regs_def)
  moreover have "g x = gpr h x" if "x = TP \<or> x \<notin> fst ` set trap_regs" for x
    unfolding g_def by (rule loads_other) (use that in \<open>auto simp: xs_def\<close>)
  ultimately show ?thesis using that [OF r] by (simp add: sret_def Let_def)
qed

subsection \<open>The hardware's view of a mapping\<close>

lemma flag_and:
  assumes "unat f < 1024" "0x3FF AND x = x"
  shows "(PA2PTE a OR f) AND x = f AND x"
proof -
  have "(PA2PTE a OR f) AND x = PTE_FLAGS (PA2PTE a OR f) AND x" by (simp only: PTE_FLAGS_def and.assoc assms(2))
  then show ?thesis by (simp only: PTE_FLAGS_PA2PTE [OF assms(1)])
qed

lemma translate_table:
  assumes "inner_ok (hmem h) r" "aligned r" "unat r < 2 ^ 56" "hcsr h (Sup Satp) = MAKE_SATP r" "priv h \<noteq> Machine" "wa < MAXVA"
  shows "translate k h wa = (let e = pt_get (hmem h) r wa in
    if pv e \<and> (e AND PTE_R = 0 \<longrightarrow> e AND PTE_W = 0) \<and> e AND (PTE_R OR PTE_X) \<noteq> 0 \<and> permits k (priv h) e
    then Some (PTE2PA e + (wa - PGROUNDDOWN wa)) else None)"
  using MAKE_SATP_root [OF assms(2,3)] low_sign [OF assms(6)]
  by (auto simp: translate_def assms(4,5) sv39_pt_get [OF assms(1)] Let_def uaddr_def)

lemma translate_leaf:
  assumes "inner_ok (hmem h) r" "aligned r" "unat r < 2 ^ 56" "hcsr h (Sup Satp) = MAKE_SATP r" "priv h \<noteq> Machine" "wa < MAXVA"
    and e: "pt_get (hmem h) r wa = PA2PTE a OR perm OR PTE_V" "aligned a" "unat a < 2 ^ 54" "unat perm < 1024" "perm AND PTE_R \<noteq> 0"
  shows "translate k h wa = (if permits k (priv h) perm then Some (a + (wa - PGROUNDDOWN wa)) else None)"
proof -
  define f where "f = perm OR PTE_V"
  have f: "unat f < 1024"
  proof -
    have b: "bit perm n \<Longrightarrow> n < 10" for n using bit_below [of perm 10 n] e(4) by simp
    have "f = take_bit 10 f" unfolding f_def by (rule bit_word_eqI) (auto simp: bit_take_bit_iff bit_or_iff bit_1_iff dest: b)
    then have "unat f = unat (take_bit 10 f)" by simp
    then show ?thesis by (simp add: take_bit_eq_mod unat_mod)
  qed
  note fl = flag_and [OF f, of _ a]
  have R: "f AND PTE_R = perm AND PTE_R" "f AND PTE_W = perm AND PTE_W" "f AND PTE_U = perm AND PTE_U"
    by (simp_all add: f_def bit.conj_disj_distrib2)
  have "f AND (PTE_R OR PTE_X) \<noteq> 0"
  proof
    assume "f AND (PTE_R OR PTE_X) = 0"
    then have "(f AND (PTE_R OR PTE_X)) AND PTE_R = 0" by simp
    then have "f AND PTE_R = 0" by (simp add: and.assoc)
    with R(1) e(5) show False by simp
  qed
  moreover have g: "pt_get (hmem h) r wa = PA2PTE a OR f" unfolding e(1) f_def by (simp add: or.assoc)
  moreover have "pv (PA2PTE a OR f)" unfolding f_def or.assoc [symmetric] by (rule pv_OR)
  moreover have "permits k (priv h) (PA2PTE a OR f) = permits k (priv h) perm"
    unfolding permits_def using fl [of PTE_R] fl [of PTE_W] fl [of PTE_U] R by (simp split: access.split mode.split)
  ultimately show ?thesis
    using fl [of PTE_R] fl [of "PTE_R OR PTE_X"] R(1) e(5) PTE2PA_PA2PTE [OF e(2,3) f]
    unfolding translate_table [OF assms(1-6)] g by simp
qed

lemma range_page:
  assumes al: "aligned va" "aligned sz" "aligned pa" and b: "unat va + unat sz \<le> 2 ^ 38" "unat pa + unat sz \<le> 2 ^ 54"
    and wa: "va \<le> wa" "wa < va + sz"
  shows "va \<le> PGROUNDDOWN wa" "PGROUNDDOWN wa \<le> va + sz - PGSIZE" "wa < MAXVA"
    "aligned (pa + (PGROUNDDOWN wa - va))" "unat (pa + (PGROUNDDOWN wa - va)) < 2 ^ 54"
proof -
  have vs: "unat (va + sz) = unat va + unat sz" using b(1) by (subst unat_add_lem [THEN iffD1]) auto
  have w: "unat va \<le> unat wa" "unat wa < unat va + unat sz" using wa vs by (simp_all add: word_le_nat_alt word_less_nat_alt)
  obtain i j k where ijk: "unat va = 4096 * i" "unat sz = 4096 * j" "unat pa = 4096 * k"
    using al unfolding aligned_def by (elim dvdE) blast
  define q where "q = unat wa div 4096"
  have pd: "unat (PGROUNDDOWN wa) = 4096 * q" unfolding unat_PGROUNDDOWN q_def by (simp add: minus_mod_eq_mult_div)
  have q: "i \<le> q" "q < i + j" "0 < j" using w ijk unfolding q_def by (simp_all add: less_eq_div_iff_mult_less_eq div_less_iff_less_mult algebra_simps)
  show 1: "va \<le> PGROUNDDOWN wa" using pd ijk q by (simp add: word_le_nat_alt)
  have "unat (va + sz - PGSIZE) = 4096 * (i + j) - 4096"
    using vs ijk q by (subst unat_sub) (auto simp: word_le_nat_alt)
  then show "PGROUNDDOWN wa \<le> va + sz - PGSIZE" using pd q by (simp add: word_le_nat_alt)
  show "wa < MAXVA" using w b by (simp add: word_less_nat_alt)
  have d: "unat (PGROUNDDOWN wa - va) = 4096 * (q - i)" using 1 pd ijk by (simp add: unat_sub algebra_simps)
  have bd: "4096 * k + 4096 * (q - i) < 2 ^ 54" using b(2) ijk q by simp
  have "unat (pa + (PGROUNDDOWN wa - va)) = 4096 * k + 4096 * (q - i)"
    using bd ijk d by (subst unat_add_lem [THEN iffD1]) auto
  then show "aligned (pa + (PGROUNDDOWN wa - va))" "unat (pa + (PGROUNDDOWN wa - va)) < 2 ^ 54"
    using bd by (auto simp: aligned_def)
qed

lemma outside_page:
  assumes "aligned va" "aligned sz" "sz \<noteq> 0" "unat va + unat sz \<le> 2 ^ 38" "\<not> (va \<le> wa \<and> wa < va + sz)"
  shows "\<not> (va \<le> PGROUNDDOWN wa \<and> PGROUNDDOWN wa \<le> va + sz - PGSIZE)"
proof
  assume a: "va \<le> PGROUNDDOWN wa \<and> PGROUNDDOWN wa \<le> va + sz - PGSIZE"
  have vs: "unat (va + sz) = unat va + unat sz" using assms(4) by (subst unat_add_lem [THEN iffD1]) auto
  have "4096 \<le> unat sz" using assms(2,3) unfolding aligned_def by (metis dvd_imp_le neq0_conv unat_eq_zero)
  then have "unat (va + sz - PGSIZE) = unat va + unat sz - 4096"
    using vs by (subst unat_sub) (auto simp: word_le_nat_alt)
  then have "unat (PGROUNDDOWN wa) + 4096 \<le> unat va + unat sz" using a \<open>4096 \<le> unat sz\<close> unfolding word_le_nat_alt by linarith
  moreover have "unat wa < unat (PGROUNDDOWN wa) + 4096"
    using mod_less_divisor [of 4096 "unat wa"] by (simp only: unat_PGROUNDDOWN)
  moreover have "va \<le> wa" using a PGROUNDDOWN_le [of wa] by (meson order_trans)
  ultimately show False using assms(5) vs by (simp add: word_less_nat_alt)
qed

subsection \<open>Properties\<close>

text \<open>\<^bold>\<open>C4\<close> What the kernel maps is what the hardware sees: after a \<^verbatim>\<open>mappages\<close> that
  returned 0, a hart whose \<^verbatim>\<open>satp\<close> selects the table translates every address of the
  range to the corresponding physical address for exactly the accesses the permissions
  allow its mode, and every address outside the range as before.\<close>

theorem mappages_mmu:
  assumes "pt_inv s r xs" "aligned r" "unat r < 2 ^ 56" and "aligned va" "aligned sz" "sz \<noteq> 0" "unat va + unat sz \<le> 2 ^ 38"
    and "aligned pa" "unat pa + unat sz \<le> 2 ^ 54" "unat perm < 1024" "perm AND PTE_R \<noteq> 0"
    and "\<forall>wa. va \<le> wa \<and> wa < va + sz \<and> aligned wa \<longrightarrow> \<not> pv (pt_get (pmem s) r wa)"
  shows "returns (mappages r va sz pa perm s) (\<lambda>res t. res = 0 \<longrightarrow>
    (\<forall>h k wa. hcsr h (Sup Satp) = MAKE_SATP r \<and> priv h \<noteq> Machine \<and> wa < MAXVA \<longrightarrow>
      translate k (h\<lparr>hmem := pmem t\<rparr>) wa =
        (if va \<le> wa \<and> wa < va + sz
         then if permits k (priv h) perm then Some (pa + (wa - va)) else None
         else translate k (h\<lparr>hmem := pmem s\<rparr>) wa)))"
proof -
  have "\<not> pv (pt_get (pmem s) r wa)" if "va \<le> wa" "wa < va + sz" "aligned wa" for wa using assms(12) that by blast
  then obtain res t ys where m: "mappages r va sz pa perm s = Ret res t" "pt_inv t r ys"
    and g: "res = 0 \<Longrightarrow> wa < MAXVA \<Longrightarrow> pt_get (pmem t) r wa = mapped va (va + sz - PGSIZE) pa perm (pt_get (pmem s) r) wa" for wa
    using mappages_map [OF assms(1,4-7), of pa perm] by (auto simp: returns_iff)
  have i: "inner_ok (pmem t) r" "inner_ok (pmem s) r" using assms(1) m(2) by (auto simp: pt_inv_def)
  have "translate k (h\<lparr>hmem := pmem t\<rparr>) wa = (if va \<le> wa \<and> wa < va + sz
       then if permits k (priv h) perm then Some (pa + (wa - va)) else None else translate k (h\<lparr>hmem := pmem s\<rparr>) wa)"
    if "res = 0" and h: "hcsr h (Sup Satp) = MAKE_SATP r" "priv h \<noteq> Machine" "wa < MAXVA" for h k wa
  proof (cases "va \<le> wa \<and> wa < va + sz")
    case True
    let ?h = "h\<lparr>hmem := pmem t\<rparr>"
    note p = range_page [OF assms(4,5,8,7,9) conjunct1 [OF True] conjunct2 [OF True]]
    have "translate k ?h wa = (if permits k (priv ?h) perm
        then Some (pa + (PGROUNDDOWN wa - va) + (wa - PGROUNDDOWN wa)) else None)"
      by (rule translate_leaf [OF _ assms(2,3) _ _ _ _ p(4,5) assms(10,11)])
        (use i h g [OF that(1)] p(1,2) in \<open>simp_all add: mapped_def\<close>)
    then show ?thesis using True by simp
  next
    case False
    have "\<not> (va \<le> PGROUNDDOWN wa \<and> PGROUNDDOWN wa \<le> va + sz - PGSIZE)"
      using False by (rule outside_page [OF assms(4-7)])
    then have "pt_get (pmem t) r wa = pt_get (pmem s) r wa" using g [OF that(1) h(3)] by (auto simp: mapped_def)
    then show ?thesis
      using i h False by (auto simp: translate_table [OF _ assms(2,3)] Let_def)
  qed
  then show ?thesis by (simp add: m(1))
qed

lemma demo_entries:
  "load64 demo_mem 0x80001000 = PA2PTE 0x80002000 OR PTE_V" "load64 demo_mem 0x80002000 = PA2PTE 0x80003000 OR PTE_V"
  "load64 demo_mem 0x80003008 = 0"
proof -
  have al: "aligned 0x80001000" "aligned 0x80002000" "aligned 0x80003000" by (simp_all add: aligned_numeral)
  have st: "ent (store64 m a v) q i = (if q = a \<and> i = 0 then v else ent m q i)" if "aligned a" "aligned q" "i < 512" for m a v q i
    using ent_store [OF _ that(3,1,2), of 0 m v] by simp
  note e = st [OF al(1)] st [OF al(2)] st [OF al(3)]
  show "load64 demo_mem 0x80001000 = PA2PTE 0x80002000 OR PTE_V" using e [OF al(1), of 0] by (simp add: demo_mem_def table_mem_def Let_def ent_def)
  show "load64 demo_mem 0x80002000 = PA2PTE 0x80003000 OR PTE_V" using e [OF al(2), of 0] by (simp add: demo_mem_def table_mem_def Let_def ent_def)
  show "load64 demo_mem 0x80003008 = 0" using e [OF al(3), of 1] by (simp add: demo_mem_def table_mem_def Let_def ent_def)
qed

lemma demo_map: "\<exists>t. mappages 0x80001000 0x1000 0x1000 0x8000A000 0x12 demo_state = Ret 0 t"
proof -
  have pa: "PTE2PA (PA2PTE x OR PTE_V) = x" if "aligned x" "unat x < 2 ^ 54" for x
    using that by (intro PTE2PA_PA2PTE) simp_all
  have w: "walk 0x80001000 0x1000 True demo_state = Ret 0x80003008 demo_state"
    unfolding walk_def numeral_2_eq_2
    using pv_OR [of "PA2PTE 0x80002000"] pv_OR [of "PA2PTE 0x80003000"]
    by (simp add: Let_def demo_state_def PX_def demo_entries pa aligned_numeral pv_def)
  show ?thesis
    by (simp add: mappages_def) (subst mappages_loop.simps, simp add: w demo_entries(3), simp add: demo_state_def demo_entries(3))
qed

definition demo_hart :: "mem \<Rightarrow> hart" where
  "demo_hart m = \<lparr>gpr = (\<lambda>_. 0), hcsr = (\<lambda>_. 0)(Sup Satp := MAKE_SATP 0x80001000), priv = User, pc = 0, hmem = m\<rparr>"

theorem mappages_mmu_witness:
  "\<exists>t. mappages 0x80001000 0x1000 0x1000 0x8000A000 0x12 demo_state = Ret 0 t \<and>
     translate Load (demo_hart (pmem t)) 0x1234 = Some 0x8000A234 \<and> translate Store (demo_hart (pmem t)) 0x1234 = None"
proof -
  obtain t where t: "mappages 0x80001000 0x1000 0x1000 0x8000A000 0x12 demo_state = Ret 0 t" using demo_map by blast
  have "\<forall>wa. (0x1000 :: u64) \<le> wa \<and> wa < 0x1000 + 0x1000 \<and> aligned wa \<longrightarrow> \<not> pv (pt_get (pmem demo_state) 0x80001000 wa)"
    using demo_unmapped by (simp add: demo_state_def)
  from mappages_mmu [OF demo_inv _ _ _ _ _ _ _ _ _ _ this, of "0x8000A000" "0x12"]
  have "\<forall>h k wa. hcsr h (Sup Satp) = MAKE_SATP 0x80001000 \<and> priv h \<noteq> Machine \<and> wa < MAXVA \<longrightarrow>
      translate k (h\<lparr>hmem := pmem t\<rparr>) wa = (if 0x1000 \<le> wa \<and> wa < 0x1000 + 0x1000
         then if permits k (priv h) 0x12 then Some (0x8000A000 + (wa - 0x1000)) else None
         else translate k (h\<lparr>hmem := pmem demo_state\<rparr>) wa)"
    by (simp add: aligned_numeral t)
  from this [rule_format, of "demo_hart (pmem t)" "0x1234"] show ?thesis
    using t by (simp add: demo_hart_def permits_def)
qed

text \<open>\<^bold>\<open>C6\<close> A trap from user space: \<^verbatim>\<open>uservec\<close> saves every user register in the
  process's trapframe page and enters the handler the trapframe names, on its kernel stack,
  with its page table and hart number, changing nothing outside that page; \<^verbatim>\<open>userret\<close>
  later gives every register the value its trapframe field then has, whatever the kernel
  used the registers for, and continues at \<^verbatim>\<open>sepc\<close> in the mode \<^verbatim>\<open>sstatus\<close> saved.\<close>

theorem user_trap_registers:
  assumes "priv h = Supervisor" "hcsr h (Sup Satp) = MAKE_SATP r" "user_space (hmem h) r tf"
  shows "\<exists>t. run (uservec_code ret) h = Some t \<and> priv t = Supervisor \<and>
    pc t = trapframe_at (hmem h) tf kernel_trap \<and> gpr t RA = ret \<and>
    gpr t SP = trapframe_at (hmem h) tf kernel_sp \<and> gpr t TP = trapframe_at (hmem h) tf kernel_hartid \<and>
    hcsr t (Sup Satp) = trapframe_at (hmem h) tf kernel_satp \<and>
    (\<forall>f. trapframe_at (hmem t) tf f = (case user_reg f of None \<Rightarrow> trapframe_at (hmem h) tf f | Some x \<Rightarrow> gpr h x)) \<and>
    (\<forall>a. a \<notin> span tf 4096 \<longrightarrow> hmem t a = hmem h a) \<and>
    (\<forall>u. priv u = Supervisor \<and> gpr u A0 = MAKE_SATP r \<and> user_space (hmem u) r tf \<longrightarrow>
      (\<exists>v. run userret_code u = Some v \<and> hmem v = hmem u \<and> pc v = hcsr u (Sup Sepc) \<and>
        priv v = (if hcsr u Mstatus AND 0x100 = 0 then User else Supervisor) \<and> hcsr v (Sup Satp) = MAKE_SATP r \<and>
        (\<forall>x. x \<noteq> ZERO \<longrightarrow> (\<exists>f. user_reg f = Some x \<and> gpr v x = trapframe_at (hmem u) tf f \<and>
           (trapframe_at (hmem u) tf f = trapframe_at (hmem t) tf f \<longrightarrow> gpr v x = gpr h x)))))"
proof -
  obtain t where t: "run (uservec_code ret) h = Some t" "priv t = Supervisor"
    "pc t = trapframe_at (hmem h) tf kernel_trap" "gpr t RA = ret"
    "gpr t SP = trapframe_at (hmem h) tf kernel_sp" "gpr t TP = trapframe_at (hmem h) tf kernel_hartid"
    "hcsr t = (hcsr h)(Sscratch := gpr h A0, Sup Satp := trapframe_at (hmem h) tf kernel_satp)"
    "\<And>f x. user_reg f = Some x \<Longrightarrow> trapframe_at (hmem t) tf f = gpr h x"
    "\<And>f. user_reg f = None \<Longrightarrow> trapframe_at (hmem t) tf f = trapframe_at (hmem h) tf f"
    "\<And>x. x \<notin> span tf 4096 \<Longrightarrow> hmem t x = hmem h x"
    by (rule uservec_run [OF assms, of ret]) blast
  have "\<exists>v. run userret_code u = Some v \<and> hmem v = hmem u \<and> pc v = hcsr u (Sup Sepc) \<and>
      priv v = (if hcsr u Mstatus AND 0x100 = 0 then User else Supervisor) \<and> hcsr v (Sup Satp) = MAKE_SATP r \<and>
      (\<forall>x. x \<noteq> ZERO \<longrightarrow> (\<exists>f. user_reg f = Some x \<and> gpr v x = trapframe_at (hmem u) tf f \<and>
         (trapframe_at (hmem u) tf f = trapframe_at (hmem t) tf f \<longrightarrow> gpr v x = gpr h x)))"
    if u: "priv u = Supervisor" "gpr u A0 = MAKE_SATP r" "user_space (hmem u) r tf" for u
  proof -
    obtain v where v: "run userret_code u = Some v" "\<And>f x. user_reg f = Some x \<Longrightarrow> gpr v x = trapframe_at (hmem u) tf f"
      "pc v = hcsr u (Sup Sepc)" "priv v = (if hcsr u Mstatus AND 0x100 = 0 then User else Supervisor)"
      "hcsr v (Sup Satp) = MAKE_SATP r" "hmem v = hmem u"
      by (rule userret_run [OF u]) blast
    have "\<exists>f. user_reg f = Some x \<and> gpr v x = trapframe_at (hmem u) tf f \<and>
        (trapframe_at (hmem u) tf f = trapframe_at (hmem t) tf f \<longrightarrow> gpr v x = gpr h x)" if x: "x \<noteq> ZERO" for x
      using user_reg_ex [OF x] v(2) t(8) by fastforce
    then show ?thesis using v by blast
  qed
  moreover have "trapframe_at (hmem t) tf f = (case user_reg f of None \<Rightarrow> trapframe_at (hmem h) tf f | Some x \<Rightarrow> gpr h x)" for f
    using t(8,9) by (simp split: option.split)
  ultimately show ?thesis using t(1-7,10) by (intro exI [of _ t]) simp
qed

definition trap_mem :: mem where
  "trap_mem = table_mem 255 511 510 (PA2PTE 0x80009000 OR 7)"

lemma trap_mem: "user_space trap_mem 0x80001000 0x80009000"
proof -
  have "lpath TRAPFRAME = [255, 511]" "px 0 TRAPFRAME = 510" by (simp_all add: lpath_def px_eq)
  then have "pt_get trap_mem 0x80001000 TRAPFRAME = PA2PTE 0x80009000 OR 7"
    unfolding trap_mem_def by (intro table_mem) simp_all
  then show ?thesis
    using table_mem(1-3) [of 255 511 510 "PA2PTE 0x80009000 OR 7", folded trap_mem_def]
    by (simp add: user_space_def aligned_numeral)
qed

theorem user_trap_registers_witness:
  "\<exists>t v. run (uservec_code 42) ((demo_hart trap_mem)\<lparr>priv := Supervisor, gpr := \<lambda>_. 7\<rparr>) = Some t \<and>
     run userret_code (t\<lparr>gpr := (\<lambda>_. 0)(A0 := MAKE_SATP 0x80001000)\<rparr>) = Some v \<and>
     gpr t RA = 42 \<and> gpr v S3 = 7 \<and> gpr v A0 = 7"
proof -
  let ?h = "(demo_hart trap_mem)\<lparr>priv := Supervisor, gpr := \<lambda>_. 7\<rparr>"
  have "priv ?h = Supervisor" "hcsr ?h (Sup Satp) = MAKE_SATP 0x80001000" "user_space (hmem ?h) 0x80001000 0x80009000"
    using trap_mem by (simp_all add: demo_hart_def)
  note user_trap_registers [OF this, of 42]
  then show ?thesis
  proof (elim exE conjE)
    fix t assume t: "run (uservec_code 42) ?h = Some t" "priv t = Supervisor" "gpr t RA = 42"
      "\<forall>a. a \<notin> span 0x80009000 4096 \<longrightarrow> hmem t a = hmem ?h a"
      and u: "\<forall>u. priv u = Supervisor \<and> gpr u A0 = MAKE_SATP 0x80001000 \<and> user_space (hmem u) 0x80001000 0x80009000 \<longrightarrow>
        (\<exists>v. run userret_code u = Some v \<and> hmem v = hmem u \<and> pc v = hcsr u (Sup Sepc) \<and>
          priv v = (if hcsr u Mstatus AND 0x100 = 0 then User else Supervisor) \<and> hcsr v (Sup Satp) = MAKE_SATP 0x80001000 \<and>
          (\<forall>x. x \<noteq> ZERO \<longrightarrow> (\<exists>f. user_reg f = Some x \<and> gpr v x = trapframe_at (hmem u) 0x80009000 f \<and>
             (trapframe_at (hmem u) 0x80009000 f = trapframe_at (hmem t) 0x80009000 f \<longrightarrow> gpr v x = gpr ?h x))))"
    let ?u = "t\<lparr>gpr := (\<lambda>_. 0)(A0 := MAKE_SATP 0x80001000)\<rparr>"
    have "user_space (hmem t) 0x80001000 0x80009000"
      by (rule user_space_frame [OF trap_mem]) (use t(4) in \<open>simp add: demo_hart_def\<close>)
    with u [rule_format, of ?u] t(2) obtain v where v: "run userret_code ?u = Some v" "\<And>x. x \<noteq> ZERO \<Longrightarrow> gpr v x = 7"
      by auto
    then show ?thesis using t(1,3) v(2) [of S3] v(2) [of A0] by auto
  qed
qed

text \<open>\<^bold>\<open>C9\<close> A thread that gives up its CPU continues where it left off: \<^verbatim>\<open>swtch(a, b)\<close>
  saves the registers a call must preserve, with the return address and stack pointer, in
  \<^verbatim>\<open>a\<close> and resumes the thread whose registers are in \<^verbatim>\<open>b\<close>; when a later
  \<^verbatim>\<open>swtch(c, a)\<close> finds \<^verbatim>\<open>a\<close> as it was left, these registers are back, whatever
  ran in between and on whichever hart.\<close>

theorem swtch_resumes:
  assumes "maps h (span pa 112) (gpr h A0) pa 112" "maps h (span pa 112) (gpr h A1) pb 112" "span pa 112 \<inter> span pb 112 = {}"
  shows "\<exists>t. run swtch_code h = Some t \<and> pc t = context_at (hmem h) pb C_ra \<and>
    (\<forall>f. gpr t (ctx_reg f) = context_at (hmem h) pb f) \<and> context_at (hmem t) pa = (\<lambda>f. gpr h (ctx_reg f)) \<and>
    (\<forall>x. x \<notin> span pa 112 \<longrightarrow> hmem t x = hmem h x) \<and> hcsr t = hcsr h \<and> priv t = priv h \<and>
    (\<forall>u c. maps u (span c 112) (gpr u A0) c 112 \<and> maps u (span c 112) (gpr u A1) pa 112 \<and> span c 112 \<inter> span pa 112 = {} \<and>
       context_at (hmem u) pa = context_at (hmem t) pa \<longrightarrow>
       (\<exists>v. run swtch_code u = Some v \<and> pc v = gpr h RA \<and> (\<forall>f. gpr v (ctx_reg f) = gpr h (ctx_reg f))))"
proof -
  obtain t where t: "run swtch_code h = Some t" "pc t = context_at (hmem h) pb C_ra"
    "\<And>f. gpr t (ctx_reg f) = context_at (hmem h) pb f" "\<And>f. context_at (hmem t) pa f = gpr h (ctx_reg f)"
    "\<And>x. x \<notin> span pa 112 \<Longrightarrow> hmem t x = hmem h x" "hcsr t = hcsr h" "priv t = priv h"
    by (rule swtch_run [OF assms]) blast
  have "\<exists>v. run swtch_code u = Some v \<and> pc v = gpr h RA \<and> (\<forall>f. gpr v (ctx_reg f) = gpr h (ctx_reg f))"
    if u: "maps u (span c 112) (gpr u A0) c 112" "maps u (span c 112) (gpr u A1) pa 112" "span c 112 \<inter> span pa 112 = {}"
      and same: "context_at (hmem u) pa = context_at (hmem t) pa" for u c
    by (rule swtch_run [OF u]) (use t(4) same in auto)
  then show ?thesis using t by (intro exI [of _ t]) auto
qed

lemma bare_maps:
  assumes "hcsr h (Sup Satp) = 0" "8 dvd unat a" "n \<le> 4096"
  shows "maps h R a a n"
  using assms by (simp add: maps_def translate_def)

lemma span_disjoint: "aligned a \<Longrightarrow> aligned b \<Longrightarrow> a \<noteq> b \<Longrightarrow> n \<le> 4096 \<Longrightarrow> span a n \<inter> span b n = {}"
proof -
  assume a: "aligned a" "aligned b" "a \<noteq> b" "n \<le> 4096"
  have "\<not> (x \<in> span a n \<and> x \<in> span b n)" for x
    using in_page_disjoint [OF a(1,2), of x] a(3,4) by (auto simp: span_def in_page_def)
  then show ?thesis by blast
qed

theorem swtch_resumes_witness:
  "\<exists>t v. run swtch_code ((demo_hart (\<lambda>_. 0))\<lparr>hcsr := \<lambda>_. 0, gpr := (\<lambda>_. 3)(A0 := 0x80005000, A1 := 0x80006000)\<rparr>) = Some t \<and> gpr t S5 = 0 \<and>
     run swtch_code (t\<lparr>gpr := (\<lambda>_. 4)(A0 := 0x80006000, A1 := 0x80005000)\<rparr>) = Some v \<and> gpr v S5 = 3 \<and> pc v = 3"
proof -
  let ?h = "(demo_hart (\<lambda>_. 0))\<lparr>hcsr := \<lambda>_. 0, gpr := (\<lambda>_. 3)(A0 := 0x80005000, A1 := 0x80006000)\<rparr>"
  have d: "span 0x80005000 112 \<inter> span 0x80006000 112 = {}" "span 0x80006000 112 \<inter> span 0x80005000 112 = {}"
    by (rule span_disjoint; simp add: aligned_numeral)+
  have "maps ?h (span 0x80005000 112) (gpr ?h A0) 0x80005000 112" "maps ?h (span 0x80005000 112) (gpr ?h A1) 0x80006000 112"
    by (simp_all add: bare_maps)
  from swtch_resumes [OF this d(1)] obtain t where t: "run swtch_code ?h = Some t"
    "\<forall>f. gpr t (ctx_reg f) = context_at (hmem ?h) 0x80006000 f" "hcsr t = hcsr ?h"
    and u: "\<forall>u c. maps u (span c 112) (gpr u A0) c 112 \<and> maps u (span c 112) (gpr u A1) 0x80005000 112 \<and>
       span c 112 \<inter> span 0x80005000 112 = {} \<and> context_at (hmem u) 0x80005000 = context_at (hmem t) 0x80005000 \<longrightarrow>
       (\<exists>v. run swtch_code u = Some v \<and> pc v = gpr ?h RA \<and> (\<forall>f. gpr v (ctx_reg f) = gpr ?h (ctx_reg f)))"
    by blast
  let ?u = "t\<lparr>gpr := (\<lambda>_. 4)(A0 := 0x80006000, A1 := 0x80005000)\<rparr>"
  have "maps ?u (span 0x80006000 112) (gpr ?u A0) 0x80006000 112" "maps ?u (span 0x80006000 112) (gpr ?u A1) 0x80005000 112"
    using t(3) by (simp_all add: bare_maps)
  with u [rule_format, of ?u "0x80006000"] d(2)
  obtain v where v: "run swtch_code ?u = Some v" "pc v = gpr ?h RA" "\<forall>f. gpr v (ctx_reg f) = gpr ?h (ctx_reg f)"
    by auto
  have "gpr t S5 = 0" using t(2) [rule_format, of C_s5] by (simp add: context_at_def demo_hart_def)
  then show ?thesis using t(1) v(1,2) v(3) [rule_format, of C_s5] by auto
qed

text \<open>\<^bold>\<open>C22\<close> An interrupt or exception in the kernel is transparent to the code it
  interrupts: if \<^verbatim>\<open>kerneltrap\<close> returns with the stack pointer and the registers a call
  preserves as it got them and with the frame of \<^verbatim>\<open>kernelvec\<close> untouched, then
  \<^verbatim>\<open>kernelvec\<close> continues at \<^verbatim>\<open>sepc\<close> with every register as it was, except
  \<^verbatim>\<open>tp\<close>, which keeps the number of the hart the thread has come back on.\<close>

theorem kernel_trap_transparent:
  assumes "maps h (span pa 256) (gpr h SP - 256) pa 256"
  shows "\<exists>t. run (kernelvec_code target link) h = Some t \<and> pc t = target \<and> gpr t RA = link \<and> gpr t SP = gpr h SP - 256 \<and>
    (\<forall>a. a \<notin> span pa 256 \<longrightarrow> hmem t a = hmem h a) \<and> hcsr t = hcsr h \<and> priv t = priv h \<and>
    (\<forall>u. maps u (span pa 256) (gpr u SP) pa 256 \<and> (\<forall>a \<in> span pa 256. hmem u a = hmem t a) \<and>
      (\<forall>x \<in> {SP, S0, S1, S2, S3, S4, S5, S6, S7, S8, S9, S10, S11}. gpr u x = gpr t x) \<longrightarrow>
      (\<exists>v. run kernelvec_return u = Some v \<and> pc v = hcsr u (Sup Sepc) \<and> hmem v = hmem u \<and>
        (\<forall>x. x \<noteq> ZERO \<longrightarrow> gpr v x = (if x = TP then gpr u TP else gpr h x))))"
proof -
  obtain t where t: "run (kernelvec_code target link) h = Some t" "pc t = target" "gpr t RA = link"
    "gpr t SP = gpr h SP - 256" "\<And>x. x \<notin> {RA, SP} \<Longrightarrow> gpr t x = gpr h x"
    "\<And>x k. (x, k) \<in> set trap_regs \<Longrightarrow> load64 (hmem t) (pa + of_nat k) = gpr h x"
    "\<And>x. x \<notin> span pa 256 \<Longrightarrow> hmem t x = hmem h x" "hcsr t = hcsr h" "priv t = priv h"
    by (rule kernelvec_run [OF assms, of target link]) blast
  have "\<exists>v. run kernelvec_return u = Some v \<and> pc v = hcsr u (Sup Sepc) \<and> hmem v = hmem u \<and>
        (\<forall>x. x \<noteq> ZERO \<longrightarrow> gpr v x = (if x = TP then gpr u TP else gpr h x))"
    if u: "maps u (span pa 256) (gpr u SP) pa 256" "\<forall>a \<in> span pa 256. hmem u a = hmem t a"
      "\<forall>x \<in> {SP, S0, S1, S2, S3, S4, S5, S6, S7, S8, S9, S10, S11}. gpr u x = gpr t x" for u
  proof -
    obtain v where v: "run kernelvec_return u = Some v" "gpr v SP = gpr u SP + 256" "pc v = hcsr u (Sup Sepc)"
      "\<And>x k. (x, k) \<in> set trap_regs \<Longrightarrow> x \<noteq> TP \<Longrightarrow> gpr v x = load64 (hmem u) (pa + of_nat k)"
      "\<And>x. x = TP \<or> x \<notin> fst ` set trap_regs \<Longrightarrow> x \<noteq> SP \<Longrightarrow> gpr v x = gpr u x" "hmem v = hmem u"
      by (rule kernelvec_return_run [OF u(1)]) blast
    have "gpr v x = gpr h x" if x: "x \<noteq> ZERO" "x \<noteq> TP" for x
    proof (cases "x \<in> fst ` set trap_regs")
      case True
      then obtain k where k: "(x, k) \<in> set trap_regs" by force
      then have "k + 8 \<le> 256" using slots_run(1) [OF reg_slots(3)] by fastforce
      then have "load64 (hmem u) (pa + of_nat k) = load64 (hmem t) (pa + of_nat k)"
        by (intro load64_span [of pa 256]) (use u(2) in auto)
      then show ?thesis using v(4) [OF k x(2)] t(6) [OF k] by simp
    next
      case False
      then have "x \<in> {SP, S0, S1, S2, S3, S4, S5, S6, S7, S8, S9, S10, S11}"
        using x by (cases x) (simp_all add: trap_regs_def)
      then show ?thesis using False v(2) v(5) [of x] u(3) t(4) t(5) [of x] by (cases "x = SP") auto
    qed
    then show ?thesis using v by auto
  qed
  then show ?thesis using t(1-4,7-9) by (intro exI [of _ t] conjI) blast+
qed

theorem kernel_trap_transparent_witness:
  "\<exists>t v. run (kernelvec_code 9 8) ((demo_hart (\<lambda>_. 0))\<lparr>hcsr := \<lambda>_. 0, gpr := (\<lambda>_. 3)(SP := 0x80005100)\<rparr>) = Some t \<and>
     pc t = 9 \<and> run kernelvec_return (t\<lparr>gpr := (gpr t)(A0 := 1, T4 := 2, TP := 5)\<rparr>) = Some v \<and>
     gpr v A0 = 3 \<and> gpr v T4 = 3 \<and> gpr v TP = 5 \<and> gpr v SP = 0x80005100"
proof -
  let ?h = "(demo_hart (\<lambda>_. 0))\<lparr>hcsr := \<lambda>_. 0, gpr := (\<lambda>_. 3)(SP := 0x80005100)\<rparr>"
  have "maps ?h (span 0x80005000 256) (gpr ?h SP - 256) 0x80005000 256" by (simp add: bare_maps)
  note kernel_trap_transparent [OF this, of 9 8]
  then show ?thesis
  proof (elim exE conjE)
    fix t assume t: "run (kernelvec_code 9 8) ?h = Some t" "pc t = 9" "hcsr t = hcsr ?h" "gpr t SP = gpr ?h SP - 256"
      and u: "\<forall>u. maps u (span 0x80005000 256) (gpr u SP) 0x80005000 256 \<and> (\<forall>a \<in> span 0x80005000 256. hmem u a = hmem t a) \<and>
        (\<forall>x \<in> {SP, S0, S1, S2, S3, S4, S5, S6, S7, S8, S9, S10, S11}. gpr u x = gpr t x) \<longrightarrow>
        (\<exists>v. run kernelvec_return u = Some v \<and> pc v = hcsr u (Sup Sepc) \<and> hmem v = hmem u \<and>
          (\<forall>x. x \<noteq> ZERO \<longrightarrow> gpr v x = (if x = TP then gpr u TP else gpr ?h x)))"
    let ?u = "t\<lparr>gpr := (gpr t)(A0 := 1, T4 := 2, TP := 5)\<rparr>"
    have "maps ?u (span 0x80005000 256) (gpr ?u SP) 0x80005000 256"
      using t(3,4) by (simp add: bare_maps)
    with u [rule_format, of ?u] obtain v where "run kernelvec_return ?u = Some v"
      "\<forall>x. x \<noteq> ZERO \<longrightarrow> gpr v x = (if x = TP then gpr ?u TP else gpr ?h x)" by auto
    then show ?thesis using t by (intro exI [of _ t] exI [of _ v]) simp
  qed
qed

end
