(* ===== verification/Machine_Boot.thy ===== *)
theory Machine_Boot
  imports Trampoline
begin

text \<open>
  The register accessors of \<^verbatim>\<open>riscv.h\<close>, the machine-mode set-up of \<^verbatim>\<open>entry.S\<close> and
  \<^verbatim>\<open>start.c\<close>, and the device set-up of \<^verbatim>\<open>plic.c\<close> and \<^verbatim>\<open>uart.c\<close>. A device is
  seen through its registers: the set-up routines give the list of writes, in order, and
  a read of a register is an argument.
\<close>

unbundle bit_operations_syntax

subsection \<open>Register accessors (riscv.h)\<close>

definition r_mhartid :: "hart \<Rightarrow> u64" where
  "r_mhartid h = csr_read Mhartid h"

definition r_mstatus :: "hart \<Rightarrow> u64" where
  "r_mstatus h = csr_read Mstatus h"

definition r_sstatus :: "hart \<Rightarrow> u64" where
  "r_sstatus h = csr_read (Sup Sstatus) h"

definition r_sip :: "hart \<Rightarrow> u64" where
  "r_sip h = csr_read Sip h"

definition r_sie :: "hart \<Rightarrow> u64" where
  "r_sie h = csr_read Sie h"

definition r_mie :: "hart \<Rightarrow> u64" where
  "r_mie h = csr_read Mie h"

definition r_sepc :: "hart \<Rightarrow> u64" where
  "r_sepc h = csr_read (Sup Sepc) h"

definition r_medeleg :: "hart \<Rightarrow> u64" where
  "r_medeleg h = csr_read Medeleg h"

definition r_mideleg :: "hart \<Rightarrow> u64" where
  "r_mideleg h = csr_read Mideleg h"

definition r_stvec :: "hart \<Rightarrow> u64" where
  "r_stvec h = csr_read (Sup Stvec) h"

definition r_stimecmp :: "hart \<Rightarrow> u64" where
  "r_stimecmp h = csr_read (Sup Stimecmp) h"

definition r_menvcfg :: "hart \<Rightarrow> u64" where
  "r_menvcfg h = csr_read Menvcfg h"

definition r_satp :: "hart \<Rightarrow> u64" where
  "r_satp h = csr_read (Sup Satp) h"

definition r_scause :: "hart \<Rightarrow> u64" where
  "r_scause h = csr_read (Sup Scause) h"

definition r_stval :: "hart \<Rightarrow> u64" where
  "r_stval h = csr_read (Sup Stval) h"

definition r_mcounteren :: "hart \<Rightarrow> u64" where
  "r_mcounteren h = csr_read Mcounteren h"

definition r_time :: "hart \<Rightarrow> u64" where
  "r_time h = csr_read (Sup Time) h"

definition w_mstatus :: "u64 \<Rightarrow> hart \<Rightarrow> hart" where
  "w_mstatus x h = csr_write Mstatus x h"

definition w_mepc :: "u64 \<Rightarrow> hart \<Rightarrow> hart" where
  "w_mepc x h = csr_write Mepc x h"

definition w_sstatus :: "u64 \<Rightarrow> hart \<Rightarrow> hart" where
  "w_sstatus x h = csr_write (Sup Sstatus) x h"

definition w_sip :: "u64 \<Rightarrow> hart \<Rightarrow> hart" where
  "w_sip x h = csr_write Sip x h"

definition w_sie :: "u64 \<Rightarrow> hart \<Rightarrow> hart" where
  "w_sie x h = csr_write Sie x h"

definition w_mie :: "u64 \<Rightarrow> hart \<Rightarrow> hart" where
  "w_mie x h = csr_write Mie x h"

definition w_sepc :: "u64 \<Rightarrow> hart \<Rightarrow> hart" where
  "w_sepc x h = csr_write (Sup Sepc) x h"

definition w_medeleg :: "u64 \<Rightarrow> hart \<Rightarrow> hart" where
  "w_medeleg x h = csr_write Medeleg x h"

definition w_mideleg :: "u64 \<Rightarrow> hart \<Rightarrow> hart" where
  "w_mideleg x h = csr_write Mideleg x h"

definition w_stvec :: "u64 \<Rightarrow> hart \<Rightarrow> hart" where
  "w_stvec x h = csr_write (Sup Stvec) x h"

definition w_stimecmp :: "u64 \<Rightarrow> hart \<Rightarrow> hart" where
  "w_stimecmp x h = csr_write (Sup Stimecmp) x h"

definition w_menvcfg :: "u64 \<Rightarrow> hart \<Rightarrow> hart" where
  "w_menvcfg x h = csr_write Menvcfg x h"

definition w_pmpcfg0 :: "u64 \<Rightarrow> hart \<Rightarrow> hart" where
  "w_pmpcfg0 x h = csr_write Pmpcfg0 x h"

definition w_pmpaddr0 :: "u64 \<Rightarrow> hart \<Rightarrow> hart" where
  "w_pmpaddr0 x h = csr_write Pmpaddr0 x h"

definition w_satp :: "u64 \<Rightarrow> hart \<Rightarrow> hart" where
  "w_satp x h = csr_write (Sup Satp) x h"

definition w_mcounteren :: "u64 \<Rightarrow> hart \<Rightarrow> hart" where
  "w_mcounteren x h = csr_write Mcounteren x h"

definition r_sp :: "hart \<Rightarrow> u64" where
  "r_sp h = gpr h SP"

definition r_tp :: "hart \<Rightarrow> u64" where
  "r_tp h = gpr h TP"

definition w_tp :: "u64 \<Rightarrow> hart \<Rightarrow> hart" where
  "w_tp x h = set_reg TP x h"

definition r_ra :: "hart \<Rightarrow> u64" where
  "r_ra h = gpr h RA"

abbreviation (input) MSTATUS_MPP_MASK :: u64 where "MSTATUS_MPP_MASK \<equiv> 0x1800"
abbreviation (input) MSTATUS_MPP_S :: u64 where "MSTATUS_MPP_S \<equiv> 0x800"
abbreviation (input) SSTATUS_SPP :: u64 where "SSTATUS_SPP \<equiv> 0x100"
abbreviation (input) SSTATUS_SPIE :: u64 where "SSTATUS_SPIE \<equiv> 0x20"
abbreviation (input) SSTATUS_SIE :: u64 where "SSTATUS_SIE \<equiv> 2"
abbreviation (input) SIE_SEIE :: u64 where "SIE_SEIE \<equiv> 0x200"
abbreviation (input) SIE_STIE :: u64 where "SIE_STIE \<equiv> 0x20"
abbreviation (input) MIE_STIE :: u64 where "MIE_STIE \<equiv> 0x20"

definition hart_intr_on :: "hart \<Rightarrow> hart" where
  "hart_intr_on h = w_sstatus (r_sstatus h OR SSTATUS_SIE) h"

definition hart_intr_off :: "hart \<Rightarrow> hart" where
  "hart_intr_off h = w_sstatus (r_sstatus h AND NOT SSTATUS_SIE) h"

definition hart_intr_get :: "hart \<Rightarrow> bool" where
  "hart_intr_get h \<longleftrightarrow> r_sstatus h AND SSTATUS_SIE \<noteq> 0"

subsection \<open>start.c\<close>

definition timerinit :: "hart \<Rightarrow> hart" where
  "timerinit h =
     (let h = w_mie (r_mie h OR MIE_STIE) h;
          h = w_menvcfg (r_menvcfg h OR push_bit 63 1) h;
          h = w_mcounteren (r_mcounteren h OR 2) h
      in w_stimecmp (r_time h + 1000000) h)"

text \<open>\<^verbatim>\<open>int id\<close> truncates the hart number to 32 bits; \<^verbatim>\<open>w_tp\<close> extends its sign.\<close>

definition start :: "u64 \<Rightarrow> hart \<Rightarrow> hart" where
  "start main h =
     (let x = r_mstatus h;
          x = x AND NOT MSTATUS_MPP_MASK;
          x = x OR MSTATUS_MPP_S;
          h = w_mstatus x h;
          h = w_mepc main h;
          h = w_satp 0 h;
          h = w_medeleg 0xFFFF h;
          h = w_mideleg 0xFFFF h;
          h = w_sie (r_sie h OR SIE_SEIE OR SIE_STIE) h;
          h = w_pmpaddr0 0x3FFFFFFFFFFFFF h;
          h = w_pmpcfg0 0xF h;
          h = timerinit h;
          id = u64_to_i (r_mhartid h);
          h = w_tp (i2u64 id) h
      in mret h)"

subsection \<open>CPU numbers (proc.c)\<close>

definition cpuid :: "hart \<Rightarrow> i32" where
  "cpuid h = u64_to_i (r_tp h)"

definition mycpu :: "(nat \<Rightarrow> cpu) \<Rightarrow> hart \<Rightarrow> cpu" where
  "mycpu cs h = cs (nat (sint (cpuid h)))"

subsection \<open>Interrupt controller (plic.c) and UART set-up (uart.c)\<close>

abbreviation (input) PLIC :: u64 where "PLIC \<equiv> 0x0C000000"
abbreviation (input) UART0_IRQ :: nat where "UART0_IRQ \<equiv> 10"
abbreviation (input) VIRTIO0_IRQ :: nat where "VIRTIO0_IRQ \<equiv> 1"

definition PLIC_SENABLE :: "i32 \<Rightarrow> u64" where
  "PLIC_SENABLE hart = PLIC + 0x2080 + scast (hart * 0x100)"

definition PLIC_SPRIORITY :: "i32 \<Rightarrow> u64" where
  "PLIC_SPRIORITY hart = PLIC + 0x201000 + scast (hart * 0x2000)"

definition PLIC_SCLAIM :: "i32 \<Rightarrow> u64" where
  "PLIC_SCLAIM hart = PLIC + 0x201004 + scast (hart * 0x2000)"

definition plicinit :: "(u64 \<times> u32) list" where
  "plicinit = [(PLIC + of_nat UART0_IRQ * 4, 1), (PLIC + of_nat VIRTIO0_IRQ * 4, 1)]"

definition plicinithart :: "hart \<Rightarrow> (u64 \<times> u32) list" where
  "plicinithart h =
     (let hart = cpuid h in
      [(PLIC_SENABLE hart, push_bit UART0_IRQ 1 OR push_bit VIRTIO0_IRQ 1), (PLIC_SPRIORITY hart, 0)])"

definition plic_claim :: "(u64 \<Rightarrow> u32) \<Rightarrow> hart \<Rightarrow> i32" where
  "plic_claim regs h = (let hart = cpuid h in regs (PLIC_SCLAIM hart))"

definition plic_complete :: "i32 \<Rightarrow> hart \<Rightarrow> (u64 \<times> u32) list" where
  "plic_complete irq h = (let hart = cpuid h in [(PLIC_SCLAIM hart, irq)])"

abbreviation (input) IER :: nat where "IER \<equiv> 1"
abbreviation (input) FCR :: nat where "FCR \<equiv> 2"
abbreviation (input) LCR :: nat where "LCR \<equiv> 3"
abbreviation (input) LSR :: nat where "LSR \<equiv> 5"

definition uartinit :: "(nat \<times> u8) list" where
  "uartinit = [(IER, 0), (LCR, 0x80), (0, 3), (1, 0), (LCR, 3), (FCR, 1 OR push_bit 1 3), (IER, 2 OR 1)]"

definition uartgetc :: "(nat \<Rightarrow> u8) \<Rightarrow> i32" where
  "uartgetc regs = (if regs LSR AND 1 \<noteq> 0 then ucast (regs 0) else -1)"

subsection \<open>Properties\<close>

lemmas accessor_defs = r_mhartid_def r_mstatus_def r_sie_def r_mie_def r_menvcfg_def r_mcounteren_def r_time_def
  w_mstatus_def w_mepc_def w_satp_def w_medeleg_def w_mideleg_def w_sie_def w_pmpaddr0_def w_pmpcfg0_def w_mie_def
  w_menvcfg_def w_mcounteren_def w_stimecmp_def w_tp_def

lemma mask_part: "(x AND NOT c OR d) AND e = (x AND (NOT c AND e)) OR (d AND e)" for x :: u64
  by (simp only: bit.conj_disj_distrib2 and.assoc)

lemma absorb: "(x AND c) OR c = c" "(x AND c) OR (c OR y) = c OR y" for x :: u64
  by (rule bit_word_eqI; auto simp: bit_or_iff bit_and_iff)+

lemma csr_write_simps [simp]:
  "gpr (csr_write c x h) = gpr h" "priv (csr_write c x h) = priv h" "pc (csr_write c x h) = pc h" "hmem (csr_write c x h) = hmem h"
  "c \<noteq> Sup Sstatus \<Longrightarrow> c \<noteq> Sie \<Longrightarrow> c \<noteq> Sip \<Longrightarrow> hcsr (csr_write c x h) = (hcsr h)(c := x)"
  "hcsr (csr_write Sie x h) = (hcsr h)(Mie := merge (hcsr h Mideleg) (hcsr h Mie) x)"
  by (simp_all add: csr_write_def Let_def)

lemma csr_read_simps [simp]:
  "c \<noteq> Sup Sstatus \<Longrightarrow> c \<noteq> Sie \<Longrightarrow> c \<noteq> Sip \<Longrightarrow> csr_read c h = hcsr h c"
  "csr_read Sie h = hcsr h Mie AND hcsr h Mideleg" "csr_read (Sup Sstatus) h = hcsr h Mstatus AND SSTATUS_VIEW"
  by (simp_all add: csr_read_def)

lemma mret_simps [simp]:
  "gpr (mret h) = gpr h" "pc (mret h) = hcsr h Mepc" "hmem (mret h) = hmem h"
  "hcsr (mret h) = (hcsr h)(Mstatus := hcsr h Mstatus AND NOT 0x1888 OR (if hcsr h Mstatus AND 0x80 \<noteq> 0 then 8 else 0) OR 0x80)"
  "hcsr h Mstatus AND 0x1800 = 0x800 \<Longrightarrow> priv (mret h) = Supervisor"
  by (simp_all add: mret_def Let_def)

lemmas start_simps = start_def timerinit_def Let_def accessor_defs

lemma start_regs:
  "pc (start main h) = main" "gpr (start main h) = (gpr h)(TP := i2u64 (u64_to_i (hcsr h Mhartid)))"
  "hcsr (start main h) (Sup Satp) = 0" "hcsr (start main h) (Sup Stimecmp) = hcsr h (Sup Time) + 1000000"
  "hcsr (start main h) Medeleg = 0xFFFF" "hcsr (start main h) Mideleg = 0xFFFF"
  "hcsr (start main h) Menvcfg = hcsr h Menvcfg OR push_bit 63 1" "hcsr (start main h) Mcounteren = hcsr h Mcounteren OR 2"
  by (simp_all add: start_simps)

lemma start_mode: "priv (start main h) = Supervisor"
proof -
  have "(hcsr h Mstatus AND NOT MSTATUS_MPP_MASK OR MSTATUS_MPP_S) AND 0x1800 = 0x800"
    unfolding mask_part by simp
  then show ?thesis by (simp add: start_simps)
qed

lemma start_mie: "hcsr (start main h) Mie = merge 0xFFFF (hcsr h Mie) ((hcsr h Mie AND 0xFFFF) OR SIE_SEIE OR SIE_STIE) OR MIE_STIE"
  by (simp add: start_simps)

lemma start_intr: "hart_intr_get (start main h) \<longleftrightarrow> hcsr h Mstatus AND SSTATUS_SIE \<noteq> 0"
  by (simp add: start_simps hart_intr_get_def r_sstatus_def)
    (simp add: SSTATUS_VIEW_def bit.conj_disj_distrib2 and.assoc)

lemma start_sie: "r_sie (start main h) AND (SIE_SEIE OR SIE_STIE) = SIE_SEIE OR SIE_STIE"
  by (simp add: r_sie_def csr_read_def start_regs start_mie merge_def)
    (simp add: bit.conj_disj_distrib2 and.assoc absorb)

lemma small_hartid: "(x :: u64) < 8 \<Longrightarrow> i2u64 (u64_to_i x) = x"
proof -
  assume "x < 8"
  then have "unat x < 8" by (simp add: word_less_nat_alt)
  then have "unat x \<in> {0, 1, 2, 3, 4, 5, 6, 7}" by auto
  then have "x \<in> {0, 1, 2, 3, 4, 5, 6, 7}" by (auto simp: word_unat_eq_iff)
  then show ?thesis by (auto simp: i2u64_def u64_to_i_def)
qed

text \<open>\<^bold>\<open>C17\<close> Every hart that starts in machine mode at \<^verbatim>\<open>_entry\<close> reaches \<^verbatim>\<open>main\<close> in
  supervisor mode, on a stack of its own, with its number in \<^verbatim>\<open>tp\<close>, addresses
  untranslated, all traps delegated to supervisor mode, external and timer interrupts enabled
  but not yet accepted, and a timer interrupt requested that supervisor mode may renew.\<close>

theorem boot_reaches_main:
  assumes "priv h = Machine" "hcsr h Mhartid < 8" "hcsr h Mstatus AND SSTATUS_SIE = 0"
  shows "\<exists>t. run (entry_code stack0 st spin) h = Some t \<and> pc t = st \<and>
    gpr t SP = stack0 + (hcsr h Mhartid + 1) * 4096 \<and>
    (let u = start main t in
     priv u = Supervisor \<and> pc u = main \<and> gpr u SP = gpr t SP \<and> cpuid u = ucast (hcsr h Mhartid) \<and>
     gpr u TP = hcsr h Mhartid \<and> (\<forall>k a. translate k u a = Some a) \<and>
     hcsr u Medeleg = 0xFFFF \<and> hcsr u Mideleg = 0xFFFF \<and>
     r_sie u AND (SIE_SEIE OR SIE_STIE) = SIE_SEIE OR SIE_STIE \<and> \<not> hart_intr_get u \<and>
     hcsr u (Sup Stimecmp) = hcsr h (Sup Time) + 1000000 \<and>
     bit (hcsr u Menvcfg) 63 \<and> bit (hcsr u Mcounteren) 1)"
proof -
  define t where "t = h\<lparr>gpr := (gpr h)(SP := stack0 + 4096 * (hcsr h Mhartid + 1), A0 := 4096 * (hcsr h Mhartid + 1),
    A1 := hcsr h Mhartid + 1, RA := spin), pc := st\<rparr>"
  have "run (entry_code stack0 st spin) h = Some t"
    by (simp add: entry_code_def t_def set_reg_def fun_upd_twist)
  moreover have f: "hcsr t = hcsr h" "gpr t SP = stack0 + 4096 * (hcsr h Mhartid + 1)" "pc t = st" by (simp_all add: t_def)
  moreover have "translate k (start main t) a = Some a" for k a
    by (simp add: translate_def start_regs)
  moreover have "cpuid (start main t) = ucast (hcsr h Mhartid)"
    using small_hartid [OF assms(2)] by (simp add: cpuid_def r_tp_def start_regs f u64_to_i_def)
  ultimately show ?thesis
    using assms(3) small_hartid [OF assms(2)] start_sie [of main t]
    by (intro exI [of _ t]) (simp add: Let_def start_regs start_mode start_sie start_intr bit_or_iff mult.commute)
qed

theorem boot_reaches_main_witness:
  "\<exists>t. run (entry_code 0x80007000 9 8) ((demo_hart (\<lambda>_. 0))\<lparr>priv := Machine, hcsr := (\<lambda>_. 0)(Mhartid := 2)\<rparr>) = Some t \<and>
     gpr t SP = 0x8000A000 \<and> priv (start 0x80000100 t) = Supervisor \<and> pc (start 0x80000100 t) = 0x80000100 \<and>
     cpuid (start 0x80000100 t) = 2"
proof -
  let ?h = "(demo_hart (\<lambda>_. 0))\<lparr>priv := Machine, hcsr := (\<lambda>_. 0)(Mhartid := 2)\<rparr>"
  have "priv ?h = Machine" "hcsr ?h Mhartid < 8" "hcsr ?h Mstatus AND SSTATUS_SIE = 0" by simp_all
  from boot_reaches_main [OF this, of "0x80007000" 9 8 "0x80000100"] show ?thesis
    unfolding Let_def by (elim exE conjE) (intro exI conjI, assumption, simp_all)
qed

end
