(* ===== verification/Ulib.thy ===== *)
theory Ulib
  imports Printf
begin

text \<open>
  The user-level C library: \<^verbatim>\<open>user/ulib.c\<close> and \<^verbatim>\<open>user/printf.c\<close>. User programs reach
  the kernel through the stubs that \<^verbatim>\<open>usys.pl\<close> generates; these are the fields of a
  record of functions on a state \<^verbatim>\<open>'w\<close>, an argument of every routine that calls one. A
  read gives the bytes read, or nothing when it returns a negative number; \<^verbatim>\<open>exec\<close> tells
  whether the program was replaced; after a \<^verbatim>\<open>fork\<close> a run goes on as the process it
  returns in. Strings are byte lists; a list's end reads as NUL.
\<close>

unbundle bit_operations_syntax

subsection \<open>The system call interface and program results\<close>

record 'w usys =
  u_read :: "i32 \<Rightarrow> nat \<Rightarrow> 'w \<Rightarrow> u8 list option \<times> 'w"
  u_write :: "i32 \<Rightarrow> u8 list \<Rightarrow> 'w \<Rightarrow> i32 \<times> 'w"
  u_open :: "u8 list \<Rightarrow> i32 \<Rightarrow> 'w \<Rightarrow> i32 \<times> 'w"
  u_close :: "i32 \<Rightarrow> 'w \<Rightarrow> 'w"
  u_fstat :: "i32 \<Rightarrow> 'w \<Rightarrow> (i16 \<times> u32 \<times> u64) option \<times> 'w"
  u_kill :: "i32 \<Rightarrow> 'w \<Rightarrow> i32 \<times> 'w"
  u_link :: "u8 list \<Rightarrow> u8 list \<Rightarrow> 'w \<Rightarrow> i32 \<times> 'w"
  u_unlink :: "u8 list \<Rightarrow> 'w \<Rightarrow> i32 \<times> 'w"
  u_mkdir :: "u8 list \<Rightarrow> 'w \<Rightarrow> i32 \<times> 'w"
  u_setpowermode :: "i32 \<Rightarrow> i32 \<Rightarrow> 'w \<Rightarrow> i32 \<times> 'w"
  u_setcpulimit :: "i32 \<Rightarrow> i32 \<Rightarrow> 'w \<Rightarrow> i32 \<times> 'w"
  u_getcputicks :: "i32 \<Rightarrow> 'w \<Rightarrow> i32 \<times> 'w"
  u_setusagelimit :: "i32 \<Rightarrow> i32 \<Rightarrow> 'w \<Rightarrow> i32 \<times> 'w"
  u_getusagestats :: "i32 \<Rightarrow> 'w \<Rightarrow> (u64 \<times> u64) option \<times> 'w"
  u_getsyshealth :: "'w \<Rightarrow> syshealth option \<times> 'w"
  u_proccost :: "nat \<Rightarrow> 'w \<Rightarrow> proccostinfo list option \<times> 'w"
  u_sbrk :: "i32 \<Rightarrow> i32 \<Rightarrow> 'w \<Rightarrow> u64 \<times> 'w"
  u_fork :: "'w \<Rightarrow> i32 \<times> 'w"
  u_exec :: "u8 list \<Rightarrow> u8 list list \<Rightarrow> 'w \<Rightarrow> bool \<times> 'w"
  u_wait :: "'w \<Rightarrow> i32 \<times> 'w"
  u_pipe :: "'w \<Rightarrow> (i32 \<times> i32) option \<times> 'w"
  u_dup :: "i32 \<Rightarrow> 'w \<Rightarrow> i32 \<times> 'w"
  u_chdir :: "u8 list \<Rightarrow> 'w \<Rightarrow> i32 \<times> 'w"
  u_mknod :: "u8 list \<Rightarrow> i16 \<Rightarrow> i16 \<Rightarrow> 'w \<Rightarrow> i32 \<times> 'w"

text \<open>A routine returns a value, exits, or has used up the fuel that bounds its loops.\<close>

datatype ('w, 'a) ures = Val 'a 'w | Exit i32 'w | NoFuel

fun ubnd :: "('w, 'a) ures \<Rightarrow> ('a \<Rightarrow> 'w \<Rightarrow> ('w, 'b) ures) \<Rightarrow> ('w, 'b) ures" where
  "ubnd (Val x w) f = f x w"
| "ubnd (Exit c w) f = Exit c w"
| "ubnd NoFuel f = NoFuel"

abbreviation (input) O_RDONLY :: i32 where "O_RDONLY \<equiv> 0"

definition start_u :: "('w \<Rightarrow> ('w, i32) ures) \<Rightarrow> 'w \<Rightarrow> ('w, unit) ures" where
  "start_u main w = ubnd (main w) (\<lambda>r w. Exit r w)"

subsection \<open>Strings and memory\<close>

fun strcpy :: "u8 list \<Rightarrow> u8 list \<Rightarrow> u8 list" where
  "strcpy s [] = 0 # tl s"
| "strcpy s (c # t) = c # (if c \<noteq> 0 then strcpy (tl s) t else tl s)"

fun strcmp :: "u8 list \<Rightarrow> u8 list \<Rightarrow> int" where
  "strcmp [] q = - uint (deref q)"
| "strcmp (c # p) q =
     (if c \<noteq> 0 \<and> c = deref q then strcmp p (tl q) else uint c - uint (deref q))"

fun strlen_u :: "u8 list \<Rightarrow> nat" where
  "strlen_u [] = 0"
| "strlen_u (c # cs) = (if c = 0 then 0 else Suc (strlen_u cs))"

definition memset_u :: "mem \<Rightarrow> u64 \<Rightarrow> u8 \<Rightarrow> u32 \<Rightarrow> mem" where
  "memset_u m dst c n = memset_loop m dst c 0 (unat n)"

text \<open>The position of the first \<^verbatim>\<open>c\<close> before the end of the string.\<close>

fun strchr :: "u8 list \<Rightarrow> u8 \<Rightarrow> nat option" where
  "strchr [] c = None"
| "strchr (x # s) c = (if x = 0 then None else if x = c then Some 0 else map_option Suc (strchr s c))"

fun gets_loop :: "'w usys \<Rightarrow> nat \<Rightarrow> u8 list \<Rightarrow> 'w \<Rightarrow> u8 list \<times> 'w" where
  "gets_loop sys 0 buf w = (buf, w)"
| "gets_loop sys (Suc n) buf w =
     (case u_read sys 0 1 w of
        (None, w) \<Rightarrow> (buf, w)
      | (Some [], w) \<Rightarrow> (buf, w)
      | (Some (c # _), w) \<Rightarrow>
          if c = 10 \<or> c = 13 then (buf @ [c], w) else gets_loop sys n (buf @ [c]) w)"

definition gets :: "'w usys \<Rightarrow> i32 \<Rightarrow> 'w \<Rightarrow> u8 list \<times> 'w" where
  "gets sys nbuf w = gets_loop sys (nat (sint nbuf - 1)) [] w"

definition stat_u :: "'w usys \<Rightarrow> u8 list \<Rightarrow> 'w \<Rightarrow> (i16 \<times> u32 \<times> u64) option \<times> 'w" where
  "stat_u sys n w =
     (case u_open sys n O_RDONLY w of (fd, w) \<Rightarrow>
      if fd <s 0 then (None, w)
      else case u_fstat sys fd w of (r, w) \<Rightarrow> (r, u_close sys fd w))"

definition digit :: "u8 \<Rightarrow> bool" where
  "digit c \<longleftrightarrow> 48 \<le> c \<and> c \<le> 57"

fun atoi_loop :: "i32 \<Rightarrow> u8 list \<Rightarrow> i32" where
  "atoi_loop n [] = n"
| "atoi_loop n (c # s) = (if digit c then atoi_loop (n * 10 + ucast c - 48) s else n)"

definition atoi :: "u8 list \<Rightarrow> i32" where
  "atoi s = atoi_loop 0 s"

definition memmove_u :: "mem \<Rightarrow> u64 \<Rightarrow> u64 \<Rightarrow> i32 \<Rightarrow> mem" where
  "memmove_u m dst src n =
     (if src > dst then memmove_fwd m dst src (nat (sint n))
      else memmove_bwd m (dst + scast n) (src + scast n) (nat (sint n)))"

definition memcmp_u :: "mem \<Rightarrow> u64 \<Rightarrow> u64 \<Rightarrow> u32 \<Rightarrow> int" where
  "memcmp_u m s1 s2 n = memcmp_loop m s1 s2 (unat n)"

definition memcpy_u :: "mem \<Rightarrow> u64 \<Rightarrow> u64 \<Rightarrow> u32 \<Rightarrow> mem" where
  "memcpy_u m dst src n = memmove_u m dst src n"

definition sbrk_u :: "'w usys \<Rightarrow> i32 \<Rightarrow> 'w \<Rightarrow> u64 \<times> 'w" where
  "sbrk_u sys n w = u_sbrk sys n 1 w"

definition sbrklazy :: "'w usys \<Rightarrow> i32 \<Rightarrow> 'w \<Rightarrow> u64 \<times> 'w" where
  "sbrklazy sys n w = u_sbrk sys n 2 w"

subsection \<open>Formatted output (printf.c)\<close>

text \<open>\<^verbatim>\<open>putc\<close> writes one byte; the formatting routines give the bytes they put.\<close>

definition digits_u :: "u8 list" where
  "digits_u = bytes_of ''0123456789ABCDEF''"

function digit_buf_u :: "nat \<Rightarrow> nat \<Rightarrow> u8 list" where
  "digit_buf_u base x =
     digits_u ! (x mod base) # (if x div base \<noteq> 0 \<and> 1 < base then digit_buf_u base (x div base) else [])"
  by pat_completeness auto
termination
proof (relation "measure snd")
  fix base x :: nat assume a: "x div base \<noteq> 0 \<and> 1 < base"
  then have "0 < x" by (cases x) auto
  with a show "((base, x div base), base, x) \<in> measure snd" by (simp add: div_less_dividend)
qed simp

declare digit_buf_u.simps [simp del]

definition printint_u :: "u64 \<Rightarrow> nat \<Rightarrow> bool \<Rightarrow> u8 list" where
  "printint_u xx base sign =
     (let neg = (sign \<and> xx <s 0); x = (if neg then - xx else xx)
      in rev (digit_buf_u base (unat x) @ (if neg then [of_char (CHR ''-'')] else [])))"

fun printptr_u_loop :: "nat \<Rightarrow> u64 \<Rightarrow> u8 list" where
  "printptr_u_loop 0 x = []"
| "printptr_u_loop (Suc n) x = digits_u ! unat (drop_bit 60 x) # printptr_u_loop n (push_bit 4 x)"

definition printptr_u :: "u64 \<Rightarrow> u8 list" where
  "printptr_u x = bytes_of ''0x'' @ printptr_u_loop 16 x"

text \<open>A conversion character with the format after it: how many more characters it takes,
  whether it takes an argument, and what it puts.\<close>

definition vconv :: "u8 \<Rightarrow> u8 list \<Rightarrow> va list \<Rightarrow> nat \<times> bool \<times> u8 list" where
  "vconv c0 f ap =
     (let c1 = deref f;
          c2 = (if c1 \<noteq> 0 then deref (tl f) else 0);
          d = ch (CHR ''d''); l = ch (CHR ''l''); u = ch (CHR ''u''); x = ch (CHR ''x'')
      in if c0 = d then (0, True, printint_u (va_int ap) 10 True)
         else if c0 = l \<and> c1 = d then (1, True, printint_u (va_u64 ap) 10 True)
         else if c0 = l \<and> c1 = l \<and> c2 = d then (2, True, printint_u (va_u64 ap) 10 True)
         else if c0 = u then (0, True, printint_u (va_u32 ap) 10 False)
         else if c0 = l \<and> c1 = u then (1, True, printint_u (va_u64 ap) 10 False)
         else if c0 = l \<and> c1 = l \<and> c2 = u then (2, True, printint_u (va_u64 ap) 10 False)
         else if c0 = x then (0, True, printint_u (va_u32 ap) 16 False)
         else if c0 = l \<and> c1 = x then (1, True, printint_u (va_u64 ap) 16 False)
         else if c0 = l \<and> c1 = l \<and> c2 = x then (2, True, printint_u (va_u64 ap) 16 False)
         else if c0 = ch (CHR ''p'') then (0, True, printptr_u (va_u64 ap))
         else if c0 = ch (CHR ''c'') then (0, True, [ucast (va_u64 ap)])
         else if c0 = ch (CHR ''s'') then (0, True, va_str ap)
         else if c0 = ch (CHR ''%'') then (0, False, [ch (CHR ''%'')])
         else (0, False, [ch (CHR ''%''), c0]))"

text \<open>The loop of \<^verbatim>\<open>vprintf\<close>; the flag is \<^verbatim>\<open>state == '%'\<close>.\<close>

function vformat :: "bool \<Rightarrow> u8 list \<Rightarrow> va list \<Rightarrow> u8 list" where
  "vformat st [] ap = []"
| "vformat False (c # f) ap =
     (if c = 0 then [] else if c = ch (CHR ''%'') then vformat True f ap else c # vformat False f ap)"
| "vformat True (c # f) ap =
     (if c = 0 then []
      else case vconv c f ap of (n, pop, out) \<Rightarrow>
        out @ vformat False (drop n f) (if pop then tl ap else ap))"
  by pat_completeness auto
termination
  by (relation "measure (\<lambda>(st, f, ap). length f)") auto

fun puts_u :: "'w usys \<Rightarrow> i32 \<Rightarrow> u8 list \<Rightarrow> 'w \<Rightarrow> 'w" where
  "puts_u sys fd [] w = w"
| "puts_u sys fd (c # cs) w = puts_u sys fd cs (snd (u_write sys fd [c] w))"

definition vprintf :: "'w usys \<Rightarrow> i32 \<Rightarrow> string \<Rightarrow> va list \<Rightarrow> 'w \<Rightarrow> 'w" where
  "vprintf sys fd fmt ap w = puts_u sys fd (vformat False (bytes_of fmt) ap) w"

definition fprintf :: "'w usys \<Rightarrow> i32 \<Rightarrow> string \<Rightarrow> va list \<Rightarrow> 'w \<Rightarrow> 'w" where
  "fprintf sys fd fmt ap w = vprintf sys fd fmt ap w"

definition printf_u :: "'w usys \<Rightarrow> string \<Rightarrow> va list \<Rightarrow> 'w \<Rightarrow> 'w" where
  "printf_u sys fmt ap w = vprintf sys 1 fmt ap w"

subsection \<open>Numbers, printed and read back\<close>

text \<open>The decimal digits of a number, most significant first.\<close>

fun decimal :: "nat \<Rightarrow> u8 list" where
  "decimal n = (if n < 10 then [48 + of_nat n] else decimal (n div 10) @ [48 + of_nat (n mod 10)])"

declare decimal.simps [simp del]

lemma digits_u_nth: "k < 10 \<Longrightarrow> digits_u ! k = 48 + of_nat k"
proof -
  assume "k < 10"
  moreover have "list_all (\<lambda>k. digits_u ! k = 48 + of_nat k) [0..<10]"
    by code_simp
  ultimately show ?thesis by (simp add: list_all_iff)
qed

lemma digit_buf_u_decimal: "rev (digit_buf_u 10 n) = decimal n"
proof (induction n rule: decimal.induct)
  case (1 n)
  then show ?case
    by (cases "n < 10") (simp_all add: digit_buf_u.simps [of 10 n] decimal.simps [of n] digits_u_nth div_eq_0_iff)
qed

lemma printint_u_decimal:
  "printint_u xx 10 True = (if xx <s 0 then of_char (CHR ''-'') # decimal (unat (- xx)) else decimal (unat xx))"
  by (simp add: printint_u_def digit_buf_u_decimal Let_def)

lemma atoi_loop_decimal: "atoi_loop 0 (decimal n @ s) = atoi_loop (of_nat n) s"
proof (induction n arbitrary: s rule: decimal.induct)
  case (1 n)
  have d: "digit (48 + of_nat k)" "ucast (48 + of_nat k :: u8) = (48 + of_nat k :: i32)" if "k < 10" for k
  proof -
    have "list_all (\<lambda>k. digit (48 + of_nat k) \<and> ucast (48 + of_nat k :: u8) = (48 + of_nat k :: i32)) [0..<10]"
      by code_simp
    with that show "digit (48 + of_nat k)" "ucast (48 + of_nat k :: u8) = (48 + of_nat k :: i32)"
      by (simp_all add: list_all_iff)
  qed
  show ?case
  proof (cases "n < 10")
    case True
    then show ?thesis by (simp add: decimal.simps [of n] d)
  next
    case False
    have "of_nat n = (of_nat (n div 10 * 10 + n mod 10) :: i32)" by simp
    then have "(of_nat (n div 10) * 10 + of_nat (n mod 10) :: i32) = of_nat n" unfolding of_nat_add of_nat_mult by simp
    with False show ?thesis using 1 by (simp add: decimal.simps [of n] d)
  qed
qed

lemma sint_i2u64 [simp]: "sint (i2u64 x) = sint x"
  unfolding i2u64_def by (rule sint_up_scast) (simp add: is_up)

lemma i2u64_nonneg: "\<not> x <s 0 \<Longrightarrow> int (unat (i2u64 x)) = sint x"
  using uint_sint_64 [of "i2u64 x"] by (simp add: word_sless_alt)

text \<open>\<^bold>\<open>C34\<close> A number that is not negative is read back by \<^verbatim>\<open>atoi\<close> from what \<^verbatim>\<open>%d\<close>
  prints; a sign is not read, so a negative one is read as 0.\<close>

theorem atoi_printint: "atoi (printint_u (i2u64 x) 10 True) = (if x <s 0 then 0 else x)"
proof (cases "x <s 0")
  case True
  then have "i2u64 x <s 0" by (simp add: word_sless_alt)
  with True show ?thesis by (simp add: printint_u_decimal atoi_def digit_def)
next
  case False
  then have "\<not> i2u64 x <s 0" by (simp add: word_sless_alt)
  moreover have "(of_nat (unat (i2u64 x)) :: i32) = of_int (sint x)"
    using i2u64_nonneg [OF False] by (metis of_int_of_nat_eq)
  ultimately show ?thesis using False atoi_loop_decimal [of "unat (i2u64 x)" "[]"]
    by (simp add: printint_u_decimal atoi_def)
qed

end
