(* ===== verification/Grep.thy ===== *)
theory Grep
  imports Ulib
begin

text \<open>
  \<^verbatim>\<open>user/grep.c\<close>: the regular expression matcher, the loop that cuts the input into lines
  through a 1024-byte buffer, and \<^verbatim>\<open>main\<close>. The matcher is proved against the language of
  the pattern, the loop against the list of complete lines of the file, however the reads cut
  the file into pieces.
\<close>

subsection \<open>The matcher\<close>

abbreviation (input) c_star :: u8 where "c_star \<equiv> 42"
abbreviation (input) c_dot :: u8 where "c_dot \<equiv> 46"
abbreviation (input) c_dollar :: u8 where "c_dollar \<equiv> 36"
abbreviation (input) c_caret :: u8 where "c_caret \<equiv> 94"
abbreviation (input) c_nl :: u8 where "c_nl \<equiv> 10"

function (sequential) matchhere :: "u8 list \<Rightarrow> u8 list \<Rightarrow> bool"
  and matchstar :: "u8 \<Rightarrow> u8 list \<Rightarrow> u8 list \<Rightarrow> bool" where
  "matchhere [] tx = True"
| "matchhere (c # re) tx =
     (if deref re = c_star then matchstar c (tl re) tx
      else if c = c_dollar \<and> re = [] then tx = []
      else if tx \<noteq> [] \<and> (c = c_dot \<or> c = hd tx) then matchhere re (tl tx)
      else False)"
| "matchstar c re tx =
     (if matchhere re tx then True
      else if tx \<noteq> [] \<and> (hd tx = c \<or> c = c_dot) then matchstar c re (tl tx)
      else False)"
  by pat_completeness auto
termination
  by (relation "measures [\<lambda>x. case x of Inl (re, tx) \<Rightarrow> 2 * length re | Inr (c, re, tx) \<Rightarrow> 2 * length re + 1,
      \<lambda>x. case x of Inl (re, tx) \<Rightarrow> length tx | Inr (c, re, tx) \<Rightarrow> length tx]")
    (auto simp: deref_def neq_Nil_conv split: list.splits)

declare matchhere.simps [simp del] matchstar.simps [simp del]

fun match_loop :: "u8 list \<Rightarrow> u8 list \<Rightarrow> bool" where
  "match_loop re [] = matchhere re []"
| "match_loop re (t # tx) = (if matchhere re (t # tx) then True else match_loop re tx)"

definition match :: "u8 list \<Rightarrow> u8 list \<Rightarrow> bool" where
  "match re tx = (if deref re = c_caret then matchhere (tl re) tx else match_loop re tx)"

subsection \<open>Lines through a buffer\<close>

text \<open>The inner loop: the lines the buffer holds, and what is left from \<^verbatim>\<open>p\<close> on. The
  buffer's contents end with the NUL stored at \<^verbatim>\<open>buf[m]\<close>.\<close>

function scan :: "u8 list \<Rightarrow> u8 list \<Rightarrow> u8 list list \<times> u8 list" where
  "scan re p =
     (case strchr p c_nl of
        None \<Rightarrow> ([], p)
      | Some q \<Rightarrow>
          let (out, left) = scan re (drop (Suc q) p) in
          (if match re (take q p) then take (Suc q) p # out else out, left))"
  by pat_completeness auto
termination
proof (relation "measure (\<lambda>(re, p). length p)")
  fix re p q assume "strchr p c_nl = Some q"
  then have "p \<noteq> []" by auto
  then show "((re, drop (Suc q) p), re, p) \<in> measure (\<lambda>(re, p). length p)" by auto
qed simp

declare scan.simps [simp del]

fun write_all :: "'w usys \<Rightarrow> i32 \<Rightarrow> u8 list list \<Rightarrow> 'w \<Rightarrow> 'w" where
  "write_all sys fd [] w = w"
| "write_all sys fd (l # ls) w = write_all sys fd ls (snd (u_write sys fd l w))"

text \<open>The outer loop; the second argument is the \<^verbatim>\<open>m\<close> bytes at the start of the buffer.\<close>

fun grep_loop :: "nat \<Rightarrow> 'w usys \<Rightarrow> u8 list \<Rightarrow> i32 \<Rightarrow> u8 list \<Rightarrow> 'w \<Rightarrow> ('w, unit) ures" where
  "grep_loop 0 sys re fd buf w = NoFuel"
| "grep_loop (Suc n) sys re fd buf w =
     (case u_read sys fd (1024 - length buf - 1) w of
        (None, w) \<Rightarrow> Val () w
      | (Some [], w) \<Rightarrow> Val () w
      | (Some xs, w) \<Rightarrow>
          let (out, left) = scan re (buf @ xs)
          in grep_loop n sys re fd left (write_all sys 1 out w))"

definition grep :: "nat \<Rightarrow> 'w usys \<Rightarrow> u8 list \<Rightarrow> i32 \<Rightarrow> 'w \<Rightarrow> ('w, unit) ures" where
  "grep fuel sys re fd w = grep_loop fuel sys re fd [] w"

fun grep_files :: "nat \<Rightarrow> 'w usys \<Rightarrow> u8 list \<Rightarrow> u8 list list \<Rightarrow> 'w \<Rightarrow> ('w, unit) ures" where
  "grep_files fuel sys re [] w = Exit 0 w"
| "grep_files fuel sys re (f # fs) w =
     (case u_open sys f O_RDONLY w of (fd, w) \<Rightarrow>
      if fd <s 0 then Exit 1 (printf_u sys (''grep: cannot open %s'' @ [CHR 0x0A]) [VStr f] w)
      else ubnd (grep fuel sys re fd w) (\<lambda>_ w. grep_files fuel sys re fs (u_close sys fd w)))"

definition grep_main :: "nat \<Rightarrow> 'w usys \<Rightarrow> u8 list list \<Rightarrow> 'w \<Rightarrow> ('w, unit) ures" where
  "grep_main fuel sys argv w =
     (if length argv \<le> 1 then Exit 1 (fprintf sys 2 (''usage: grep pattern [file ...]'' @ [CHR 0x0A]) [] w)
      else let pattern = argv ! 1 in
        if length argv \<le> 2 then ubnd (grep fuel sys pattern 0 w) (\<lambda>_ w. Exit 0 w)
        else grep_files fuel sys pattern (drop 2 argv) w)"

subsection \<open>The language of a pattern\<close>

datatype item = One u8 | Many u8 | Eol

function (sequential) items :: "u8 list \<Rightarrow> item list" where
  "items [] = []"
| "items (c # re) =
     (if deref re = c_star then Many c # items (tl re)
      else if c = c_dollar \<and> re = [] then [Eol]
      else One c # items re)"
  by pat_completeness auto
termination by (relation "measure length") auto

definition fits :: "u8 \<Rightarrow> u8 \<Rightarrow> bool" where
  "fits c t \<longleftrightarrow> c = c_dot \<or> c = t"

fun lang :: "item list \<Rightarrow> u8 list set" where
  "lang [] = {[]}"
| "lang (One c # is) = {t # w | t w. fits c t \<and> w \<in> lang is}"
| "lang (Many c # is) = {u @ w | u w. (\<forall>t \<in> set u. fits c t) \<and> w \<in> lang is}"
| "lang (Eol # is) = lang is"

definition here :: "item list \<Rightarrow> u8 list \<Rightarrow> bool" where
  "here is tx \<longleftrightarrow> (\<exists>w post. tx = w @ post \<and> w \<in> lang is \<and> (Eol \<in> set is \<longrightarrow> post = []))"

lemma here_Nil: "here [] tx"
  by (simp add: here_def)

lemma here_Eol: "here [Eol] tx \<longleftrightarrow> tx = []"
  by (auto simp: here_def)

lemma hereI: "w \<in> lang is \<Longrightarrow> (Eol \<in> set is \<Longrightarrow> post = []) \<Longrightarrow> here is (w @ post)"
  by (auto simp: here_def)

lemma hereE:
  assumes "here is tx"
  obtains w post where "tx = w @ post" "w \<in> lang is" "Eol \<in> set is \<Longrightarrow> post = []"
  using assms by (auto simp: here_def)

lemma here_One: "here (One c # is) tx \<longleftrightarrow> tx \<noteq> [] \<and> fits c (hd tx) \<and> here is (tl tx)"
proof
  assume "here (One c # is) tx"
  then obtain w post where "tx = w @ post" "w \<in> lang (One c # is)" "Eol \<in> set (One c # is) \<Longrightarrow> post = []" by (rule hereE) blast
  then obtain t v where "tx = t # (v @ post)" "fits c t" "v \<in> lang is" "Eol \<in> set is \<Longrightarrow> post = []" by auto
  then show "tx \<noteq> [] \<and> fits c (hd tx) \<and> here is (tl tx)" using hereI by simp
next
  assume a: "tx \<noteq> [] \<and> fits c (hd tx) \<and> here is (tl tx)"
  then obtain v post where v: "tl tx = v @ post" "v \<in> lang is" "Eol \<in> set is \<Longrightarrow> post = []" by (elim conjE hereE) blast
  have "here (One c # is) ((hd tx # v) @ post)" using a v by (intro hereI) auto
  then show "here (One c # is) tx" using a v(1) by (cases tx) auto
qed

lemma here_Many_split: "here (Many c # is) tx \<longleftrightarrow> (\<exists>u v. tx = u @ v \<and> (\<forall>t \<in> set u. fits c t) \<and> here is v)"
proof
  assume "here (Many c # is) tx"
  then obtain w post where "tx = w @ post" "w \<in> lang (Many c # is)" "Eol \<in> set (Many c # is) \<Longrightarrow> post = []" by (rule hereE) blast
  then obtain u v where "tx = u @ (v @ post)" "\<forall>t \<in> set u. fits c t" "v \<in> lang is" "Eol \<in> set is \<Longrightarrow> post = []" by auto
  then show "\<exists>u v. tx = u @ v \<and> (\<forall>t \<in> set u. fits c t) \<and> here is v" using hereI by blast
next
  assume "\<exists>u v. tx = u @ v \<and> (\<forall>t \<in> set u. fits c t) \<and> here is v"
  then obtain u v post where v: "tx = u @ (v @ post)" "\<forall>t \<in> set u. fits c t" "v \<in> lang is" "Eol \<in> set is \<Longrightarrow> post = []"
    by (elim exE conjE hereE) blast
  have "here (Many c # is) ((u @ v) @ post)" using v(2-4) by (intro hereI) auto
  then show "here (Many c # is) tx" using v(1) by simp
qed

lemma here_Many: "here (Many c # is) tx \<longleftrightarrow> here is tx \<or> (tx \<noteq> [] \<and> fits c (hd tx) \<and> here (Many c # is) (tl tx))"
proof (cases tx)
  case Nil
  then show ?thesis by (simp add: here_Many_split)
next
  case (Cons t ts)
  have "(\<exists>u v. t # ts = u @ v \<and> (\<forall>x \<in> set u. fits c x) \<and> here is v) \<longleftrightarrow>
      here is (t # ts) \<or> (fits c t \<and> (\<exists>u v. ts = u @ v \<and> (\<forall>x \<in> set u. fits c x) \<and> here is v))" (is "?l \<longleftrightarrow> ?r")
  proof
    assume ?l
    then obtain u v where "t # ts = u @ v" "\<forall>x \<in> set u. fits c x" "here is v" by blast
    then show ?r by (cases u) auto
  next
    assume ?r
    then show ?l
    proof
      assume "here is (t # ts)"
      then show ?l by (intro exI [of _ "[]"] exI [of _ "t # ts"]) simp
    next
      assume "fits c t \<and> (\<exists>u v. ts = u @ v \<and> (\<forall>x \<in> set u. fits c x) \<and> here is v)"
      then obtain u v where "ts = u @ v" "\<forall>x \<in> set (t # u). fits c x" "here is v" by auto
      then show ?l by (intro exI [of _ "t # u"] exI [of _ v]) simp
    qed
  qed
  then show ?thesis by (simp add: here_Many_split Cons)
qed

lemma match_here:
  "matchhere re tx \<longleftrightarrow> here (items re) tx" "matchstar c re tx \<longleftrightarrow> here (Many c # items re) tx"
proof (induction re tx and c re tx rule: matchhere_matchstar.induct)
  case (1 tx)
  show ?case by (simp add: matchhere.simps here_Nil)
next
  case (2 c re tx)
  then show ?case
    by (subst matchhere.simps) (auto simp: here_Eol here_One fits_def)
next
  case (3 c re tx)
  then show ?case
    by (subst matchstar.simps, subst here_Many) (auto simp: fits_def)
qed

lemma match_loop_here: "match_loop re tx \<longleftrightarrow> (\<exists>pre post. tx = pre @ post \<and> here (items re) post)"
  by (induction tx) (auto simp: match_here Cons_eq_append_conv)

text \<open>\<^bold>\<open>C18\<close> The matcher decides the pattern's language: a line matches exactly when some
  part of it, at its start under a leading \<^verbatim>\<open>^\<close> and up to its end under a final
  \<^verbatim>\<open>$\<close>, is a word of the pattern, in which \<^verbatim>\<open>.\<close> stands for any character and a
  starred character for any number of them.\<close>

theorem match_language:
  "match re tx \<longleftrightarrow>
     (let anchored = (deref re = c_caret); is = items (if anchored then tl re else re) in
      \<exists>pre w post. tx = pre @ w @ post \<and> w \<in> lang is \<and> (anchored \<longrightarrow> pre = []) \<and> (Eol \<in> set is \<longrightarrow> post = []))"
  by (auto simp: match_def match_loop_here match_here here_def Let_def)

theorem match_language_witness:
  "match (bytes_of ''b*c$'') (bytes_of ''abbc'') \<and>
   (\<exists>pre w. bytes_of ''abbc'' = pre @ w \<and> w \<in> lang [Many 98, One 99, Eol])"
proof -
  have "match (bytes_of ''b*c$'') (bytes_of ''abbc'')"
    by (simp add: match_def bytes_of_def matchhere.simps matchstar.simps)
  then show ?thesis using match_language [of "bytes_of ''b*c$''" "bytes_of ''abbc''"] by (auto simp: bytes_of_def)
qed

subsection \<open>The lines of a file\<close>

text \<open>The complete lines of the input, without their newlines, and the bytes after the last.\<close>

function lines :: "u8 list \<Rightarrow> u8 list list \<times> u8 list" where
  "lines p =
     (case strchr p c_nl of None \<Rightarrow> ([], p)
      | Some q \<Rightarrow> let (ls, left) = lines (drop (Suc q) p) in (take q p # ls, left))"
  by pat_completeness auto
termination
proof (relation "measure length")
  fix p q assume "strchr p c_nl = Some q"
  then have "p \<noteq> []" by auto
  then show "(drop (Suc q) p, p) \<in> measure length" by auto
qed simp

declare lines.simps [simp del]

lemma strchr_None: "0 \<notin> set p \<Longrightarrow> strchr p c = None \<longleftrightarrow> c \<notin> set p"
  by (induction p) auto

lemma strchr_Some:
  "strchr p c = Some q \<Longrightarrow> q < length p \<and> p ! q = c \<and> c \<notin> set (take q p)"
  by (induction p arbitrary: q) (auto split: if_splits)

lemma strchr_append: "strchr p c = Some q \<Longrightarrow> strchr (p @ r) c = Some q"
  by (induction p arbitrary: q) (auto split: if_splits)

lemma scan_lines:
  "scan re p = (map (\<lambda>l. l @ [c_nl]) (filter (match re) (fst (lines p))), snd (lines p))"
proof (induction p rule: lines.induct)
  case (1 p)
  show ?case
  proof (cases "strchr p c_nl")
    case None
    then show ?thesis by (simp add: scan.simps [of re p] lines.simps [of p])
  next
    case (Some q)
    obtain ls left where l: "lines (drop (Suc q) p) = (ls, left)" by fastforce
    have "take (Suc q) p = take q p @ [c_nl]" using strchr_Some [OF Some] by (simp add: take_Suc_conv_app_nth)
    then show ?thesis
      using 1 [OF Some] by (simp add: scan.simps [of re p] lines.simps [of p] Some l)
  qed
qed

lemma lines_append:
  "0 \<notin> set p \<Longrightarrow> lines (p @ r) = (fst (lines p) @ fst (lines (snd (lines p) @ r)), snd (lines (snd (lines p) @ r)))"
proof (induction p rule: lines.induct)
  case (1 p)
  show ?case
  proof (cases "strchr p c_nl")
    case None
    then show ?thesis by (simp add: lines.simps [of p])
  next
    case (Some q)
    have q: "q < length p" using strchr_Some [OF Some] by simp
    have "0 \<notin> set (drop (Suc q) p)" using 1(2) by (meson in_set_dropD)
    from 1(1) [OF Some this] show ?thesis
      using q by (simp add: lines.simps [of p] lines.simps [of "p @ r"] Some strchr_append [OF Some] split_beta)
  qed
qed

lemma lines_left: "0 \<notin> set p \<Longrightarrow> c_nl \<notin> set (snd (lines p)) \<and> set (snd (lines p)) \<subseteq> set p"
proof (induction p rule: lines.induct)
  case (1 p)
  show ?case
  proof (cases "strchr p c_nl")
    case None
    then show ?thesis using 1(2) strchr_None [of p c_nl] by (simp add: lines.simps [of p])
  next
    case (Some q)
    have "0 \<notin> set (drop (Suc q) p)" using 1(2) by (meson in_set_dropD)
    from 1(1) [OF Some this] show ?thesis
      by (auto simp: lines.simps [of p] Some split_beta dest: in_set_dropD)
  qed
qed

text \<open>The lines of \<^verbatim>\<open>p\<close>, complete or not, are no longer than \<^verbatim>\<open>n\<close> bytes.\<close>

definition short_lines :: "nat \<Rightarrow> u8 list \<Rightarrow> bool" where
  "short_lines n p \<longleftrightarrow> (\<forall>l \<in> set (fst (lines p)) \<union> {snd (lines p)}. length l \<le> n)"

lemma short_lines_prefix:
  assumes "short_lines n (b @ r)" "c_nl \<notin> set b" "0 \<notin> set b"
  shows "length b \<le> n"
proof (cases "strchr (b @ r) c_nl")
  case None
  then show ?thesis using assms(1) by (simp add: short_lines_def lines.simps [of "b @ r"])
next
  case (Some q)
  have "length b \<le> q"
  proof (rule ccontr)
    assume "\<not> length b \<le> q"
    then have "(b @ r) ! q \<in> set b" by (simp add: nth_append)
    then show False using strchr_Some [OF Some] assms(2) by simp
  qed
  moreover have "length (take q (b @ r)) \<le> n"
    using assms(1) by (simp add: short_lines_def lines.simps [of "b @ r"] Some split_beta)
  moreover have "q < length (b @ r)" using strchr_Some [OF Some] by simp
  ultimately show ?thesis by simp
qed

subsection \<open>Reading and writing\<close>

text \<open>What the program relies on: a read of the file gives the next bytes of what is left of
  it, at most as many as were asked for, and none only at the end or when none were asked
  for; a write to standard output appends to it and leaves the file alone.\<close>

definition stream_io :: "'w usys \<Rightarrow> i32 \<Rightarrow> ('w \<Rightarrow> u8 list) \<Rightarrow> ('w \<Rightarrow> u8 list) \<Rightarrow> bool" where
  "stream_io sys fd rest out \<longleftrightarrow>
     (\<forall>k w. \<exists>xs w'. u_read sys fd k w = (Some xs, w') \<and> rest w = xs @ rest w' \<and> length xs \<le> k \<and>
        (xs = [] \<longrightarrow> k = 0 \<or> rest w = []) \<and> out w' = out w) \<and>
     (\<forall>l w. rest (snd (u_write sys 1 l w)) = rest w \<and> out (snd (u_write sys 1 l w)) = out w @ l)"

lemma stream_read:
  assumes "stream_io sys fd rest out"
  obtains xs w' where "u_read sys fd k w = (Some xs, w')" "rest w = xs @ rest w'" "length xs \<le> k"
    "xs = [] \<Longrightarrow> k = 0 \<or> rest w = []" "out w' = out w"
proof -
  have "\<exists>xs w'. u_read sys fd k w = (Some xs, w') \<and> rest w = xs @ rest w' \<and> length xs \<le> k \<and>
      (xs = [] \<longrightarrow> k = 0 \<or> rest w = []) \<and> out w' = out w"
    using assms unfolding stream_io_def by blast
  then show ?thesis using that by blast
qed

lemma write_all_stream:
  assumes "stream_io sys fd rest out"
  shows "rest (write_all sys 1 ls w) = rest w \<and> out (write_all sys 1 ls w) = out w @ concat ls"
  using assms by (induction ls arbitrary: w) (auto simp: stream_io_def)

definition selected :: "u8 list \<Rightarrow> u8 list \<Rightarrow> u8 list" where
  "selected re p = concat (map (\<lambda>l. l @ [c_nl]) (filter (match re) (fst (lines p))))"

lemma grep_loop_selects:
  assumes io: "stream_io sys fd rest out"
  shows "length (rest w) < n \<Longrightarrow> 0 \<notin> set (buf @ rest w) \<Longrightarrow> c_nl \<notin> set buf \<Longrightarrow> short_lines 1022 (buf @ rest w) \<Longrightarrow>
    \<exists>w'. grep_loop n sys re fd buf w = Val () w' \<and> out w' = out w @ selected re (buf @ rest w)"
proof (induction n arbitrary: buf w)
  case 0
  then show ?case by simp
next
  case (Suc n)
  have len: "length buf \<le> 1022" using short_lines_prefix [OF Suc.prems(4,3)] Suc.prems(2) by simp
  obtain xs w' where r: "u_read sys fd (1024 - length buf - 1) w = (Some xs, w')" "rest w = xs @ rest w'"
    "xs = [] \<Longrightarrow> 1024 - length buf - 1 = 0 \<or> rest w = []" "out w' = out w"
    by (rule stream_read [OF io, of "1024 - length buf - 1" w]) blast
  show ?case
  proof (cases xs)
    case Nil
    then have "rest w = []" using r(3) len by simp
    moreover have "strchr buf c_nl = None" using Suc.prems(2,3) by (simp add: strchr_None)
    ultimately show ?thesis using r Nil by (simp add: selected_def lines.simps [of buf])
  next
    case (Cons x xs')
    define ls where "ls = lines (buf @ xs)"
    define w1 where "w1 = write_all sys 1 (map (\<lambda>l. l @ [c_nl]) (filter (match re) (fst ls))) w'"
    have nz: "0 \<notin> set (buf @ xs)" using Suc.prems(2) r(2) by simp
    have ap: "lines (buf @ rest w) = (fst ls @ fst (lines (snd ls @ rest w')), snd (lines (snd ls @ rest w')))"
      using lines_append [OF nz, of "rest w'"] by (simp add: r(2) ls_def)
    have w1: "rest w1 = rest w'" "out w1 = out w @ concat (map (\<lambda>l. l @ [c_nl]) (filter (match re) (fst ls)))"
      using write_all_stream [OF io] r(4) by (simp_all add: w1_def)
    have left: "c_nl \<notin> set (snd ls)" "set (snd ls) \<subseteq> set (buf @ xs)" using lines_left [OF nz] by (auto simp: ls_def)
    have "\<exists>w''. grep_loop n sys re fd (snd ls) w1 = Val () w'' \<and> out w'' = out w1 @ selected re (snd ls @ rest w1)"
    proof (rule Suc.IH)
      show "length (rest w1) < n" using Suc.prems(1) r(2) Cons by (simp add: w1)
      show "0 \<notin> set (snd ls @ rest w1)" using Suc.prems(2) r(2) left(2) by (auto simp: w1)
      show "c_nl \<notin> set (snd ls)" by (rule left(1))
      show "short_lines 1022 (snd ls @ rest w1)" using Suc.prems(4) by (simp add: short_lines_def ap w1)
    qed
    moreover have "lines (buf @ x # xs') = ls" by (simp add: ls_def Cons)
    ultimately show ?thesis
      using r(1) Cons by (auto simp: scan_lines w1_def [symmetric] w1 selected_def ap)
  qed
qed

text \<open>\<^bold>\<open>C19\<close> \<^verbatim>\<open>grep\<close> prints exactly the complete lines of the file that match, in order
  and each once, however the reads cut the file into pieces, if the file has no NUL and no
  line longer than the buffer can hold; what follows the last newline is not looked at.\<close>

theorem grep_selects:
  assumes "stream_io sys fd rest out" "0 \<notin> set (rest w)" "short_lines 1022 (rest w)" "length (rest w) < fuel"
  shows "\<exists>w'. grep fuel sys re fd w = Val () w' \<and>
    out w' = out w @ concat (map (\<lambda>l. l @ [c_nl]) (filter (match re) (fst (lines (rest w)))))"
  using grep_loop_selects [OF assms(1), of w fuel "[]" re] assms(2-4) by (simp add: grep_def selected_def)

definition demo_usys :: "(u8 list \<times> u8 list) usys" where
  "demo_usys = \<lparr>u_read = (\<lambda>fd k (r, out). (Some (take (min k 3) r), (drop (min k 3) r, out))),
     u_write = (\<lambda>fd l (r, out). (of_nat (length l), (r, out @ l))), u_open = (\<lambda>_ _ w. (3, w)), u_close = (\<lambda>_ w. w),
     u_fstat = (\<lambda>_ w. (None, w)), u_kill = (\<lambda>_ w. (0, w)), u_link = (\<lambda>_ _ w. (0, w)), u_unlink = (\<lambda>_ w. (0, w)),
     u_mkdir = (\<lambda>_ w. (0, w)), u_setpowermode = (\<lambda>_ _ w. (0, w)), u_setcpulimit = (\<lambda>_ _ w. (0, w)),
     u_getcputicks = (\<lambda>_ w. (0, w)), u_setusagelimit = (\<lambda>_ _ w. (0, w)), u_getusagestats = (\<lambda>_ w. (None, w)),
     u_getsyshealth = (\<lambda>w. (None, w)), u_proccost = (\<lambda>_ w. (None, w)), u_sbrk = (\<lambda>_ _ w. (0, w)),
     u_fork = (\<lambda>w. (0, w)), u_exec = (\<lambda>_ _ w. (True, w)), u_wait = (\<lambda>w. (- 1, w)), u_pipe = (\<lambda>w. (None, w)),
     u_dup = (\<lambda>_ w. (0, w)), u_chdir = (\<lambda>_ w. (0, w)), u_mknod = (\<lambda>_ _ _ w. (0, w))\<rparr>"

lemma demo_usys_io: "stream_io demo_usys fd fst snd"
  by (auto simp: stream_io_def demo_usys_def min_def)

theorem grep_selects_witness:
  "\<exists>w'. grep 20 demo_usys (bytes_of ''^a.*c'') 0 (bytes_of ''axxc'' @ [10] @ bytes_of ''bac'' @ [10, 97], []) = Val () w' \<and>
     snd w' = bytes_of ''axxc'' @ [10]"
proof -
  let ?d = "bytes_of ''axxc'' @ [10] @ bytes_of ''bac'' @ [10, 97]"
  have l: "lines ?d = ([bytes_of ''axxc'', bytes_of ''bac''], [97])"
    by (simp add: bytes_of_def lines.simps)
  have m: "match (bytes_of ''^a.*c'') (bytes_of ''axxc'')" "\<not> match (bytes_of ''^a.*c'') (bytes_of ''bac'')"
    by (simp_all add: match_def bytes_of_def matchhere.simps matchstar.simps)
  have "0 \<notin> set (fst (?d, [] :: u8 list))" "short_lines 1022 (fst (?d, [] :: u8 list))" "length (fst (?d, [] :: u8 list)) < 20"
    by (simp add: bytes_of_def, simp only: short_lines_def fst_conv snd_conv l, simp add: bytes_of_def, simp add: bytes_of_def)
  note grep_selects [where re = "bytes_of ''^a.*c''" and rest = fst and out = snd, OF demo_usys_io [of 0] this]
  then obtain w' where
    g: "grep 20 demo_usys (bytes_of ''^a.*c'') 0 (?d, []) = Val () w'" and
    o: "snd w' = concat (map (\<lambda>l. l @ [c_nl]) (filter (match (bytes_of ''^a.*c'')) (fst (lines ?d))))"
    unfolding fst_conv snd_conv append_Nil by blast
  have "snd w' = bytes_of ''axxc'' @ [10]" unfolding o l fst_conv filter.simps using m by (simp only: if_True if_False list.map concat.simps append_Nil2)
  with g show ?thesis by blast
qed

end
