(* ===== verification/Uprogs.thy ===== *)
theory Uprogs
  imports Grep
begin

text \<open>
  The small user programs over the system call interface: \<^verbatim>\<open>wc\<close>, \<^verbatim>\<open>cat\<close>, \<^verbatim>\<open>echo\<close>,
  \<^verbatim>\<open>kill\<close>, \<^verbatim>\<open>ln\<close>, \<^verbatim>\<open>mkdir\<close>, \<^verbatim>\<open>rm\<close>, \<^verbatim>\<open>ls\<close>, and the programs for the accounting
  system calls, \<^verbatim>\<open>powerctl\<close>, \<^verbatim>\<open>usagectl\<close>, \<^verbatim>\<open>usagestat\<close>, \<^verbatim>\<open>syshealth\<close> and
  \<^verbatim>\<open>proccost\<close>. A program's \<^verbatim>\<open>main\<close> takes its arguments as a list of strings, the program
  name first; loops that read to the end of a file take fuel.
\<close>

unbundle bit_operations_syntax

definition nl :: string where
  "nl = [CHR 0x0A]"

definition vint :: "i32 \<Rightarrow> va" where
  "vint x = VInt (i2u64 x)"

subsection \<open>wc\<close>

record wcount =
  wc_l :: i32
  wc_w :: i32
  wc_c :: i32
  wc_inword :: bool

definition wc_byte :: "u8 \<Rightarrow> wcount \<Rightarrow> wcount" where
  "wc_byte b s =
     (let s = s\<lparr>wc_c := wc_c s + 1\<rparr>;
          s = (if b = 10 then s\<lparr>wc_l := wc_l s + 1\<rparr> else s)
      in if strchr [32, 13, 9, 10, 11] b \<noteq> None then s\<lparr>wc_inword := False\<rparr>
         else if \<not> wc_inword s then s\<lparr>wc_w := wc_w s + 1, wc_inword := True\<rparr>
         else s)"

fun wc_loop :: "nat \<Rightarrow> 'w usys \<Rightarrow> i32 \<Rightarrow> wcount \<Rightarrow> 'w \<Rightarrow> ('w, bool \<times> wcount) ures" where
  "wc_loop 0 sys fd s w = NoFuel"
| "wc_loop (Suc n) sys fd s w =
     (case u_read sys fd 512 w of
        (None, w) \<Rightarrow> Val (False, s) w
      | (Some [], w) \<Rightarrow> Val (True, s) w
      | (Some xs, w) \<Rightarrow> wc_loop n sys fd (fold wc_byte xs s) w)"

definition wc :: "nat \<Rightarrow> 'w usys \<Rightarrow> i32 \<Rightarrow> u8 list \<Rightarrow> 'w \<Rightarrow> ('w, unit) ures" where
  "wc fuel sys fd name w =
     ubnd (wc_loop fuel sys fd \<lparr>wc_l = 0, wc_w = 0, wc_c = 0, wc_inword = False\<rparr> w) (\<lambda>(ok, s) w.
     if \<not> ok then Exit 1 (printf_u sys (''wc: read error'' @ nl) [] w)
     else Val () (printf_u sys (''%d %d %d %s'' @ nl) [vint (wc_l s), vint (wc_w s), vint (wc_c s), VStr name] w))"

fun wc_files :: "nat \<Rightarrow> 'w usys \<Rightarrow> u8 list list \<Rightarrow> 'w \<Rightarrow> ('w, unit) ures" where
  "wc_files fuel sys [] w = Exit 0 w"
| "wc_files fuel sys (f # fs) w =
     (case u_open sys f O_RDONLY w of (fd, w) \<Rightarrow>
      if fd <s 0 then Exit 1 (printf_u sys (''wc: cannot open %s'' @ nl) [VStr f] w)
      else ubnd (wc fuel sys fd f w) (\<lambda>_ w. wc_files fuel sys fs (u_close sys fd w)))"

definition wc_main :: "nat \<Rightarrow> 'w usys \<Rightarrow> u8 list list \<Rightarrow> 'w \<Rightarrow> ('w, unit) ures" where
  "wc_main fuel sys argv w =
     (if length argv \<le> 1 then ubnd (wc fuel sys 0 [] w) (\<lambda>_ w. Exit 0 w)
      else wc_files fuel sys (tl argv) w)"

subsection \<open>cat and echo\<close>

fun cat :: "nat \<Rightarrow> 'w usys \<Rightarrow> i32 \<Rightarrow> 'w \<Rightarrow> ('w, unit) ures" where
  "cat 0 sys fd w = NoFuel"
| "cat (Suc k) sys fd w =
     (case u_read sys fd 512 w of
        (None, w) \<Rightarrow> Exit 1 (fprintf sys 2 (''cat: read error'' @ nl) [] w)
      | (Some [], w) \<Rightarrow> Val () w
      | (Some xs, w) \<Rightarrow>
          (case u_write sys 1 xs w of (r, w) \<Rightarrow>
           if r \<noteq> of_nat (length xs) then Exit 1 (fprintf sys 2 (''cat: write error'' @ nl) [] w)
           else cat k sys fd w))"

fun cat_files :: "nat \<Rightarrow> 'w usys \<Rightarrow> u8 list list \<Rightarrow> 'w \<Rightarrow> ('w, unit) ures" where
  "cat_files fuel sys [] w = Exit 0 w"
| "cat_files fuel sys (f # fs) w =
     (case u_open sys f O_RDONLY w of (fd, w) \<Rightarrow>
      if fd <s 0 then Exit 1 (fprintf sys 2 (''cat: cannot open %s'' @ nl) [VStr f] w)
      else ubnd (cat fuel sys fd w) (\<lambda>_ w. cat_files fuel sys fs (u_close sys fd w)))"

definition cat_main :: "nat \<Rightarrow> 'w usys \<Rightarrow> u8 list list \<Rightarrow> 'w \<Rightarrow> ('w, unit) ures" where
  "cat_main fuel sys argv w =
     (if length argv \<le> 1 then ubnd (cat fuel sys 0 w) (\<lambda>_ w. Exit 0 w)
      else cat_files fuel sys (tl argv) w)"

fun echo_args :: "'w usys \<Rightarrow> u8 list list \<Rightarrow> 'w \<Rightarrow> 'w" where
  "echo_args sys [] w = w"
| "echo_args sys (a # as) w =
     (let w = snd (u_write sys 1 (take (strlen_u a) a) w)
      in echo_args sys as (snd (u_write sys 1 (if as \<noteq> [] then [32] else [10]) w)))"

definition echo_main :: "'w usys \<Rightarrow> u8 list list \<Rightarrow> 'w \<Rightarrow> ('w, unit) ures" where
  "echo_main sys argv w = Exit 0 (echo_args sys (tl argv) w)"

subsection \<open>kill, ln, mkdir, rm\<close>

definition kill_main :: "'w usys \<Rightarrow> u8 list list \<Rightarrow> 'w \<Rightarrow> ('w, unit) ures" where
  "kill_main sys argv w =
     (if length argv < 2 then Exit 1 (fprintf sys 2 (''usage: kill pid...'' @ nl) [] w)
      else Exit 0 (fold (\<lambda>a w. snd (u_kill sys (atoi a) w)) (tl argv) w))"

definition ln_main :: "'w usys \<Rightarrow> u8 list list \<Rightarrow> 'w \<Rightarrow> ('w, unit) ures" where
  "ln_main sys argv w =
     (if length argv \<noteq> 3 then Exit 1 (fprintf sys 2 (''Usage: ln old new'' @ nl) [] w)
      else case u_link sys (argv ! 1) (argv ! 2) w of (r, w) \<Rightarrow>
        Exit 0 (if r <s 0 then fprintf sys 2 (''link %s %s: failed'' @ nl) [VStr (argv ! 1), VStr (argv ! 2)] w else w))"

fun mkdir_loop :: "'w usys \<Rightarrow> u8 list list \<Rightarrow> 'w \<Rightarrow> 'w" where
  "mkdir_loop sys [] w = w"
| "mkdir_loop sys (a # as) w =
     (case u_mkdir sys a w of (r, w) \<Rightarrow>
      if r <s 0 then fprintf sys 2 (''mkdir: %s failed to create'' @ nl) [VStr a] w
      else mkdir_loop sys as w)"

definition mkdir_main :: "'w usys \<Rightarrow> u8 list list \<Rightarrow> 'w \<Rightarrow> ('w, unit) ures" where
  "mkdir_main sys argv w =
     (if length argv < 2 then Exit 1 (fprintf sys 2 (''Usage: mkdir files...'' @ nl) [] w)
      else Exit 0 (mkdir_loop sys (tl argv) w))"

fun rm_loop :: "'w usys \<Rightarrow> u8 list list \<Rightarrow> 'w \<Rightarrow> 'w" where
  "rm_loop sys [] w = w"
| "rm_loop sys (a # as) w =
     (case u_unlink sys a w of (r, w) \<Rightarrow>
      if r <s 0 then fprintf sys 2 (''rm: %s failed to delete'' @ nl) [VStr a] w
      else rm_loop sys as w)"

definition rm_main :: "'w usys \<Rightarrow> u8 list list \<Rightarrow> 'w \<Rightarrow> ('w, unit) ures" where
  "rm_main sys argv w =
     (if length argv < 2 then Exit 1 (fprintf sys 2 (''Usage: rm files...'' @ nl) [] w)
      else Exit 0 (rm_loop sys (tl argv) w))"

subsection \<open>ls\<close>

definition fmtname :: "u8 list \<Rightarrow> u8 list" where
  "fmtname path =
     (let p = rev (takeWhile (\<lambda>c. c \<noteq> 47) (rev path))
      in if length p \<ge> 14 then p else p @ replicate (14 - length p) 32)"

definition ls_print :: "'w usys \<Rightarrow> u8 list \<Rightarrow> i16 \<times> u32 \<times> u64 \<Rightarrow> 'w \<Rightarrow> 'w" where
  "ls_print sys path st w =
     (case st of (ty, ino, sz) \<Rightarrow>
      printf_u sys (''%s %d %d %d'' @ nl)
        [VStr (fmtname path), VInt (scast ty), VInt (ucast ino), vint (ucast sz)] w)"

fun ls_dir :: "nat \<Rightarrow> 'w usys \<Rightarrow> u8 list \<Rightarrow> i32 \<Rightarrow> 'w \<Rightarrow> ('w, unit) ures" where
  "ls_dir 0 sys path fd w = NoFuel"
| "ls_dir (Suc k) sys path fd w =
     (case u_read sys fd 16 w of
        (None, w) \<Rightarrow> Val () w
      | (Some de, w) \<Rightarrow>
          if length de \<noteq> 16 then Val () w
          else if de ! 0 = 0 \<and> de ! 1 = 0 then ls_dir k sys path fd w
          else let buf = path @ [47] @ cstr (drop 2 de) in
            case stat_u sys buf w of
              (None, w) \<Rightarrow> ls_dir k sys path fd (printf_u sys (''ls: cannot stat %s'' @ nl) [VStr buf] w)
            | (Some st, w) \<Rightarrow> ls_dir k sys path fd (ls_print sys buf st w))"

definition ls :: "nat \<Rightarrow> 'w usys \<Rightarrow> u8 list \<Rightarrow> 'w \<Rightarrow> ('w, unit) ures" where
  "ls fuel sys path w =
     (case u_open sys path O_RDONLY w of (fd, w) \<Rightarrow>
      if fd <s 0 then Val () (fprintf sys 2 (''ls: cannot open %s'' @ nl) [VStr path] w)
      else case u_fstat sys fd w of
        (None, w) \<Rightarrow> Val () (u_close sys fd (fprintf sys 2 (''ls: cannot stat %s'' @ nl) [VStr path] w))
      | (Some st, w) \<Rightarrow>
          ubnd (if fst st = 3 \<or> fst st = 2 then Val () (ls_print sys path st w)
                else if fst st = 1 then
                  if length path + 1 + 14 + 1 > 512 then Val () (printf_u sys (''ls: path too long'' @ nl) [] w)
                  else ls_dir fuel sys path fd w
                else Val () w) (\<lambda>_ w.
          Val () (u_close sys fd w)))"

fun ls_files :: "nat \<Rightarrow> 'w usys \<Rightarrow> u8 list list \<Rightarrow> 'w \<Rightarrow> ('w, unit) ures" where
  "ls_files fuel sys [] w = Exit 0 w"
| "ls_files fuel sys (f # fs) w = ubnd (ls fuel sys f w) (\<lambda>_ w. ls_files fuel sys fs w)"

definition ls_main :: "nat \<Rightarrow> 'w usys \<Rightarrow> u8 list list \<Rightarrow> 'w \<Rightarrow> ('w, unit) ures" where
  "ls_main fuel sys argv w =
     (if length argv < 2 then ubnd (ls fuel sys [46] w) (\<lambda>_ w. Exit 0 w)
      else ls_files fuel sys (tl argv) w)"

subsection \<open>powerctl, usagectl, usagestat, syshealth\<close>

definition powerctl_usage :: "'w usys \<Rightarrow> 'w \<Rightarrow> 'w" where
  "powerctl_usage sys w =
     fprintf sys 2 (''  powerctl <pid> stats'' @ nl) []
       (fprintf sys 2 (''  powerctl <pid> limit <ticks_per_window>'' @ nl) []
         (fprintf sys 2 (''  powerctl <pid> <normal|eco>'' @ nl) []
           (fprintf sys 2 (''usage:'' @ nl) [] w)))"

definition powerctl_main :: "'w usys \<Rightarrow> u8 list list \<Rightarrow> 'w \<Rightarrow> ('w, unit) ures" where
  "powerctl_main sys argv w =
     (if length argv < 3 then Exit 1 (powerctl_usage sys w)
      else let pid = atoi (argv ! 1) in
        if pid \<le>s 0 then Exit 1 (fprintf sys 2 (''powerctl: invalid pid '' @ [CHR 0x27] @ ''%s'' @ [CHR 0x27] @ nl) [VStr (argv ! 1)] w)
        else if strcmp (argv ! 2) (bytes_of ''normal'') = 0 then
          (case u_setpowermode sys pid 0 w of (r, w) \<Rightarrow>
           if r <s 0 then Exit 1 (fprintf sys 2 (''powerctl: setpowermode failed for pid %d'' @ nl) [vint pid] w)
           else Exit 0 (printf_u sys (''pid %d power mode set to normal'' @ nl) [vint pid] w))
        else if strcmp (argv ! 2) (bytes_of ''eco'') = 0 then
          (case u_setpowermode sys pid 1 w of (r, w) \<Rightarrow>
           if r <s 0 then Exit 1 (fprintf sys 2 (''powerctl: setpowermode failed for pid %d'' @ nl) [vint pid] w)
           else Exit 0 (printf_u sys (''pid %d power mode set to eco'' @ nl) [vint pid] w))
        else if strcmp (argv ! 2) (bytes_of ''limit'') = 0 then
          (if length argv < 4 then Exit 1 (powerctl_usage sys w)
           else let limit = atoi (argv ! 3) in
             if limit <s 0 then Exit 1 (fprintf sys 2 (''powerctl: limit must be >= 0'' @ nl) [] w)
             else case u_setcpulimit sys pid limit w of (r, w) \<Rightarrow>
               if r <s 0 then Exit 1 (fprintf sys 2 (''powerctl: setcpulimit failed for pid %d'' @ nl) [vint pid] w)
               else Exit 0 (printf_u sys (''pid %d cpu limit set to %d ticks/window'' @ nl) [vint pid, vint limit] w))
        else if strcmp (argv ! 2) (bytes_of ''stats'') = 0 then
          (case u_getcputicks sys pid w of (t, w) \<Rightarrow>
           if t <s 0 then Exit 1 (fprintf sys 2 (''powerctl: failed to query stats for pid %d'' @ nl) [vint pid] w)
           else Exit 0 (printf_u sys (''pid %d cpu ticks total=%d'' @ nl) [vint pid, vint t] w))
        else Exit 1 (powerctl_usage sys w))"

text \<open>The arrow in the message is the three bytes of its UTF-8 encoding.\<close>

definition usagectl_main :: "'w usys \<Rightarrow> u8 list list \<Rightarrow> 'w \<Rightarrow> ('w, i32) ures" where
  "usagectl_main sys argv w =
     (if length argv \<noteq> 3 then Val 1 (printf_u sys (''usage: usagectl <pid> <max_ticks>'' @ nl) [] w)
      else let pid = atoi (argv ! 1); mx = atoi (argv ! 2) in
        case u_setusagelimit sys pid mx w of (r, w) \<Rightarrow>
          if r <s 0 then Val 1 (printf_u sys (''Error: invalid PID or failed to set limit'' @ nl) [] w)
          else Val 0 (printf_u sys (''Limit set: PID %d '' @ [CHR 0xE2, CHR 0x86, CHR 0x92] @ '' %d ticks'' @ nl) [vint pid, vint mx] w))"

definition usagestat_main :: "'w usys \<Rightarrow> u8 list list \<Rightarrow> 'w \<Rightarrow> ('w, i32) ures" where
  "usagestat_main sys argv w =
     (if length argv \<noteq> 2 then Val 1 (printf_u sys (''usage: usagestat <pid>'' @ nl) [] w)
      else let pid = atoi (argv ! 1) in
        case u_getusagestats sys pid w of
          (None, w) \<Rightarrow> Val 1 (printf_u sys (''Process not found'' @ nl) [] w)
        | (Some (used, limit), w) \<Rightarrow>
            Val 0 (printf_u sys (''PID: %d | CPU Ticks: %lu | Limit: %lu'' @ nl) [vint pid, VInt used, VInt limit] w))"

definition syshealth_main :: "'w usys \<Rightarrow> u8 list list \<Rightarrow> 'w \<Rightarrow> ('w, unit) ures" where
  "syshealth_main sys argv w =
     (let verbose = (length argv > 1 \<and> strcmp (argv ! 1) (bytes_of ''-v'') = 0) in
      case u_getsyshealth sys w of
        (None, w) \<Rightarrow> Exit 1 (fprintf sys 2 (''syshealth: syscall failed'' @ nl) [] w)
      | (Some sh, w) \<Rightarrow>
          let line = (\<lambda>(f, x) w. printf_u sys (f @ nl) [VInt (ucast x)] w)
          in Exit 0
            (if verbose then
               printf_u sys (''================================'' @ nl) []
                 (fold line
                   [(''Uptime (ticks)      : %d'', sh_uptime_ticks sh), (''Active CPU ticks    : %d'', sh_active_ticks sh),
                    (''Idle CPU ticks      : %d'', sh_idle_ticks sh), (''Context switches    : %d'', sh_context_switches sh),
                    (''Procs (run/ready)   : %d'', sh_nproc_running sh), (''Procs (total)       : %d'', sh_nproc_total sh),
                    (''Free pages          : %d'', sh_free_pages sh), (''Free memory (KB)    : %d'', sh_free_pages sh * 4)]
                   (printf_u sys (''=== xv6 System Health Report ==='' @ nl) [] w))
             else
               printf_u sys (''uptime=%d active=%d idle=%d ctxsw=%d run=%d total=%d free_pages=%d'' @ nl)
                 [VInt (ucast (sh_uptime_ticks sh)), VInt (ucast (sh_active_ticks sh)), VInt (ucast (sh_idle_ticks sh)),
                  VInt (ucast (sh_context_switches sh)), VInt (ucast (sh_nproc_running sh)),
                  VInt (ucast (sh_nproc_total sh)), VInt (ucast (sh_free_pages sh))] w))"

subsection \<open>proccost\<close>

definition print_spaces :: "'w usys \<Rightarrow> int \<Rightarrow> 'w \<Rightarrow> 'w" where
  "print_spaces sys n w = ((\<lambda>w. printf_u sys '' '' [] w) ^^ nat n) w"

text \<open>The digits of a 64-bit number are at most 20, so the bound of the buffer is not met;
  the first argument is the room left in it.\<close>

fun udigits :: "nat \<Rightarrow> u64 \<Rightarrow> u8 list" where
  "udigits 0 x = []"
| "udigits (Suc room) x =
     (48 + ucast (x mod 10)) # (if x div 10 \<noteq> 0 then udigits room (x div 10) else [])"

definition print_uint64_padded :: "'w usys \<Rightarrow> u64 \<Rightarrow> int \<Rightarrow> 'w \<Rightarrow> 'w" where
  "print_uint64_padded sys x width w =
     (let buf = udigits 32 x;
          w = print_spaces sys (width - int (length buf)) w
      in fold (\<lambda>c w. printf_u sys ''%c'' [VInt (ucast c)] w) (rev buf) w)"

definition print_name_padded :: "'w usys \<Rightarrow> u8 list \<Rightarrow> nat \<Rightarrow> 'w \<Rightarrow> 'w" where
  "print_name_padded sys name width w =
     (let len = min (strlen_u name) width;
          w = fold (\<lambda>c w. printf_u sys ''%c'' [VInt (ucast c)] w) (take len name) w
      in print_spaces sys (int width - int len) w)"

text \<open>The inner loop over \<^verbatim>\<open>j\<close> and one step of the outer loop.\<close>

fun max_from :: "proccostinfo list \<Rightarrow> nat \<Rightarrow> nat list \<Rightarrow> nat" where
  "max_from info k [] = k"
| "max_from info k (j # js) =
     max_from info (if pc_cost (info ! j) > pc_cost (info ! k) then j else k) js"

definition sort_step :: "nat \<Rightarrow> nat \<Rightarrow> proccostinfo list \<Rightarrow> proccostinfo list" where
  "sort_step n i info =
     (let k = max_from info i [Suc i..<n] in
      if k \<noteq> i then info[i := info ! k, k := info ! i] else info)"

definition sort_by_cost :: "nat \<Rightarrow> proccostinfo list \<Rightarrow> proccostinfo list" where
  "sort_by_cost n info = fold (sort_step n) [0..<n] info"

definition proccost_row :: "'w usys \<Rightarrow> proccostinfo \<Rightarrow> 'w \<Rightarrow> 'w" where
  "proccost_row sys p w =
     (let sep = (\<lambda>w. printf_u sys ''  '' [] w);
          w = print_uint64_padded sys (i2u64 (pc_pid p)) 4 w;
          w = print_name_padded sys (pc_name p) 14 (sep w);
          w = print_uint64_padded sys (pc_cpu_ticks p) 10 (sep w);
          w = print_uint64_padded sys (pc_sched_count p) 12 (sep w);
          w = print_uint64_padded sys (pc_disk_writes p) 12 (sep w);
          w = print_uint64_padded sys (pc_cost p) 10 (sep w)
      in printf_u sys nl [] w)"

definition proccost_header :: "'w usys \<Rightarrow> 'w \<Rightarrow> 'w" where
  "proccost_header sys w =
     (let w = print_spaces sys (4 - 3) (printf_u sys ''PID '' [] w);
          w = print_spaces sys (14 - 4) (printf_u sys ''  NAME'' [] w);
          w = print_spaces sys (10 - 9) (printf_u sys ''  CPU_TICKS'' [] w);
          w = print_spaces sys (12 - 11) (printf_u sys ''  SCHED_COUNT'' [] w);
          w = print_spaces sys (12 - 11) (printf_u sys ''  DISK_WRITES'' [] w)
      in printf_u sys (''  COST'' @ nl) [] w)"

definition rows_to_print :: "u8 list list \<Rightarrow> i32" where
  "rows_to_print argv =
     (if length argv > 1 then
        if strcmp (argv ! 1) (bytes_of ''all'') = 0 then 64
        else let r = atoi (argv ! 1) in if r \<le>s 0 then 10 else r
      else 10)"

definition proccost_main :: "'w usys \<Rightarrow> u8 list list \<Rightarrow> 'w \<Rightarrow> ('w, unit) ures" where
  "proccost_main sys argv w =
     (case u_proccost sys 64 w of
        (None, w) \<Rightarrow> Exit 1 (printf_u sys (''proccost: syscall failed'' @ nl) [] w)
      | (Some info, w) \<Rightarrow>
          let n = min (length info) 64;
              info = sort_by_cost n info;
              n = (if sint (rows_to_print argv) < int n then nat (sint (rows_to_print argv)) else n)
          in Exit 0 (fold (proccost_row sys) (take n info) (proccost_header sys w)))"

subsection \<open>The sort of proccost\<close>

lemma max_from_in: "max_from info k js \<in> insert k (set js)"
  by (induction js arbitrary: k) (auto split: if_splits)

lemma max_from_max: "j \<in> insert k (set js) \<Longrightarrow> pc_cost (info ! j) \<le> pc_cost (info ! max_from info k js)"
proof (induction js arbitrary: k j)
  case (Cons a js)
  let ?k = "if pc_cost (info ! a) > pc_cost (info ! k) then a else k"
  have "pc_cost (info ! ?k) \<le> pc_cost (info ! max_from info ?k js)" by (rule Cons.IH) simp
  moreover have "j \<in> set js \<Longrightarrow> pc_cost (info ! j) \<le> pc_cost (info ! max_from info ?k js)" by (rule Cons.IH) simp
  ultimately show ?case using Cons.prems by (auto split: if_splits)
qed simp

text \<open>The invariant of the outer loop: the first \<^verbatim>\<open>i\<close> entries are in order, none of them
  costs less than one of the rest, and the entries are those at the start.\<close>

definition sort_inv :: "nat \<Rightarrow> proccostinfo list \<Rightarrow> nat \<Rightarrow> proccostinfo list \<Rightarrow> bool" where
  "sort_inv n info0 i info \<longleftrightarrow> mset info = mset info0 \<and> drop n info = drop n info0 \<and>
     (\<forall>a b. a < i \<and> a < b \<and> b < n \<longrightarrow> pc_cost (info ! b) \<le> pc_cost (info ! a))"

lemma sort_step_inv:
  assumes inv: "sort_inv n info0 i info" and i: "i < n" and n: "n \<le> length info0"
  shows "sort_inv n info0 (Suc i) (sort_step n i info)"
proof -
  define k where "k = max_from info i [Suc i..<n]"
  have len: "length info = length info0" using inv mset_eq_length unfolding sort_inv_def by blast
  have k: "i \<le> k" "k < n" using max_from_in [of info i "[Suc i..<n]"] i by (auto simp: k_def)
  have best: "pc_cost (info ! b) \<le> pc_cost (info ! k)" if "i \<le> b" "b < n" for b
    unfolding k_def by (rule max_from_max) (use that in auto)
  have s: "sort_step n i info = info[i := info ! k, k := info ! i]"
    by (simp add: sort_step_def Let_def k_def [symmetric])
  have nth: "info[i := info ! k, k := info ! i] ! b = info ! (if b = k then i else if b = i then k else b)"
    if "b < n" for b
    using that i k n len by (auto simp: nth_list_update)
  show ?thesis unfolding s sort_inv_def
  proof (intro conjI allI impI)
    show "mset (info[i := info ! k, k := info ! i]) = mset info0"
      using mset_swap [of k info i] inv i k n len by (simp add: sort_inv_def)
    show "drop n (info[i := info ! k, k := info ! i]) = drop n info0"
      using inv i k by (simp add: sort_inv_def)
    fix a b assume ab: "a < Suc i \<and> a < b \<and> b < n"
    then have "pc_cost (info ! b') \<le> pc_cost (info ! a)" if "a < i" "i \<le> b'" "b' < n" for b'
      using that inv unfolding sort_inv_def by simp
    moreover have "pc_cost (info ! b) \<le> pc_cost (info ! a)" if "a < i"
      using that inv ab unfolding sort_inv_def by simp
    ultimately show "pc_cost (info[i := info ! k, k := info ! i] ! b) \<le> pc_cost (info[i := info ! k, k := info ! i] ! a)"
      using ab k i best [of b] best [of i] by (auto simp: nth less_Suc_eq)
  qed
qed

lemma sort_fold_inv:
  "m \<le> n \<Longrightarrow> n \<le> length info \<Longrightarrow> sort_inv n info m (fold (sort_step n) [0..<m] info)"
  by (induction m) (simp_all add: sort_step_inv, simp add: sort_inv_def)

text \<open>\<^bold>\<open>C29\<close> The sort of \<^verbatim>\<open>proccost\<close> permutes the first \<^verbatim>\<open>n\<close> entries of the table into
  descending order of cost and leaves the rest of it alone.\<close>

theorem sort_by_cost_sorts:
  assumes "n \<le> length info"
  shows "sorted_wrt (\<lambda>p q. pc_cost q \<le> pc_cost p) (take n (sort_by_cost n info)) \<and>
    mset (take n (sort_by_cost n info)) = mset (take n info) \<and>
    drop n (sort_by_cost n info) = drop n info"
proof -
  have inv: "sort_inv n info n (sort_by_cost n info)"
    using sort_fold_inv [of n n info] assms by (simp add: sort_by_cost_def)
  have len: "length (sort_by_cost n info) = length info"
    using inv mset_eq_length unfolding sort_inv_def by blast
  have d: "drop n (sort_by_cost n info) = drop n info" using inv by (simp add: sort_inv_def)
  have "mset (take n xs) = mset xs - mset (drop n xs)" for xs :: "proccostinfo list"
    by (metis add_diff_cancel_right' append_take_drop_id mset_append)
  then have "mset (take n (sort_by_cost n info)) = mset (take n info)" using inv d by (simp add: sort_inv_def)
  moreover have "sorted_wrt (\<lambda>p q. pc_cost q \<le> pc_cost p) (take n (sort_by_cost n info))"
    unfolding sorted_wrt_iff_nth_less using inv assms len by (simp add: sort_inv_def)
  ultimately show ?thesis using d by blast
qed

definition demo_costs :: "proccostinfo list" where
  "demo_costs = map (\<lambda>(p, c). \<lparr>pc_pid = p, pc_name = [], pc_cpu_ticks = c, pc_sched_count = 0, pc_disk_writes = 0, pc_cost = c\<rparr>)
     [(1, 3), (2, 8), (3, 5)]"

theorem sort_by_cost_sorts_witness:
  "sorted_wrt (\<lambda>p q. pc_cost q \<le> pc_cost p) (take 3 (sort_by_cost 3 demo_costs)) \<and>
   mset (take 3 (sort_by_cost 3 demo_costs)) = mset (take 3 demo_costs) \<and> length demo_costs = 3"
proof -
  have len: "length demo_costs = 3" by (simp add: demo_costs_def)
  show ?thesis using sort_by_cost_sorts [of 3 demo_costs] unfolding len by blast
qed

subsection \<open>The counts of wc\<close>

definition blank :: "u8 \<Rightarrow> bool" where
  "blank b \<longleftrightarrow> b \<in> {32, 13, 9, 10, 11}"

text \<open>The positions where a word begins.\<close>

definition word_begins :: "u8 list \<Rightarrow> nat list" where
  "word_begins bs = filter (\<lambda>i. \<not> blank (bs ! i) \<and> (i = 0 \<or> blank (bs ! (i - 1)))) [0..<length bs]"

lemma word_begins_snoc:
  "length (word_begins (bs @ [b])) =
     length (word_begins bs) + (if \<not> blank b \<and> (bs = [] \<or> blank (last bs)) then 1 else 0)"
proof -
  have "filter (\<lambda>i. \<not> blank ((bs @ [b]) ! i) \<and> (i = 0 \<or> blank ((bs @ [b]) ! (i - 1)))) [0..<length bs] = word_begins bs"
    unfolding word_begins_def by (rule filter_cong) (auto simp: nth_append)
  then have "word_begins (bs @ [b]) =
      word_begins bs @ (if \<not> blank b \<and> (length bs = 0 \<or> blank ((bs @ [b]) ! (length bs - 1))) then [length bs] else [])"
    by (simp add: word_begins_def)
  moreover have "length bs = 0 \<or> (bs @ [b]) ! (length bs - 1) = last bs"
    by (cases "bs = []") (simp_all add: nth_append last_conv_nth)
  ultimately show ?thesis by auto
qed

lemma wc_byte_blank: "strchr [32, 13, 9, 10, 11] b \<noteq> None \<longleftrightarrow> blank b"
  by (auto simp: blank_def)

text \<open>What the counters hold after the bytes \<^verbatim>\<open>bs\<close>.\<close>

definition counted :: "u8 list \<Rightarrow> wcount" where
  "counted bs = \<lparr>wc_l = of_nat (count_list bs 10), wc_w = of_nat (length (word_begins bs)), wc_c = of_nat (length bs),
     wc_inword = (bs \<noteq> [] \<and> \<not> blank (last bs))\<rparr>"

lemma wc_byte_counted: "wc_byte b (counted bs) = counted (bs @ [b])"
  by (simp add: wc_byte_def wc_byte_blank counted_def word_begins_snoc Let_def)
     (auto simp: blank_def)

lemma fold_wc_byte: "fold wc_byte ys (counted xs) = counted (xs @ ys)"
  by (induction ys arbitrary: xs) (simp_all add: wc_byte_counted)

lemma wc_loop_counts:
  assumes io: "stream_io sys fd rest out"
  shows "length (rest w) < n \<Longrightarrow> \<exists>w'. wc_loop n sys fd (counted bs) w = Val (True, counted (bs @ rest w)) w' \<and> out w' = out w"
proof (induction n arbitrary: bs w)
  case (Suc n)
  obtain xs w' where r: "u_read sys fd 512 w = (Some xs, w')" "rest w = xs @ rest w'"
    "xs = [] \<Longrightarrow> 512 = (0 :: nat) \<or> rest w = []" "out w' = out w"
    by (rule stream_read [OF io, of 512 w]) blast
  show ?case
  proof (cases xs)
    case (Cons x xs')
    then have "length (rest w') < n" using Suc.prems r(2) by simp
    from Suc.IH [OF this, of "bs @ xs"] Cons r show ?thesis by (simp add: fold_wc_byte [symmetric] del: fold_wc_byte)
  qed (use r in simp)
qed simp

lemma printf_u_stream:
  assumes "stream_io sys fd rest out"
  shows "out (printf_u sys fmt ap w) = out w @ vformat False (bytes_of fmt) ap"
proof -
  have "out (puts_u sys 1 l w) = out w @ l" for l
    using assms by (induction l arbitrary: w) (auto simp: stream_io_def)
  then show ?thesis by (simp add: printf_u_def vprintf_def)
qed

lemma ucast_i2u64: "ucast (i2u64 x) = x"
  unfolding i2u64_def by (rule bit_word_eqI) (simp add: bit_simps)

lemma va_int_small:
  assumes "k < 2 ^ 31"
  shows "printint_u (va_int (vint (of_nat k) # ap)) 10 True = decimal k"
proof -
  have s: "sint (of_nat k :: i32) = int k"
    using assms by (simp add: signed_of_nat signed_take_bit_int_eq_self)
  have e: "va_int (vint (of_nat k) # ap) = i2u64 (of_nat k)"
    by (simp add: va_int_def vint_def ucast_i2u64) (simp add: i2u64_def)
  have n: "\<not> (of_nat k :: i32) <s 0" by (simp add: word_sless_alt s)
  have "unat (i2u64 (of_nat k)) = k" using i2u64_nonneg [OF n] unfolding s by (simp only: of_nat_eq_iff)
  with n s show ?thesis by (simp add: e printint_u_decimal word_sless_alt)
qed

lemma wc_format:
  assumes "l < 2 ^ 31" "k < 2 ^ 31" "c < 2 ^ 31"
  shows "vformat False (bytes_of (''%d %d %d %s'' @ nl)) [vint (of_nat l), vint (of_nat k), vint (of_nat c), VStr name] =
    decimal l @ [32] @ decimal k @ [32] @ decimal c @ [32] @ cstr name @ [10]"
  using assms by (simp add: bytes_of_def nl_def vconv_def va_int_small)

text \<open>\<^bold>\<open>C28\<close> \<^verbatim>\<open>wc\<close> prints the number of newlines, of words and of bytes of the file, in
  decimal, and the name: the counts do not depend on how the reads cut the file, and a word
  across two reads counts once.\<close>

theorem wc_counts:
  assumes "stream_io sys fd rest out" "length (rest w) < fuel" "length (rest w) < 2 ^ 31"
  shows "\<exists>w'. wc fuel sys fd name w = Val () w' \<and>
    out w' = out w @ decimal (count_list (rest w) 10) @ [32] @ decimal (length (word_begins (rest w))) @ [32] @
      decimal (length (rest w)) @ [32] @ cstr name @ [10]"
proof -
  have z: "\<lparr>wc_l = 0, wc_w = 0, wc_c = 0, wc_inword = False\<rparr> = counted []"
    by (simp add: counted_def word_begins_def)
  obtain w' where w': "wc_loop fuel sys fd (counted []) w = Val (True, counted (rest w)) w'" "out w' = out w"
    using wc_loop_counts [OF assms(1,2), of "[]"] by auto
  have "length (word_begins (rest w)) \<le> length (rest w)"
    unfolding word_begins_def by (rule order_trans [OF length_filter_le]) simp
  moreover have "count_list (rest w) 10 \<le> length (rest w)" by (rule count_le_length)
  ultimately have "vformat False (bytes_of (''%d %d %d %s'' @ nl)) [vint (of_nat (count_list (rest w) 10)),
      vint (of_nat (length (word_begins (rest w)))), vint (of_nat (length (rest w))), VStr name] =
      decimal (count_list (rest w) 10) @ [32] @ decimal (length (word_begins (rest w))) @ [32] @
      decimal (length (rest w)) @ [32] @ cstr name @ [10]"
    by (intro wc_format) (use assms(3) in simp_all)
  then show ?thesis
    using w' by (simp add: wc_def z counted_def printf_u_stream [OF assms(1)])
qed

theorem wc_counts_witness:
  "\<exists>w'. wc 20 demo_usys 0 (bytes_of ''f'') (bytes_of ''ab cde'' @ [10] @ bytes_of ''fghi'', []) = Val () w' \<and>
     snd w' = bytes_of ''1 3 11 f'' @ [10]"
proof -
  let ?d = "bytes_of ''ab cde'' @ [10] @ bytes_of ''fghi''"
  have l: "length ?d = 11" by (simp add: bytes_of_def)
  have "length (fst (?d, [] :: u8 list)) < 20" "length (fst (?d, [] :: u8 list)) < 2 ^ 31" by (simp_all only: fst_conv l) simp_all
  note wc_counts [where name = "bytes_of ''f''" and rest = fst and out = snd, OF demo_usys_io [of 0] this]
  then obtain w' where w': "wc 20 demo_usys 0 (bytes_of ''f'') (?d, []) = Val () w'"
    "snd w' = decimal (count_list ?d 10) @ [32] @ decimal (length (word_begins ?d)) @ [32] @
      decimal (length ?d) @ [32] @ cstr (bytes_of ''f'') @ [10]"
    unfolding fst_conv snd_conv append_Nil by blast
  have "count_list ?d 10 = 1" "word_begins ?d = [0, 3, 7]" "cstr (bytes_of ''f'') = bytes_of ''f''" by code_simp+
  then have "snd w' = decimal 1 @ [32] @ decimal 3 @ [32] @ decimal 11 @ [32] @ bytes_of ''f'' @ [10]"
    unfolding w'(2) l by (simp add: numeral_3_eq_3)
  moreover have "\<dots> = bytes_of ''1 3 11 f'' @ [10]" by (simp add: decimal.simps bytes_of_def)
  ultimately show ?thesis using w'(1) by metis
qed

end
