(* ===== verification/Shell.thy ===== *)
theory Shell
  imports Ulib
begin

text \<open>
  \<^verbatim>\<open>user/sh.c\<close> and \<^verbatim>\<open>user/init.c\<close>. The parser works on the line buffer with positions in
  place of pointers: a command holds, for every word, where it begins and where it ends;
  \<^verbatim>\<open>nulterminate\<close> writes the NULs into the buffer and \<^verbatim>\<open>runcmd\<close> reads the words from
  it. The recursive descent takes fuel. An allocation for a command is taken to succeed.
\<close>

unbundle bit_operations_syntax

subsection \<open>Commands\<close>

datatype cmd =
    Execcmd "(nat \<times> nat) list"
  | Redircmd cmd nat nat i32 i32
  | Pipecmd cmd cmd
  | Listcmd cmd cmd
  | Backcmd cmd

text \<open>The constructors, with the fields their callers give.\<close>

definition execcmd :: cmd where
  [simp]: "execcmd = Execcmd []"

definition redircmd :: "cmd \<Rightarrow> nat \<Rightarrow> nat \<Rightarrow> i32 \<Rightarrow> i32 \<Rightarrow> cmd" where
  [simp]: "redircmd subcmd file efile mode fd = Redircmd subcmd file efile mode fd"

definition pipecmd :: "cmd \<Rightarrow> cmd \<Rightarrow> cmd" where
  [simp]: "pipecmd left right = Pipecmd left right"

definition listcmd :: "cmd \<Rightarrow> cmd \<Rightarrow> cmd" where
  [simp]: "listcmd left right = Listcmd left right"

definition backcmd :: "cmd \<Rightarrow> cmd" where
  [simp]: "backcmd subcmd = Backcmd subcmd"

abbreviation (input) O_RDWR :: i32 where "O_RDWR \<equiv> 2"

definition newline :: string where
  "newline = [CHR 0x0A]"

definition panic_u :: "'w usys \<Rightarrow> string \<Rightarrow> 'w \<Rightarrow> ('w, 'a) ures" where
  "panic_u sys m w = Exit 1 (fprintf sys 2 (''%s'' @ newline) [VStr (bytes_of m)] w)"

definition fork1 :: "'w usys \<Rightarrow> 'w \<Rightarrow> ('w, i32) ures" where
  "fork1 sys w = (case u_fork sys w of (pid, w) \<Rightarrow> if pid = - 1 then panic_u sys ''fork'' w else Val pid w)"

subsection \<open>Tokens\<close>

definition whitespace :: "u8 list" where
  "whitespace = [32, 9, 13, 10, 11]"

definition symbols :: "u8 list" where
  "symbols = bytes_of ''<|>&;()''"

definition at :: "u8 list \<Rightarrow> nat \<Rightarrow> u8" where
  "at buf s = (if s < length buf then buf ! s else 0)"

definition in_set :: "u8 list \<Rightarrow> u8 \<Rightarrow> bool" where
  "in_set cs c \<longleftrightarrow> strchr cs c \<noteq> None"

text \<open>The loops of the scanner: the first position from \<^verbatim>\<open>s\<close> on, at most \<^verbatim>\<open>es\<close>, where
  the condition does not hold.\<close>

function skip :: "(u8 \<Rightarrow> bool) \<Rightarrow> u8 list \<Rightarrow> nat \<Rightarrow> nat \<Rightarrow> nat" where
  "skip P buf es s = (if s < es \<and> P (at buf s) then skip P buf es (Suc s) else s)"
  by pat_completeness auto
termination by (relation "measure (\<lambda>(P, buf, es, s). es - s)") auto

declare skip.simps [simp del]

text \<open>The token, where it begins and ends, and the new position.\<close>

definition gettoken :: "u8 list \<Rightarrow> nat \<Rightarrow> nat \<Rightarrow> u8 \<times> nat \<times> nat \<times> nat" where
  "gettoken buf es s =
     (let q = skip (in_set whitespace) buf es s;
          c = at buf q;
          (ret, eq) =
            (if c = 0 then (c, q)
             else if c \<in> set (bytes_of ''|();&<'') then (c, Suc q)
             else if c = ch (CHR ''>'') then
               if at buf (Suc q) = ch (CHR ''>'') then (ch (CHR ''+''), Suc (Suc q)) else (c, Suc q)
             else (ch (CHR ''a''), skip (\<lambda>c. \<not> in_set whitespace c \<and> \<not> in_set symbols c) buf es q))
      in (ret, q, eq, skip (in_set whitespace) buf es eq))"

definition peek :: "u8 list \<Rightarrow> nat \<Rightarrow> nat \<Rightarrow> string \<Rightarrow> nat \<times> bool" where
  "peek buf es s toks =
     (let s = skip (in_set whitespace) buf es s
      in (s, at buf s \<noteq> 0 \<and> in_set (bytes_of toks) (at buf s)))"

subsection \<open>The parser\<close>

text \<open>A parsing routine gives a command and the new position, or panics with a message.\<close>

datatype parse = Parsed cmd nat | Syntax string | PFuel

fun pbnd :: "parse \<Rightarrow> (cmd \<Rightarrow> nat \<Rightarrow> parse) \<Rightarrow> parse" where
  "pbnd (Parsed c s) f = f c s"
| "pbnd (Syntax m) f = Syntax m"
| "pbnd PFuel f = PFuel"

definition redirection :: "u8 \<Rightarrow> cmd \<Rightarrow> nat \<Rightarrow> nat \<Rightarrow> cmd" where
  "redirection tok cmd q eq =
     (if tok = ch (CHR ''<'') then redircmd cmd q eq 0 0
      else if tok = ch (CHR ''>'') then redircmd cmd q eq (0x001 OR 0x200 OR 0x400) 1
      else if tok = ch (CHR ''+'') then redircmd cmd q eq (0x001 OR 0x200) 1
      else cmd)"

fun parseredirs :: "nat \<Rightarrow> cmd \<Rightarrow> u8 list \<Rightarrow> nat \<Rightarrow> nat \<Rightarrow> parse" where
  "parseredirs 0 cmd buf es s = PFuel"
| "parseredirs (Suc n) cmd buf es s =
     (case peek buf es s ''<>'' of (s, yes) \<Rightarrow>
      if \<not> yes then Parsed cmd s
      else case gettoken buf es s of (tok, _, _, s) \<Rightarrow>
        case gettoken buf es s of (t, q, eq, s) \<Rightarrow>
        if t \<noteq> ch (CHR ''a'') then Syntax ''missing file for redirection''
        else parseredirs n (redirection tok cmd q eq) buf es s)"

text \<open>\<^verbatim>\<open>cmd->argv[argc] = q\<close> changes the command that the redirections parsed so far
  surround.\<close>

fun add_arg :: "nat \<times> nat \<Rightarrow> cmd \<Rightarrow> cmd" where
  "add_arg a (Execcmd as) = Execcmd (as @ [a])"
| "add_arg a (Redircmd c q eq mode fd) = Redircmd (add_arg a c) q eq mode fd"
| "add_arg a c = c"

fun parseargs :: "nat \<Rightarrow> cmd \<Rightarrow> nat \<Rightarrow> u8 list \<Rightarrow> nat \<Rightarrow> nat \<Rightarrow> parse" where
  "parseargs 0 ret argc buf es s = PFuel"
| "parseargs (Suc n) ret argc buf es s =
     (case peek buf es s ''|)&;'' of (s, yes) \<Rightarrow>
      if yes then Parsed ret s
      else case gettoken buf es s of (tok, q, eq, s) \<Rightarrow>
        if tok = 0 then Parsed ret s
        else if tok \<noteq> ch (CHR ''a'') then Syntax ''syntax''
        else if Suc argc \<ge> 10 then Syntax ''too many args''
        else pbnd (parseredirs n (add_arg (q, eq) ret) buf es s) (\<lambda>ret s.
          parseargs n ret (Suc argc) buf es s))"

fun parse_back :: "nat \<Rightarrow> cmd \<Rightarrow> u8 list \<Rightarrow> nat \<Rightarrow> nat \<Rightarrow> parse" where
  "parse_back 0 cmd buf es s = PFuel"
| "parse_back (Suc n) cmd buf es s =
     (case peek buf es s ''&'' of (s, yes) \<Rightarrow>
      if \<not> yes then Parsed cmd s
      else case gettoken buf es s of (_, _, _, s) \<Rightarrow> parse_back n (backcmd cmd) buf es s)"

function (sequential) parseline :: "nat \<Rightarrow> u8 list \<Rightarrow> nat \<Rightarrow> nat \<Rightarrow> parse"
  and parsepipe :: "nat \<Rightarrow> u8 list \<Rightarrow> nat \<Rightarrow> nat \<Rightarrow> parse"
  and parseexec :: "nat \<Rightarrow> u8 list \<Rightarrow> nat \<Rightarrow> nat \<Rightarrow> parse"
  and parseblock :: "nat \<Rightarrow> u8 list \<Rightarrow> nat \<Rightarrow> nat \<Rightarrow> parse" where
  "parseline 0 buf es s = PFuel"
| "parseline (Suc n) buf es s =
     pbnd (parsepipe n buf es s) (\<lambda>cmd s.
     pbnd (parse_back n cmd buf es s) (\<lambda>cmd s.
     case peek buf es s '';'' of (s, yes) \<Rightarrow>
     if \<not> yes then Parsed cmd s
     else case gettoken buf es s of (_, _, _, s) \<Rightarrow>
       pbnd (parseline n buf es s) (\<lambda>right s. Parsed (listcmd cmd right) s)))"
| "parsepipe 0 buf es s = PFuel"
| "parsepipe (Suc n) buf es s =
     pbnd (parseexec n buf es s) (\<lambda>cmd s.
     case peek buf es s ''|'' of (s, yes) \<Rightarrow>
     if \<not> yes then Parsed cmd s
     else case gettoken buf es s of (_, _, _, s) \<Rightarrow>
       pbnd (parsepipe n buf es s) (\<lambda>right s. Parsed (pipecmd cmd right) s))"
| "parseexec 0 buf es s = PFuel"
| "parseexec (Suc n) buf es s =
     (case peek buf es s ''('' of (s, yes) \<Rightarrow>
      if yes then parseblock n buf es s
      else pbnd (parseredirs n execcmd buf es s) (\<lambda>ret s. parseargs n ret 0 buf es s))"
| "parseblock 0 buf es s = PFuel"
| "parseblock (Suc n) buf es s =
     (case peek buf es s ''('' of (s, yes) \<Rightarrow>
      if \<not> yes then Syntax ''parseblock''
      else case gettoken buf es s of (_, _, _, s) \<Rightarrow>
        pbnd (parseline n buf es s) (\<lambda>cmd s.
        case peek buf es s '')'' of (s, yes) \<Rightarrow>
        if \<not> yes then Syntax ''syntax - missing )''
        else case gettoken buf es s of (_, _, _, s) \<Rightarrow> parseredirs n cmd buf es s))"
  by pat_completeness auto
termination
  by (relation "measure (\<lambda>x. case x of Inl (Inl (n, _)) \<Rightarrow> n | Inl (Inr (n, _)) \<Rightarrow> n | Inr (Inl (n, _)) \<Rightarrow> n | Inr (Inr (n, _)) \<Rightarrow> n)")
    simp_all

text \<open>The buffer after the NULs have been written.\<close>

fun nulterminate :: "cmd \<Rightarrow> u8 list \<Rightarrow> u8 list" where
  "nulterminate (Execcmd as) buf = fold (\<lambda>(q, eq) buf. buf[eq := 0]) as buf"
| "nulterminate (Redircmd c q eq mode fd) buf = (nulterminate c buf)[eq := 0]"
| "nulterminate (Pipecmd a b) buf = nulterminate b (nulterminate a buf)"
| "nulterminate (Listcmd a b) buf = nulterminate b (nulterminate a buf)"
| "nulterminate (Backcmd c) buf = nulterminate c buf"

definition parse_fuel :: "nat \<Rightarrow> nat" where
  "parse_fuel es = 4 * es + 4"

definition parsecmd :: "'w usys \<Rightarrow> u8 list \<Rightarrow> 'w \<Rightarrow> ('w, cmd \<times> u8 list) ures" where
  "parsecmd sys buf w =
     (let es = strlen_u buf in
      case parseline (parse_fuel es) buf es 0 of
        PFuel \<Rightarrow> NoFuel
      | Syntax m \<Rightarrow> panic_u sys m w
      | Parsed cmd s \<Rightarrow>
          case peek buf es s '''' of (s, _) \<Rightarrow>
          if s \<noteq> es then panic_u sys ''syntax'' (fprintf sys 2 (''leftovers: %s'' @ newline) [VStr (drop s buf)] w)
          else Val (cmd, nulterminate cmd buf) w)"

subsection \<open>Running commands\<close>

text \<open>A word of a command, read from the buffer up to the NUL after it.\<close>

definition word_at :: "u8 list \<Rightarrow> nat \<Rightarrow> u8 list" where
  "word_at buf q = cstr (drop q buf)"

text \<open>\<^verbatim>\<open>runcmd\<close> does not return: it exits, or \<^verbatim>\<open>exec\<close> replaces the program, which gives
  the program and its arguments.\<close>

fun runcmd :: "'w usys \<Rightarrow> u8 list \<Rightarrow> cmd \<Rightarrow> 'w \<Rightarrow> ('w, u8 list \<times> u8 list list) ures" where
  "runcmd sys buf (Execcmd argv) w =
     (if argv = [] then Exit 1 w
      else let args = map (\<lambda>(q, eq). word_at buf q) argv in
        case u_exec sys (hd args) args w of (replaced, w) \<Rightarrow>
        if replaced then Val (hd args, args) w
        else Exit 0 (fprintf sys 2 (''exec %s failed'' @ newline) [VStr (hd args)] w))"
| "runcmd sys buf (Redircmd c q eq mode fd) w =
     (case u_open sys (word_at buf q) mode (u_close sys fd w) of (r, w) \<Rightarrow>
      if r <s 0 then Exit 1 (fprintf sys 2 (''open %s failed'' @ newline) [VStr (word_at buf q)] w)
      else runcmd sys buf c w)"
| "runcmd sys buf (Listcmd l r) w =
     ubnd (fork1 sys w) (\<lambda>pid w.
     if pid = 0 then runcmd sys buf l w
     else runcmd sys buf r (snd (u_wait sys w)))"
| "runcmd sys buf (Pipecmd l r) w =
     (case u_pipe sys w of
        (None, w) \<Rightarrow> panic_u sys ''pipe'' w
      | (Some (p0, p1), w) \<Rightarrow>
          ubnd (fork1 sys w) (\<lambda>pid w.
          if pid = 0 then
            let w = u_close sys 1 w; w = snd (u_dup sys p1 w); w = u_close sys p0 w; w = u_close sys p1 w
            in runcmd sys buf l w
          else ubnd (fork1 sys w) (\<lambda>pid w.
            if pid = 0 then
              let w = u_close sys 0 w; w = snd (u_dup sys p0 w); w = u_close sys p0 w; w = u_close sys p1 w
              in runcmd sys buf r w
            else
              let w = u_close sys p0 w; w = u_close sys p1 w; w = snd (u_wait sys w); w = snd (u_wait sys w)
              in Exit 0 w)))"
| "runcmd sys buf (Backcmd c) w =
     ubnd (fork1 sys w) (\<lambda>pid w. if pid = 0 then runcmd sys buf c w else Exit 0 w)"

subsection \<open>The shell's main loop\<close>

definition getcmd :: "'w usys \<Rightarrow> nat \<Rightarrow> 'w \<Rightarrow> u8 list option \<times> 'w" where
  "getcmd sys nbuf w =
     (case gets sys (of_nat nbuf) (snd (u_write sys 2 (bytes_of ''$ '') w)) of (line, w) \<Rightarrow>
      let buf = line @ replicate (nbuf - length line) 0
      in (if at buf 0 = 0 then None else Some buf, w))"

fun open_console :: "nat \<Rightarrow> 'w usys \<Rightarrow> 'w \<Rightarrow> ('w, unit) ures" where
  "open_console 0 sys w = NoFuel"
| "open_console (Suc n) sys w =
     (case u_open sys (bytes_of ''console'') O_RDWR w of (fd, w) \<Rightarrow>
      if fd <s 0 then Val () w
      else if 3 \<le>s fd then Val () (u_close sys fd w)
      else open_console n sys w)"

fun sh_loop :: "nat \<Rightarrow> 'w usys \<Rightarrow> 'w \<Rightarrow> ('w, u8 list \<times> u8 list list) ures" where
  "sh_loop 0 sys w = NoFuel"
| "sh_loop (Suc n) sys w =
     (case getcmd sys 100 w of
        (None, w) \<Rightarrow> Exit 0 w
      | (Some buf, w) \<Rightarrow>
          let cmd = dropWhile (\<lambda>c. c = 32 \<or> c = 9) buf in
          if at cmd 0 = 10 then sh_loop n sys w
          else if at cmd 0 = ch (CHR ''c'') \<and> at cmd 1 = ch (CHR ''d'') \<and> at cmd 2 = 32 then
            let cmd = cmd[strlen_u cmd - 1 := 0]; dir = word_at cmd 3 in
            case u_chdir sys dir w of (r, w) \<Rightarrow>
              sh_loop n sys (if r <s 0 then fprintf sys 2 (''cannot cd %s'' @ newline) [VStr dir] w else w)
          else
            ubnd (fork1 sys w) (\<lambda>pid w.
            if pid = 0 then ubnd (parsecmd sys cmd w) (\<lambda>(c, buf) w. runcmd sys buf c w)
            else sh_loop n sys (snd (u_wait sys w))))"

definition sh_main :: "nat \<Rightarrow> 'w usys \<Rightarrow> 'w \<Rightarrow> ('w, u8 list \<times> u8 list list) ures" where
  "sh_main n sys w = ubnd (open_console n sys w) (\<lambda>_ w. sh_loop n sys w)"

subsection \<open>init\<close>

fun init_wait :: "nat \<Rightarrow> 'w usys \<Rightarrow> i32 \<Rightarrow> 'w \<Rightarrow> ('w, unit) ures" where
  "init_wait 0 sys pid w = NoFuel"
| "init_wait (Suc n) sys pid w =
     (case u_wait sys w of (wpid, w) \<Rightarrow>
      if wpid = pid then Val () w
      else if wpid <s 0 then Exit 1 (printf_u sys (''init: wait returned an error'' @ newline) [] w)
      else init_wait n sys pid w)"

fun init_loop :: "nat \<Rightarrow> 'w usys \<Rightarrow> 'w \<Rightarrow> ('w, u8 list \<times> u8 list list) ures" where
  "init_loop 0 sys w = NoFuel"
| "init_loop (Suc n) sys w =
     (case u_fork sys (printf_u sys (''init: starting sh'' @ newline) [] w) of (pid, w) \<Rightarrow>
      if pid <s 0 then Exit 1 (printf_u sys (''init: fork failed'' @ newline) [] w)
      else if pid = 0 then
        (case u_exec sys (bytes_of ''sh'') [bytes_of ''sh''] w of (replaced, w) \<Rightarrow>
         if replaced then Val (bytes_of ''sh'', [bytes_of ''sh'']) w
         else Exit 1 (printf_u sys (''init: exec sh failed'' @ newline) [] w))
      else ubnd (init_wait n sys pid w) (\<lambda>_ w. init_loop n sys w))"

definition init_main :: "nat \<Rightarrow> 'w usys \<Rightarrow> 'w \<Rightarrow> ('w, u8 list \<times> u8 list list) ures" where
  "init_main n sys w =
     (case u_open sys (bytes_of ''console'') O_RDWR w of (fd, w) \<Rightarrow>
      let w = (if fd <s 0 then
                 let w = snd (u_mknod sys (bytes_of ''console'') 1 0 w)
                 in snd (u_open sys (bytes_of ''console'') O_RDWR w)
               else w);
          w = snd (u_dup sys 0 w);
          w = snd (u_dup sys 0 w)
      in init_loop n sys w)"

end
