(* ===== verification/Shell_Print.thy ===== *)
theory Shell_Print
  imports Shell_Parse
begin

text \<open>
  The shell's grammar: commands as a tree of words, a printer for them that sets parentheses
  where the grammar needs them, and the proof that the parser reads back what is printed.
\<close>

unbundle bit_operations_syntax

subsection \<open>Command trees and their text\<close>

datatype scmd =
    SExec "u8 list list"
  | SRedir scmd "u8 list" i32 i32
  | SPipe scmd scmd
  | SList scmd scmd
  | SBack scmd

definition is_word :: "u8 list \<Rightarrow> bool" where
  "is_word t \<longleftrightarrow> t \<noteq> [] \<and> (\<forall>x \<in> set t. wordch x)"

definition redir_tok :: "i32 \<Rightarrow> u8 list" where
  "redir_tok mode = (if mode = 0 then [60] else if mode = 0x601 then [62] else [62, 62])"

fun wf :: "scmd \<Rightarrow> bool" where
  "wf (SExec ws) \<longleftrightarrow> length ws \<le> 9 \<and> (\<forall>t \<in> set ws. is_word t)"
| "wf (SRedir c f mode fd) \<longleftrightarrow> wf c \<and> is_word f \<and> (mode, fd) \<in> {(0, 0), (0x601, 1), (0x201, 1)}"
| "wf (SPipe a b) \<longleftrightarrow> wf a \<and> wf b"
| "wf (SList a b) \<longleftrightarrow> wf a \<and> wf b"
| "wf (SBack a) \<longleftrightarrow> wf a"

fun level :: "scmd \<Rightarrow> nat" where
  "level (SList a b) = 0"
| "level (SBack a) = 1"
| "level (SPipe a b) = 2"
| "level c = 3"

definition paren :: "bool \<Rightarrow> u8 list list \<Rightarrow> u8 list list" where
  "paren p ts = (if p then [40] # ts @ [[41]] else ts)"

fun body :: "scmd \<Rightarrow> u8 list list" where
  "body (SExec ws) = ws"
| "body (SRedir c f mode fd) = paren (level c < 3) (body c) @ [redir_tok mode, f]"
| "body (SPipe a b) = paren (level a < 3) (body a) @ [[124]] @ paren (level b < 2) (body b)"
| "body (SBack a) = paren (level a < 1) (body a) @ [[38]]"
| "body (SList a b) = paren (level a < 1) (body a) @ [[59]] @ body b"

abbreviation shown :: "nat \<Rightarrow> scmd \<Rightarrow> u8 list list" where
  "shown l c \<equiv> paren (level c < l) (body c)"

definition text_of :: "u8 list list \<Rightarrow> u8 list" where
  "text_of ts = concat (map (\<lambda>t. t @ [32]) ts)"

text \<open>The tree a parsed command stands for, its words read from the buffer as \<^verbatim>\<open>runcmd\<close>
  reads them, or taken from the line by their positions.\<close>

fun tree :: "(nat \<times> nat \<Rightarrow> u8 list) \<Rightarrow> cmd \<Rightarrow> scmd" where
  "tree f (Execcmd as) = SExec (map f as)"
| "tree f (Redircmd c q eq mode fd) = SRedir (tree f c) (f (q, eq)) mode fd"
| "tree f (Pipecmd a b) = SPipe (tree f a) (tree f b)"
| "tree f (Listcmd a b) = SList (tree f a) (tree f b)"
| "tree f (Backcmd a) = SBack (tree f a)"

abbreviation word_in :: "u8 list \<Rightarrow> nat \<times> nat \<Rightarrow> u8 list" where
  "word_in buf t \<equiv> map (at buf) [fst t..<snd t]"

lemma tree_cong: "(\<And>t. t \<in> toks c \<Longrightarrow> f t = g t) \<Longrightarrow> tree f c = tree g c"
  by (induction c) auto

subsection \<open>Tokens in the line\<close>

definition is_tok :: "u8 list \<Rightarrow> bool" where
  "is_tok t \<longleftrightarrow> is_word t \<or> t \<in> {[59], [38], [124], [40], [41], [60], [62], [62, 62]}"

lemma tok_nonblank: "is_tok t \<Longrightarrow> t \<noteq> [] \<and> (\<forall>x \<in> set t. \<not> blank_ch x \<and> x \<noteq> 0)"
  by (auto simp: is_tok_def is_word_def wordch_def blank_ch_def)

lemma redir_tok_tok [simp]: "is_tok (redir_tok mode)"
  by (simp add: is_tok_def redir_tok_def)

lemma body_toks: "wf c \<Longrightarrow> \<forall>t \<in> set (body c). is_tok t"
  by (induction c) (auto simp: paren_def is_tok_def redir_tok_def)

text \<open>From position \<^verbatim>\<open>s\<close> to its end the line is the text of \<^verbatim>\<open>ts\<close>.\<close>

definition at_toks :: "u8 list \<Rightarrow> nat \<Rightarrow> nat \<Rightarrow> u8 list list \<Rightarrow> bool" where
  "at_toks buf es s ts \<longleftrightarrow> line_ok buf es \<and> s + length (text_of ts) = es \<and>
     map (at buf) [s..<es] = text_of ts \<and> (\<forall>t \<in> set ts. is_tok t)"

lemma at_toks_Cons:
  assumes "at_toks buf es s (t # ts)"
  shows "at_toks buf es (Suc (s + length t)) ts" "word_in buf (s, s + length t) = t" "at buf (s + length t) = 32"
    "s + length t < es" "is_tok t" "line_ok buf es"
proof -
  let ?m = "s + length t"
  have l: "s + length t + 1 + length (text_of ts) = es" and tx: "map (at buf) [s..<es] = t @ 32 # text_of ts"
    using assms by (auto simp: at_toks_def text_of_def)
  have "[s..<es] = [s..<?m] @ ?m # [Suc ?m..<es]"
    using l upt_add_eq_append [of s ?m "es - ?m"] by (simp add: upt_conv_Cons)
  then have "map (at buf) [s..<?m] @ at buf ?m # map (at buf) [Suc ?m..<es] = t @ 32 # text_of ts" using tx by simp
  then have "map (at buf) [s..<?m] = t" "at buf ?m = 32" "map (at buf) [Suc ?m..<es] = text_of ts"
    by (auto simp: append_eq_append_conv)
  then show "at_toks buf es (Suc (s + length t)) ts" "word_in buf (s, s + length t) = t" "at buf (s + length t) = 32"
    "s + length t < es" "is_tok t" "line_ok buf es"
    using assms l by (auto simp: at_toks_def)
qed

lemma at_toks_Nil: "at_toks buf es s [] \<longleftrightarrow> line_ok buf es \<and> s = es"
  by (auto simp: at_toks_def text_of_def)

lemma at_toks_hd:
  assumes "at_toks buf es s (t # ts)"
  shows "at buf s = hd t" "t \<noteq> []" "\<not> blank_ch (hd t)" "hd t \<noteq> 0" "s < es"
proof -
  have n: "t \<noteq> []" "\<forall>x \<in> set t. \<not> blank_ch x \<and> x \<noteq> 0" using tok_nonblank [OF at_toks_Cons(5) [OF assms]] by auto
  then have "map (at buf) [s..<s + length t] = at buf s # map (at buf) [Suc s..<s + length t]" by (simp add: upt_conv_Cons)
  then show "at buf s = hd t" using at_toks_Cons(2) [OF assms] by (metis fst_conv list.sel(1) snd_conv)
  show "t \<noteq> []" "\<not> blank_ch (hd t)" "hd t \<noteq> 0" "s < es" using n at_toks_Cons(4) [OF assms] by auto
qed

lemma skip_at_toks: "at_toks buf es s ts \<Longrightarrow> skip blank_ch buf es s = s"
  by (cases ts) (auto simp: at_toks_Nil at_toks_hd intro!: skip_stop dest: at_toks_hd)

lemma peek_at_toks:
  assumes "at_toks buf es s ts" "\<forall>x \<in> set (bytes_of cs). x \<noteq> 0"
  shows "peek buf es s cs = (s, ts \<noteq> [] \<and> hd (hd ts) \<in> set (bytes_of cs))"
proof (cases ts)
  case Nil
  then show ?thesis using assms skip_at_toks [OF assms(1)] by (simp add: peek_def Let_def at_toks_Nil line_ok_def)
next
  case (Cons t ts')
  then show ?thesis using assms at_toks_hd [of buf es s t ts'] by (simp add: peek_def skip_at_toks in_set_bytes)
qed

definition tok_kind :: "u8 list \<Rightarrow> u8" where
  "tok_kind t = (if is_word t then 97 else if t = [62, 62] then 43 else hd t)"

lemma gettoken_symbol:
  "c = at buf s \<Longrightarrow> c \<in> {59, 38, 124, 40, 41, 60} \<Longrightarrow> skip blank_ch buf es s = s \<Longrightarrow>
   gettoken buf es s = (c, s, Suc s, skip blank_ch buf es (Suc s))"
  by (auto simp: gettoken_def Let_def bytes_of_def)

lemma gettoken_at_toks:
  assumes "at_toks buf es s (t # ts)"
  shows "gettoken buf es s = (tok_kind t, s, s + length t, Suc (s + length t))"
proof -
  note c = at_toks_Cons [OF assms]
  note h = at_toks_hd [OF assms]
  have sk: "skip blank_ch buf es (s + length t) = Suc (s + length t)"
  proof (subst skip.simps)
    show "(if s + length t < es \<and> blank_ch (at buf (s + length t)) then skip blank_ch buf es (Suc (s + length t))
      else s + length t) = Suc (s + length t)"
      using c(3,4) skip_at_toks [OF c(1)] by (simp add: blank_ch_def)
  qed
  have nth: "at buf (s + i) = t ! i" if "i < length t" for i
  proof -
    have "map (at buf) [s..<s + length t] ! i = at buf (s + i)" using that by simp
    then show ?thesis using c(2) by simp
  qed
  show ?thesis
  proof (cases "is_word t")
    case True
    have w: "wordch (at buf i)" if "s \<le> i" "i < s + length t" for i
      using nth [of "i - s"] that True by (simp add: is_word_def)
    have "skip (\<lambda>c. \<not> blank_ch c \<and> \<not> in_set symbols c) buf es s = s + length t"
      using w c(3,4) by (intro skip_eq) (auto simp: wordch_def blank_ch_def)
    moreover have "at buf s \<notin> {0, 60, 62, 124, 40, 41, 59, 38}" using w [of s] h by (auto simp: wordch_def)
    ultimately show ?thesis using True sk skip_at_toks [OF assms]
      by (simp add: gettoken_def Let_def bytes_of_def tok_kind_def)
  next
    case False
    then have "t \<in> {[59], [38], [124], [40], [41], [60], [62], [62, 62]}" using c(5) by (simp add: is_tok_def)
    then consider "t \<in> {[59], [38], [124], [40], [41], [60]}" | "t = [62]" | "t = [62, 62]" by auto
    then show ?thesis
    proof cases
      case 1
      then obtain x where x: "t = [x]" "x \<in> {59, 38, 124, 40, 41, 60}" by auto
      then have "gettoken buf es s = (x, s, Suc s, Suc (Suc s))"
        using sk skip_at_toks [OF assms] h(1) gettoken_symbol [of "at buf s" buf s es] by simp
      then show ?thesis using x False by (simp add: tok_kind_def)
    next
      case 2
      then show ?thesis using False sk skip_at_toks [OF assms] h(1) c(3)
        by (auto simp: gettoken_def Let_def bytes_of_def tok_kind_def)
    next
      case 3
      then show ?thesis using False sk skip_at_toks [OF assms] h(1) nth [of 1]
        by (auto simp: gettoken_def Let_def bytes_of_def tok_kind_def)
    qed
  qed
qed

subsection \<open>The routines on printed text\<close>

text \<open>A routine's result is the tree \<^verbatim>\<open>c\<close>, and \<^verbatim>\<open>rest\<close> is left to parse.\<close>

definition reads :: "u8 list \<Rightarrow> nat \<Rightarrow> u8 list list \<Rightarrow> scmd \<Rightarrow> parse \<Rightarrow> bool" where
  "reads buf es rest c r \<longleftrightarrow>
     (\<exists>c' s'. r = Parsed c' s' \<and> tree (word_in buf) c' = c \<and> at_toks buf es s' rest)"

definition follow :: "u8 list list \<Rightarrow> u8 list list \<Rightarrow> bool" where
  "follow cs rest \<longleftrightarrow> rest = [] \<or> hd rest \<in> set cs"

lemma readsI: "r = Parsed c' s' \<Longrightarrow> tree (word_in buf) c' = c \<Longrightarrow> at_toks buf es s' rest \<Longrightarrow> reads buf es rest c r"
  by (auto simp: reads_def)

lemma at_toks_le: "at_toks buf es s (ts @ rest) \<Longrightarrow> at_toks buf es s' rest \<Longrightarrow> s \<le> s'"
  by (simp add: at_toks_def text_of_def)

lemma peek_bytes: "\<forall>x \<in> set (bytes_of ''<>''). x \<noteq> 0" "\<forall>x \<in> set (bytes_of ''|)&;''). x \<noteq> 0" "\<forall>x \<in> set (bytes_of ''&''). x \<noteq> 0"
  "\<forall>x \<in> set (bytes_of '';''). x \<noteq> 0" "\<forall>x \<in> set (bytes_of ''|''). x \<noteq> 0" "\<forall>x \<in> set (bytes_of ''(''). x \<noteq> 0"
  "\<forall>x \<in> set (bytes_of '')''). x \<noteq> 0" "\<forall>x \<in> set (bytes_of ''''). x \<noteq> 0"
  by (simp_all add: bytes_of_def)

lemmas peek_toks = peek_bytes [THEN peek_at_toks [rotated]]

lemma word_hd: "is_word t \<Longrightarrow> hd t \<notin> {59, 38, 124, 40, 41, 60, 62, 0}"
  by (cases t) (auto simp: is_word_def wordch_def)

lemma word_symbols: "\<not> is_word (59 # t)" "\<not> is_word (38 # t)" "\<not> is_word (124 # t)" "\<not> is_word (40 # t)" "\<not> is_word (41 # t)"
  "\<not> is_word (60 # t)" "\<not> is_word (62 # t)"
  by (auto simp: is_word_def wordch_def)

text \<open>Redirections.\<close>

fun rtoks :: "(u8 list \<times> i32 \<times> i32) list \<Rightarrow> u8 list list" where
  "rtoks [] = []"
| "rtoks ((f, mode, fd) # rs) = redir_tok mode # f # rtoks rs"

definition wf_redir :: "u8 list \<times> i32 \<times> i32 \<Rightarrow> bool" where
  "wf_redir r \<longleftrightarrow> is_word (fst r) \<and> snd r \<in> {(0, 0), (0x601, 1), (0x201, 1)}"

definition redirected :: "scmd \<Rightarrow> (u8 list \<times> i32 \<times> i32) list \<Rightarrow> scmd" where
  "redirected c rs = fold (\<lambda>(f, mode, fd) c. SRedir c f mode fd) rs c"

lemma redir_tok_hd: "hd (redir_tok mode) \<in> set (bytes_of ''<>'')"
  by (simp add: redir_tok_def bytes_of_def)

lemma redir_tok_40: "hd (redir_tok mode) \<noteq> 40"
  by (simp add: redir_tok_def)

lemma parseredirs_reads:
  "at_toks buf es s (rtoks rs @ rest) \<Longrightarrow> list_all wf_redir rs \<Longrightarrow> rest = [] \<or> hd (hd rest) \<notin> {60, 62} \<Longrightarrow> es - s < n \<Longrightarrow>
   reads buf es rest (redirected (tree (word_in buf) cmd) rs) (parseredirs n cmd buf es s)"
proof (induction rs arbitrary: s n cmd)
  case Nil
  then obtain m where "n = Suc m" by (cases n) auto
  with Nil show ?case by (intro readsI [of _ cmd s]) (auto simp: peek_toks redirected_def bytes_of_def)
next
  case (Cons r rs)
  obtain f mode fd where r: "r = (f, mode, fd)" by (cases r)
  obtain m where n: "n = Suc m" using Cons.prems(4) by (cases n) auto
  have wf: "is_word f" "(mode, fd) \<in> {(0, 0), (0x601, 1), (0x201, 1)}" using Cons.prems(2) r by (auto simp: wf_redir_def)
  have h: "at_toks buf es s (redir_tok mode # f # rtoks rs @ rest)" using Cons.prems(1) r by simp
  note h1 = at_toks_Cons [OF h]
  note h2 = at_toks_Cons [OF h1(1)]
  let ?s1 = "Suc (s + length (redir_tok mode))"
  let ?s2 = "Suc (?s1 + length f)"
  let ?c = "Redircmd cmd ?s1 (?s1 + length f) mode fd"
  have k: "redirection (tok_kind (redir_tok mode)) cmd q e = Redircmd cmd q e mode fd" for q e
    using wf(2) by (auto simp: redirection_def tok_kind_def redir_tok_def word_symbols)
  have "parseredirs n cmd buf es s = parseredirs m ?c buf es ?s2"
    unfolding n parseredirs.simps peek_toks(1) [OF h] gettoken_at_toks [OF h] prod.case
    by (simp only: gettoken_at_toks [OF h1(1)] prod.case) (use wf(1) k in \<open>simp add: tok_kind_def [of f] redir_tok_hd\<close>)
  moreover have "reads buf es rest (redirected (tree (word_in buf) ?c) rs) (parseredirs m ?c buf es ?s2)"
    using h2 Cons.prems n h1(4) by (intro Cons.IH) auto
  moreover have "redirected (tree (word_in buf) ?c) rs = redirected (tree (word_in buf) cmd) (r # rs)"
    using h2(2) by (simp add: redirected_def r)
  ultimately show ?case by simp
qed

text \<open>The words of a simple command and the redirections after them.\<close>

lemma parseargs_reads:
  "at_toks buf es s (ws @ rtoks rs @ rest) \<Longrightarrow> list_all wf_redir rs \<Longrightarrow> \<forall>t \<in> set ws. is_word t \<Longrightarrow>
   follow [[124], [38], [59], [41]] rest \<Longrightarrow> length as + length ws \<le> 9 \<Longrightarrow> es - s < n \<Longrightarrow>
   reads buf es rest (redirected (SExec (map (word_in buf) as @ ws)) rs)
     (pbnd (parseredirs n (Execcmd as) buf es s) (\<lambda>ret s. parseargs n ret (length as) buf es s))"
proof (induction ws arbitrary: s n as)
  case Nil
  have "rest = [] \<or> hd (hd rest) \<notin> {60, 62}" using Nil.prems(4) by (auto simp: follow_def)
  then have "reads buf es rest (redirected (SExec (map (word_in buf) as)) rs) (parseredirs n (Execcmd as) buf es s)"
    using parseredirs_reads [of buf es s rs rest n "Execcmd as"] Nil.prems by simp
  then obtain c' s' where c': "parseredirs n (Execcmd as) buf es s = Parsed c' s'"
    "tree (word_in buf) c' = redirected (SExec (map (word_in buf) as)) rs" "at_toks buf es s' rest"
    by (auto simp: reads_def)
  obtain m where n: "n = Suc m" using Nil.prems(6) by (cases n) auto
  have "parseargs n c' (length as) buf es s' = Parsed c' s'"
  proof (cases rest)
    case Nil
    then have "s' = es" "at buf es = 0" using c'(3) by (auto simp: at_toks_Nil line_ok_def)
    then show ?thesis using Nil c'(3) by (simp add: n peek_toks gettoken_def Let_def skip_stop)
  next
    case (Cons t ts)
    then have "t \<in> {[124], [38], [59], [41]}" using Nil.prems(4) by (auto simp: follow_def)
    then show ?thesis using Cons c'(3) by (auto simp: n peek_toks bytes_of_def)
  qed
  with c' show ?case by (auto intro: readsI)
next
  case (Cons w ws)
  obtain m where n: "n = Suc m" using Cons.prems(6) by (cases n) auto
  have w: "is_word w" using Cons.prems(3) by simp
  have h: "at_toks buf es s (w # ws @ rtoks rs @ rest)" using Cons.prems(1) by simp
  note h1 = at_toks_Cons [OF h]
  have k: "hd w \<notin> {59, 38, 124, 40, 41, 60, 62, 0}" by (rule word_hd [OF w])
  let ?a = "(s, s + length w)"
  have "parseredirs n (Execcmd as) buf es s = Parsed (Execcmd as) s"
    using k by (simp add: n peek_toks [OF h] bytes_of_def)
  moreover have "parseargs n (Execcmd as) (length as) buf es s =
      pbnd (parseredirs m (Execcmd (as @ [?a])) buf es (Suc (s + length w))) (\<lambda>ret s. parseargs m ret (Suc (length as)) buf es s)"
    using k w Cons.prems(5) by (simp add: n peek_toks [OF h] bytes_of_def gettoken_at_toks [OF h] tok_kind_def)
  moreover have "reads buf es rest (redirected (SExec (map (word_in buf) (as @ [?a]) @ ws)) rs)
     (pbnd (parseredirs m (Execcmd (as @ [?a])) buf es (Suc (s + length w)))
       (\<lambda>ret s. parseargs m ret (length (as @ [?a])) buf es s))"
    using h1 Cons.prems n by (intro Cons.IH) auto
  ultimately show ?case using h1(2) by simp
qed

subsection \<open>The grammar's levels\<close>

definition exec_reads :: "u8 list \<Rightarrow> nat \<Rightarrow> scmd \<Rightarrow> bool" where
  "exec_reads buf es c \<longleftrightarrow> (\<forall>n s rest. at_toks buf es s (shown 3 c @ rest) \<and> follow [[124], [38], [59], [41]] rest \<and>
     4 * (es - s) + 2 \<le> n \<longrightarrow> reads buf es rest c (parseexec n buf es s))"

definition pipe_reads :: "u8 list \<Rightarrow> nat \<Rightarrow> scmd \<Rightarrow> bool" where
  "pipe_reads buf es c \<longleftrightarrow> (\<forall>n s rest. at_toks buf es s (shown 2 c @ rest) \<and> follow [[38], [59], [41]] rest \<and>
     4 * (es - s) + 3 \<le> n \<longrightarrow> reads buf es rest c (parsepipe n buf es s))"

text \<open>What comes before a \<^verbatim>\<open>&\<close>: the loop that looks for more of them is still to run.\<close>

definition back_reads :: "u8 list \<Rightarrow> nat \<Rightarrow> scmd \<Rightarrow> bool" where
  "back_reads buf es c \<longleftrightarrow> (\<forall>n s rest. at_toks buf es s (shown 1 c @ rest) \<and> follow [[38], [59], [41]] rest \<and>
     4 * (es - s) + 3 \<le> n \<longrightarrow>
     (\<exists>n' c' s'. pbnd (parsepipe n buf es s) (\<lambda>c s. parse_back n c buf es s) = parse_back n' c' buf es s' \<and>
        es - s' < n' \<and> tree (word_in buf) c' = c \<and> at_toks buf es s' rest))"

definition line_reads :: "u8 list \<Rightarrow> nat \<Rightarrow> scmd \<Rightarrow> bool" where
  "line_reads buf es c \<longleftrightarrow> (\<forall>n s rest. at_toks buf es s (body c @ rest) \<and> follow [[41]] rest \<and>
     4 * (es - s) + 4 \<le> n \<longrightarrow> reads buf es rest c (parseline n buf es s))"

lemma reads_D:
  assumes "reads buf es rest c r"
  obtains c' s' where "r = Parsed c' s'" "tree (word_in buf) c' = c" "at_toks buf es s' rest"
  using assms by (auto simp: reads_def)

lemma pbnd_assoc: "pbnd (pbnd m f) g = pbnd m (\<lambda>c s. pbnd (f c s) g)"
  by (cases m) simp_all

lemma pipe_one:
  assumes "exec_reads buf es c" "level c \<noteq> 2"
  shows "pipe_reads buf es c"
  unfolding pipe_reads_def
proof (intro allI impI, elim conjE)
  fix n s rest assume a: "at_toks buf es s (shown 2 c @ rest)" "follow [[38], [59], [41]] rest" "4 * (es - s) + 3 \<le> n"
  obtain m where n: "n = Suc m" "4 * (es - s) + 2 \<le> m" using a(3) by (cases n) auto
  have "shown 2 c = shown 3 c" using assms(2) by (cases c) auto
  moreover have "follow [[124], [38], [59], [41]] rest" using a(2) by (auto simp: follow_def)
  ultimately have "reads buf es rest c (parseexec m buf es s)" using assms(1) a(1) n(2) by (simp add: exec_reads_def)
  then obtain c' s' where c': "parseexec m buf es s = Parsed c' s'" "tree (word_in buf) c' = c" "at_toks buf es s' rest" by (rule reads_D)
  have "parsepipe n buf es s = Parsed c' s'" using a(2) by (auto simp: n c' peek_toks [OF c'(3)] follow_def bytes_of_def)
  with c' show "reads buf es rest c (parsepipe n buf es s)" by (auto intro: readsI)
qed

lemma pipe_two:
  assumes "exec_reads buf es a" "pipe_reads buf es b"
  shows "pipe_reads buf es (SPipe a b)"
  unfolding pipe_reads_def
proof (intro allI impI, elim conjE)
  fix n s rest assume h: "at_toks buf es s (shown 2 (SPipe a b) @ rest)" "follow [[38], [59], [41]] rest" "4 * (es - s) + 3 \<le> n"
  obtain m where n: "n = Suc m" "4 * (es - s) + 2 \<le> m" using h(3) by (cases n) auto
  let ?rest = "[124] # shown 2 b @ rest"
  have at: "at_toks buf es s (shown 3 a @ ?rest)" using h(1) by (simp add: paren_def)
  moreover have "follow [[124], [38], [59], [41]] ?rest" by (simp add: follow_def)
  ultimately have "reads buf es ?rest a (parseexec m buf es s)" using assms(1) n(2) unfolding exec_reads_def by blast
  then obtain c1 s1 where c1: "parseexec m buf es s = Parsed c1 s1" "tree (word_in buf) c1 = a" "at_toks buf es s1 ?rest" by (rule reads_D)
  note t = at_toks_Cons [OF c1(3)]
  have "s \<le> s1" by (rule at_toks_le [OF at c1(3)])
  then have "reads buf es rest b (parsepipe m buf es (Suc (s1 + length [124 :: u8])))"
    using assms(2) t(1,4) h(2) n(2) unfolding pipe_reads_def by simp
  then obtain c2 s2 where c2: "parsepipe m buf es (Suc (s1 + length [124 :: u8])) = Parsed c2 s2" "tree (word_in buf) c2 = b" "at_toks buf es s2 rest"
    by (rule reads_D)
  have "parsepipe n buf es s = Parsed (Pipecmd c1 c2) s2"
    using c2(1) by (simp add: n c1 peek_toks [OF c1(3)] gettoken_at_toks [OF c1(3)] bytes_of_def)
  with c1 c2 show "reads buf es rest (SPipe a b) (parsepipe n buf es s)" by (auto intro: readsI)
qed

lemma back_one:
  assumes "pipe_reads buf es c" "level c \<noteq> 1"
  shows "back_reads buf es c"
  unfolding back_reads_def
proof (intro allI impI, elim conjE)
  fix n s rest assume h: "at_toks buf es s (shown 1 c @ rest)" "follow [[38], [59], [41]] rest" "4 * (es - s) + 3 \<le> n"
  have "shown 1 c = shown 2 c" using assms(2) by (cases c) auto
  then have "reads buf es rest c (parsepipe n buf es s)" using assms(1) h unfolding pipe_reads_def by simp
  then obtain c' s' where c': "parsepipe n buf es s = Parsed c' s'" "tree (word_in buf) c' = c" "at_toks buf es s' rest" by (rule reads_D)
  have "s \<le> s'" by (rule at_toks_le [OF h(1) c'(3)])
  with c' h(3) show "\<exists>n' c' s'. pbnd (parsepipe n buf es s) (\<lambda>c s. parse_back n c buf es s) = parse_back n' c' buf es s' \<and>
      es - s' < n' \<and> tree (word_in buf) c' = c \<and> at_toks buf es s' rest"
    by (intro exI [of _ n] exI [of _ c'] exI [of _ s']) simp
qed

lemma back_more:
  assumes "back_reads buf es c"
  shows "back_reads buf es (SBack c)"
  unfolding back_reads_def
proof (intro allI impI, elim conjE)
  fix n s rest assume h: "at_toks buf es s (shown 1 (SBack c) @ rest)" "follow [[38], [59], [41]] rest" "4 * (es - s) + 3 \<le> n"
  have at: "at_toks buf es s (shown 1 c @ [38] # rest)" using h(1) by (simp add: paren_def)
  moreover have "follow [[38], [59], [41]] ([38] # rest)" by (simp add: follow_def)
  ultimately obtain n1 c1 s1 where c1: "pbnd (parsepipe n buf es s) (\<lambda>c s. parse_back n c buf es s) = parse_back n1 c1 buf es s1"
    "es - s1 < n1" "tree (word_in buf) c1 = c" "at_toks buf es s1 ([38] # rest)"
    using assms h(3) unfolding back_reads_def by blast
  obtain m where n1: "n1 = Suc m" using c1(2) by (cases n1) auto
  note t = at_toks_Cons [OF c1(4)]
  have "parse_back n1 c1 buf es s1 = parse_back m (Backcmd c1) buf es (Suc (s1 + length [38 :: u8]))"
    by (simp add: n1 peek_toks [OF c1(4)] gettoken_at_toks [OF c1(4)] bytes_of_def)
  with c1 t n1 show "\<exists>n' c' s'. pbnd (parsepipe n buf es s) (\<lambda>c s. parse_back n c buf es s) = parse_back n' c' buf es s' \<and>
      es - s' < n' \<and> tree (word_in buf) c' = SBack c \<and> at_toks buf es s' rest"
    by (intro exI [of _ m] exI [of _ "Backcmd c1"] exI [of _ "Suc (s1 + length [38 :: u8])"]) auto
qed

lemma parse_back_done:
  assumes "at_toks buf es s rest" "rest = [] \<or> hd rest \<in> {[59], [41]}" "es - s < n"
  shows "parse_back n c buf es s = Parsed c s"
  using assms by (cases n) (auto simp: peek_toks bytes_of_def)

text \<open>The first part of \<^verbatim>\<open>parseline\<close>, up to the search for a semicolon.\<close>

lemma line_start:
  assumes "back_reads buf es c" "at_toks buf es s (shown 1 c @ rest)" "rest = [] \<or> hd rest \<in> {[59], [41]}" "4 * (es - s) + 3 \<le> n"
  obtains c' s' where "pbnd (parsepipe n buf es s) (\<lambda>c s. parse_back n c buf es s) = Parsed c' s'"
    "tree (word_in buf) c' = c" "at_toks buf es s' rest" "s \<le> s'"
proof -
  have "follow [[38], [59], [41]] rest" using assms(3) by (auto simp: follow_def)
  then obtain n1 c1 s1 where c1: "pbnd (parsepipe n buf es s) (\<lambda>c s. parse_back n c buf es s) = parse_back n1 c1 buf es s1"
    "es - s1 < n1" "tree (word_in buf) c1 = c" "at_toks buf es s1 rest"
    using assms(1,2,4) unfolding back_reads_def by blast
  then show ?thesis using that parse_back_done [OF c1(4) assms(3) c1(2)] at_toks_le [OF assms(2) c1(4)] by simp
qed

lemma line_one:
  assumes "back_reads buf es c" "level c \<noteq> 0"
  shows "line_reads buf es c"
  unfolding line_reads_def
proof (intro allI impI, elim conjE)
  fix n s rest assume h: "at_toks buf es s (body c @ rest)" "follow [[41]] rest" "4 * (es - s) + 4 \<le> n"
  obtain m where n: "n = Suc m" "4 * (es - s) + 3 \<le> m" using h(3) by (cases n) auto
  have "at_toks buf es s (shown 1 c @ rest)" "rest = [] \<or> hd rest \<in> {[59], [41]}"
    using h assms(2) by (auto simp: paren_def follow_def)
  then obtain c' s' where c': "pbnd (parsepipe m buf es s) (\<lambda>c s. parse_back m c buf es s) = Parsed c' s'"
    "tree (word_in buf) c' = c" "at_toks buf es s' rest"
    using line_start [OF assms(1) _ _ n(2)] by blast
  have "parseline n buf es s = Parsed c' s'"
    unfolding n parseline.simps pbnd_assoc [symmetric] c'(1)
    using h(2) by (auto simp: peek_toks [OF c'(3)] follow_def bytes_of_def)
  with c' show "reads buf es rest c (parseline n buf es s)" by (auto intro: readsI)
qed

lemma line_two:
  assumes "back_reads buf es a" "line_reads buf es b"
  shows "line_reads buf es (SList a b)"
  unfolding line_reads_def
proof (intro allI impI, elim conjE)
  fix n s rest assume h: "at_toks buf es s (body (SList a b) @ rest)" "follow [[41]] rest" "4 * (es - s) + 4 \<le> n"
  obtain m where n: "n = Suc m" "4 * (es - s) + 3 \<le> m" using h(3) by (cases n) auto
  have "at_toks buf es s (shown 1 a @ [59] # body b @ rest)" "[59] # body b @ rest = [] \<or> hd ([59] # body b @ rest) \<in> {[59], [41]}"
    using h(1) by auto
  then obtain c1 s1 where c1: "pbnd (parsepipe m buf es s) (\<lambda>c s. parse_back m c buf es s) = Parsed c1 s1"
    "tree (word_in buf) c1 = a" "at_toks buf es s1 ([59] # body b @ rest)" "s \<le> s1"
    using line_start [OF assms(1) _ _ n(2)] by blast
  note t = at_toks_Cons [OF c1(3)]
  have "reads buf es rest b (parseline m buf es (Suc (s1 + length [59 :: u8])))"
    using assms(2) t(1,4) h(2) n(2) c1(4) unfolding line_reads_def by simp
  then obtain c2 s2 where c2: "parseline m buf es (Suc (s1 + length [59 :: u8])) = Parsed c2 s2" "tree (word_in buf) c2 = b" "at_toks buf es s2 rest"
    by (rule reads_D)
  have "parseline n buf es s = Parsed (Listcmd c1 c2) s2"
    unfolding n parseline.simps pbnd_assoc [symmetric] c1(1)
    using c2(1) by (simp add: peek_toks [OF c1(3)] gettoken_at_toks [OF c1(3)] bytes_of_def)
  with c1 c2 show "reads buf es rest (SList a b) (parseline n buf es s)" by (auto intro: readsI)
qed

text \<open>Redirections around a simple command or a block.\<close>

fun base :: "scmd \<Rightarrow> scmd" where
  "base (SRedir c f mode fd) = base c"
| "base c = c"

fun redirs :: "scmd \<Rightarrow> (u8 list \<times> i32 \<times> i32) list" where
  "redirs (SRedir c f mode fd) = redirs c @ [(f, mode, fd)]"
| "redirs c = []"

lemma rtoks_append [simp]: "rtoks (xs @ ys) = rtoks xs @ rtoks ys"
  by (induction xs rule: rtoks.induct) auto

lemma redirs_base: "redirected (base c) (redirs c) = c" "shown 3 c = shown 3 (base c) @ rtoks (redirs c)"
  "wf c \<Longrightarrow> wf (base c) \<and> list_all wf_redir (redirs c)" "\<exists>ws. base c = SExec ws \<or> level (base c) < 3"
  by (induction c) (auto simp: redirected_def paren_def wf_redir_def)

lemma block_reads:
  assumes "line_reads buf es c" "list_all wf_redir rs" "at_toks buf es s ([40] # body c @ [41] # rtoks rs @ rest)"
    "follow [[124], [38], [59], [41]] rest" "4 * (es - s) + 1 \<le> n"
  shows "reads buf es rest (redirected c rs) (parseblock n buf es s)"
proof -
  obtain m where n: "n = Suc m" using assms(5) by (cases n) auto
  note t = at_toks_Cons [OF assms(3)]
  let ?s1 = "Suc (s + length [40 :: u8])" and ?r = "[41] # rtoks rs @ rest"
  have at: "at_toks buf es ?s1 (body c @ ?r)" using t(1) by simp
  moreover have "4 * (es - ?s1) + 4 \<le> m" "follow [[41]] ?r" using assms(5) t(4) n by (simp_all add: follow_def)
  ultimately have "reads buf es ?r c (parseline m buf es ?s1)" using assms(1) unfolding line_reads_def by blast
  then obtain c1 s1 where c1: "parseline m buf es ?s1 = Parsed c1 s1" "tree (word_in buf) c1 = c" "at_toks buf es s1 ?r" by (rule reads_D)
  note u = at_toks_Cons [OF c1(3)]
  have "?s1 \<le> s1" by (rule at_toks_le [OF at c1(3)])
  have "parseblock n buf es s = parseredirs m c1 buf es (Suc (s1 + length [41 :: u8]))"
    unfolding n parseblock.simps peek_toks(6) [OF assms(3)] gettoken_at_toks [OF assms(3)] prod.case c1(1) pbnd.simps
      peek_toks(7) [OF c1(3)] gettoken_at_toks [OF c1(3)]
    by (simp add: bytes_of_def)
  moreover have "reads buf es rest (redirected (tree (word_in buf) c1) rs) (parseredirs m c1 buf es (Suc (s1 + length [41 :: u8])))"
    using u(1,4) assms(2,4,5) n \<open>?s1 \<le> s1\<close> by (intro parseredirs_reads) (auto simp: follow_def)
  ultimately show ?thesis using c1(2) by simp
qed

lemma exec_any:
  assumes "level (base c) < 3 \<longrightarrow> line_reads buf es (base c)" "wf c"
  shows "exec_reads buf es c"
  unfolding exec_reads_def
proof (intro allI impI, elim conjE)
  fix n s rest assume h: "at_toks buf es s (shown 3 c @ rest)" "follow [[124], [38], [59], [41]] rest" "4 * (es - s) + 2 \<le> n"
  obtain m where n: "n = Suc m" "4 * (es - s) + 1 \<le> m" using h(3) by (cases n) auto
  note rb = redirs_base(1,2) [of c] redirs_base(3) [OF assms(2)]
  have at: "at_toks buf es s (shown 3 (base c) @ rtoks (redirs c) @ rest)" using h(1) rb(2) by simp
  show "reads buf es rest c (parseexec n buf es s)"
  proof (cases "level (base c) < 3")
    case True
    then have at': "at_toks buf es s ([40] # body (base c) @ [41] # rtoks (redirs c) @ rest)" using at by (simp add: paren_def)
    have "reads buf es rest (redirected (base c) (redirs c)) (parseblock m buf es s)"
      using assms(1) True rb(3) at' h(2) n(2) by (intro block_reads) auto
    then show ?thesis using rb(1) by (simp add: n peek_toks [OF at'] bytes_of_def)
  next
    case False
    then obtain ws where ws: "base c = SExec ws" using redirs_base(4) [of c] by auto
    then have at': "at_toks buf es s (ws @ rtoks (redirs c) @ rest)" using at by (simp add: paren_def)
    have hd: "ws @ rtoks (redirs c) @ rest = [] \<or> hd (hd (ws @ rtoks (redirs c) @ rest)) \<noteq> 40"
    proof (cases ws)
      case Nil
      then show ?thesis using h(2) redir_tok_40 by (cases "redirs c") (auto simp: follow_def)
    next
      case (Cons w ws')
      then show ?thesis using rb(3) ws word_hd [of w] by auto
    qed
    have "reads buf es rest (redirected (SExec (map (word_in buf) [] @ ws)) (redirs c))
      (pbnd (parseredirs m (Execcmd []) buf es s) (\<lambda>ret s. parseargs m ret (length ([] :: (nat \<times> nat) list)) buf es s))"
      using at' rb(3) ws h(2) n(2) by (intro parseargs_reads) auto
    then show ?thesis using hd rb(1) ws by (auto simp: n peek_toks [OF at'] bytes_of_def)
  qed
qed

lemma all_read: "wf c \<Longrightarrow> exec_reads buf es c \<and> pipe_reads buf es c \<and> back_reads buf es c \<and> line_reads buf es c"
proof (induction c rule: measure_induct_rule [of size])
  case (less c)
  note any = exec_any [OF _ less.prems, of buf es]
  show ?case
  proof (cases c)
    case (SList a b)
    then have "back_reads buf es a" "line_reads buf es b" using less by auto
    then have "line_reads buf es c" unfolding SList by (rule line_two)
    moreover from this have "exec_reads buf es c" using any SList by simp
    ultimately show ?thesis using pipe_one [of buf es c] back_one [of buf es c] SList by simp
  next
    case (SBack a)
    then have "back_reads buf es a" using less by auto
    then have "back_reads buf es c" unfolding SBack by (rule back_more)
    moreover from this have "line_reads buf es c" using line_one [of buf es c] SBack by simp
    moreover from this have "exec_reads buf es c" using any SBack by simp
    ultimately show ?thesis using pipe_one [of buf es c] SBack by simp
  next
    case (SPipe a b)
    then have "exec_reads buf es a" "pipe_reads buf es b" using less by auto
    then have "pipe_reads buf es c" unfolding SPipe by (rule pipe_two)
    moreover from this have "back_reads buf es c" using back_one [of buf es c] SPipe by simp
    moreover from this have "line_reads buf es c" using line_one [of buf es c] SPipe by simp
    ultimately show ?thesis using any SPipe by simp
  next
    case (SExec ws)
    then have "exec_reads buf es c" using any by simp
    then show ?thesis using pipe_one [of buf es c] back_one [of buf es c] line_one [of buf es c] SExec by simp
  next
    case (SRedir a f mode fd)
    have "size (base a) \<le> size a" by (induction a) auto
    then have "line_reads buf es (base c)" using less SRedir redirs_base(3) [of c] by simp
    then have "exec_reads buf es c" using any by simp
    then show ?thesis using pipe_one [of buf es c] back_one [of buf es c] line_one [of buf es c] SRedir by simp
  qed
qed

subsection \<open>Printing and parsing\<close>

definition show_cmd :: "scmd \<Rightarrow> u8 list" where
  "show_cmd c = text_of (body c)"

lemma text_of_nonzero: "\<forall>t \<in> set ts. is_tok t \<Longrightarrow> 0 \<notin> set (text_of ts)"
  by (induction ts) (auto simp: text_of_def dest: tok_nonblank)

lemma strlen_u_app: "0 \<notin> set t \<Longrightarrow> strlen_u (t @ 0 # post) = length t"
  by (induction t) auto

text \<open>\<^bold>\<open>C10\<close> Every command the shell can run can be typed, and is understood: for a tree of
  simple commands of at most nine words, redirections, pipes, lists and background commands,
  \<^verbatim>\<open>parsecmd\<close> accepts its text and returns a command whose arguments and file names,
  modes and descriptors, as \<^verbatim>\<open>runcmd\<close> will read them, are those of the tree.\<close>

theorem parse_show:
  assumes "wf c"
  shows "\<exists>c' buf'. parsecmd sys (show_cmd c @ 0 # post) w = Val (c', buf') w \<and>
    tree (\<lambda>t. word_at buf' (fst t)) c' = c"
proof -
  let ?buf = "show_cmd c @ 0 # post" and ?es = "length (show_cmd c)"
  have len: "strlen_u ?buf = ?es"
    unfolding show_cmd_def by (intro strlen_u_app text_of_nonzero body_toks assms)
  have ok: "line_ok ?buf ?es" using line_ok_strlen [of ?buf] len by simp
  have "map (at ?buf) [0..<?es] = show_cmd c"
    by (rule nth_equalityI) (simp_all add: at_def nth_append)
  then have at: "at_toks ?buf ?es 0 (body c @ [])"
    using ok body_toks [OF assms] by (simp add: at_toks_def show_cmd_def)
  have "reads ?buf ?es [] c (parseline (parse_fuel ?es) ?buf ?es 0)"
    using all_read [OF assms, of ?buf ?es] at unfolding line_reads_def by (simp add: follow_def parse_fuel_def)
  then obtain c' s' where c': "parseline (parse_fuel ?es) ?buf ?es 0 = Parsed c' s'" "tree (word_in ?buf) c' = c"
    "at_toks ?buf ?es s' []"
    by (rule reads_D)
  then have s': "s' = ?es" by (simp add: at_toks_Nil)
  have p: "parsecmd sys ?buf w = Val (c', nulterminate c' ?buf) w"
    using c'(1) peek_toks(8) [OF c'(3)] s' by (simp add: parsecmd_def Let_def len)
  have "tree (\<lambda>t. word_at (nulterminate c' ?buf) (fst t)) c' = tree (word_in ?buf) c'"
    by (rule tree_cong) (use nulterminate_word [OF parsecmd_good(1) [OF p]] in \<open>auto simp: prod_eq_iff\<close>)
  then show ?thesis using p c'(2) by (intro exI [of _ c'] exI [of _ "nulterminate c' ?buf"]) simp
qed

definition demo_cmd :: scmd where
  "demo_cmd = SList (SBack (SPipe (SRedir (SExec [bytes_of ''cat'']) (bytes_of ''in'') 0 0) (SExec [bytes_of ''wc'', bytes_of ''-l''])))
     (SRedir (SList (SExec [bytes_of ''a'']) (SExec [bytes_of ''b''])) (bytes_of ''out'') 0x201 1)"

theorem parse_show_witness:
  "show_cmd demo_cmd = bytes_of ''cat < in | wc -l & ; ( a ; b ) >> out '' \<and>
   (\<exists>c' buf'. parsecmd demo_usys (show_cmd demo_cmd @ 0 # []) ([], []) = Val (c', buf') ([], []) \<and>
     tree (\<lambda>t. word_at buf' (fst t)) c' = demo_cmd)"
proof -
  have "wf demo_cmd"
    by (simp add: demo_cmd_def is_word_def wordch_def bytes_of_def blank_ch_def)
  then show ?thesis using parse_show [of demo_cmd demo_usys "[]" "([], [])"]
    by (simp add: show_cmd_def demo_cmd_def text_of_def paren_def redir_tok_def bytes_of_def)
qed

end
