(* ===== verification/Spec2Isabelle.thy ===== *)
theory Spec2Isabelle
  imports Kstring Spinlock Vm_Map Trap Log_Tx Virtio_Refine Pipe_Fifo Console_Line Machine_Boot Uprogs Shell_Print
begin

text \<open>
  A verification of an xv6-riscv kernel (\<^verbatim>\<open>src/kernel\<close>).
\<close>

end
